(* ===== verification/Hydrogen_Prelude.thy ===== *)
theory Hydrogen_Prelude
  imports Main "HOL-Library.Multiset" "HOL-Library.Word"
begin

text \<open>
  Shared vocabulary of the development: the C++ integer types, the failure values of
  code that has undefined behaviour or throws, the standard-library algorithms the
  program uses on its containers (\<open>find_if\<close>, \<open>erase\<close>, \<open>sort\<close>, \<open>min_element\<close>,
  \<open>max_element\<close>, \<open>rotate\<close>) and the generic facts about them.
\<close>

section \<open>Types, failures and fact collections\<close>

type_synonym byte = "8 word"
type_synonym i32 = "32 word"
type_synonym size_t = "64 word"

text \<open>
  What a call can do instead of returning: dereference a null pointer or the end
  iterator, access memory outside a buffer, divide by zero, throw
  \<open>std::out_of_range\<close>, \<open>std::invalid_argument\<close> or the error of a socket that was closed
  (\<open>boost::system::system_error\<close>), block, or recurse for ever.
\<close>

datatype failure =
    Null_Deref
  | End_Deref
  | Out_Of_Bounds
  | Division_By_Zero
  | Bad_Cast
  | Out_Of_Range
  | Would_Block
  | Stack_Overflow
  | Invalid_Argument
  | System_Error

type_synonym 'a result = "failure + 'a"

named_theorems frame_simps "fields an operation leaves alone"

fun bindR :: "'a result \<Rightarrow> ('a \<Rightarrow> 'b result) \<Rightarrow> 'b result" where
  "bindR (Inl e) f = Inl e"
| "bindR (Inr x) f = f x"

section \<open>find_if and erase\<close>

text \<open>\<open>std::find_if\<close>: the index of the first match, \<open>None\<close> for the end iterator.\<close>

fun find_if :: "('a \<Rightarrow> bool) \<Rightarrow> 'a list \<Rightarrow> nat option" where
  "find_if P [] = None"
| "find_if P (x # xs) = (if P x then Some 0 else map_option Suc (find_if P xs))"

text \<open>\<open>std::deque::erase(it)\<close> at a valid position.\<close>

definition erase_at :: "nat \<Rightarrow> 'a list \<Rightarrow> 'a list" where
  "erase_at i xs = take i xs @ drop (Suc i) xs"

section \<open>sort, min_element, max_element, rotate\<close>

text \<open>
  \<open>std::sort\<close> with a comparator. The windows the scheduler sorts hold at most
  \<open>window = 5\<close> jobs, below the threshold under which the standard library sorts by
  plain insertion, so equal elements keep their order.
\<close>

fun sort_insert :: "('a \<Rightarrow> 'a \<Rightarrow> bool) \<Rightarrow> 'a \<Rightarrow> 'a list \<Rightarrow> 'a list" where
  "sort_insert lt x [] = [x]"
| "sort_insert lt x (y # ys) = (if lt x y then x # y # ys else y # sort_insert lt x ys)"

definition std_sort :: "('a \<Rightarrow> 'a \<Rightarrow> bool) \<Rightarrow> 'a list \<Rightarrow> 'a list" where
  "std_sort lt xs = foldl (\<lambda>acc x. sort_insert lt x acc) [] xs"

text \<open>
  The loop of \<open>std::max_element\<close> and \<open>std::min_element\<close>: position \<open>k\<close> is examined
  next, \<open>b\<close> is the element at the best position \<open>bi\<close> so far. On ties the first one
  stays. The end position is returned for the empty range.
\<close>

fun max_element_loop :: "('a \<Rightarrow> 'a \<Rightarrow> bool) \<Rightarrow> nat \<Rightarrow> 'a \<Rightarrow> nat \<Rightarrow> 'a list \<Rightarrow> nat" where
  "max_element_loop lt bi b k [] = bi"
| "max_element_loop lt bi b k (x # xs) =
     (if lt b x then max_element_loop lt k x (Suc k) xs else max_element_loop lt bi b (Suc k) xs)"

definition max_element :: "('a \<Rightarrow> 'a \<Rightarrow> bool) \<Rightarrow> 'a list \<Rightarrow> nat" where
  "max_element lt xs = (case xs of [] \<Rightarrow> 0 | y # ys \<Rightarrow> max_element_loop lt 0 y 1 ys)"

definition min_element :: "('a \<Rightarrow> 'a \<Rightarrow> bool) \<Rightarrow> 'a list \<Rightarrow> nat" where
  "min_element lt xs = max_element (\<lambda>a b. lt b a) xs"

text \<open>\<open>std::rotate(first, first + m, last)\<close>.\<close>

definition std_rotate :: "nat \<Rightarrow> 'a list \<Rightarrow> 'a list" where
  "std_rotate m xs = drop m xs @ take m xs"

section \<open>Facts\<close>

lemma bindR_eq_Inr: "bindR r f = Inr y \<longleftrightarrow> (\<exists>x. r = Inr x \<and> f x = Inr y)"
  by (cases r) auto

lemma find_if_Some:
  "find_if P xs = Some i \<Longrightarrow> i < length xs \<and> P (xs ! i) \<and> (\<forall>k<i. \<not> P (xs ! k))"
proof (induction xs arbitrary: i)
  case Nil
  then show ?case by simp
next
  case (Cons x xs)
  show ?case
  proof (cases "P x")
    case True
    with Cons.prems show ?thesis by simp
  next
    case False
    with Cons.prems obtain j where "find_if P xs = Some j" and i: "i = Suc j" by auto
    then have "j < length xs \<and> P (xs ! j) \<and> (\<forall>k<j. \<not> P (xs ! k))" using Cons.IH by blast
    with i False show ?thesis by (auto simp: less_Suc_eq_0_disj)
  qed
qed

lemma find_if_None: "find_if P xs = None \<longleftrightarrow> (\<forall>x\<in>set xs. \<not> P x)"
  by (induction xs) auto

lemma mset_erase_at: "i < length xs \<Longrightarrow> add_mset (xs ! i) (mset (erase_at i xs)) = mset xs"
  by (metis add_mset_add_single erase_at_def id_take_nth_drop mset.simps(2) mset_append union_mset_add_mset_right)

lemma set_erase_at_subset: "set (erase_at i xs) \<subseteq> set xs"
  by (auto simp: erase_at_def dest: in_set_takeD in_set_dropD)

lemma erase_at_Cons [simp]:
  "erase_at 0 (x # xs) = xs"
  "erase_at (Suc i) (x # xs) = x # erase_at i xs"
  by (simp_all add: erase_at_def)

lemma erase_at_Nil [simp]: "erase_at i [] = []"
  by (simp add: erase_at_def)

lemma distinct_erase_at: "distinct xs \<Longrightarrow> distinct (erase_at i xs)"
proof (induction xs arbitrary: i)
  case (Cons x xs)
  then show ?case using set_erase_at_subset [of _ xs] by (cases i) auto
qed simp

lemma nth_in_erase_at: "j < length xs \<Longrightarrow> i \<noteq> j \<Longrightarrow> xs ! j \<in> set (erase_at i xs)"
proof (induction xs arbitrary: i j)
  case (Cons x xs)
  then show ?case by (cases i; cases j) auto
qed simp

lemma length_erase_at [simp]: "i < length xs \<Longrightarrow> length (erase_at i xs) = length xs - 1"
  by (simp add: erase_at_def)

lemma mset_sort_insert [simp]: "mset (sort_insert lt x xs) = add_mset x (mset xs)"
  by (induction xs) auto

lemma mset_std_sort [simp]: "mset (std_sort lt xs) = mset xs"
proof -
  have "mset (foldl (\<lambda>acc x. sort_insert lt x acc) ys xs) = mset ys + mset xs" for ys
    by (induction xs arbitrary: ys) auto
  then show ?thesis by (simp add: std_sort_def)
qed

lemma set_std_sort [simp]: "set (std_sort lt xs) = set xs"
  by (metis mset_std_sort set_mset_mset)

lemma length_std_sort [simp]: "length (std_sort lt xs) = length xs"
  by (metis mset_std_sort size_mset)

lemma distinct_std_sort [simp]: "distinct (std_sort lt xs) = distinct xs"
  by (metis mset_eq_imp_distinct_iff mset_std_sort)

lemma std_rotate_length [simp]: "length (std_rotate m xs) = length xs"
  by (simp add: std_rotate_def)

lemma max_element_loop_bounds:
  "max_element_loop lt bi b k xs = bi \<or>
   (k \<le> max_element_loop lt bi b k xs \<and> max_element_loop lt bi b k xs < k + length xs)"
proof (induction xs arbitrary: bi b k)
  case (Cons x xs)
  show ?case
    using Cons.IH [of k x "Suc k"] Cons.IH [of bi b "Suc k"] by auto
qed simp

lemma max_element_less: "xs \<noteq> [] \<Longrightarrow> max_element lt xs < length xs"
proof (cases xs)
  case (Cons y ys)
  then show ?thesis using max_element_loop_bounds [of lt 0 y 1 ys] by (auto simp: max_element_def)
qed simp

lemma min_element_less: "xs \<noteq> [] \<Longrightarrow> min_element lt xs < length xs"
  by (simp add: min_element_def max_element_less)

lemma max_element_loop_first_max:
  fixes key :: "'a \<Rightarrow> 'k::linorder"
  assumes "bi < length pre" and "b = pre ! bi" and "k = length pre"
    and "\<forall>x\<in>set pre. key x \<le> key b" and "\<forall>j<bi. key (pre ! j) < key b"
    and "i = max_element_loop (\<lambda>u v. key u < key v) bi b k xs"
  shows "(\<forall>x\<in>set (pre @ xs). key x \<le> key ((pre @ xs) ! i)) \<and>
         (\<forall>j<i. key ((pre @ xs) ! j) < key ((pre @ xs) ! i))"
  using assms
proof (induction xs arbitrary: bi b k pre)
  case Nil
  then show ?case by simp
next
  case (Cons x xs)
  have app: "pre @ x # xs = (pre @ [x]) @ xs" by simp
  show ?case
  proof (cases "key b < key x")
    case True
    have le: "\<forall>y\<in>set (pre @ [x]). key y \<le> key x"
      using Cons.prems(4) True by (auto intro: order_trans less_imp_le)
    have lt: "\<forall>j<length pre. key ((pre @ [x]) ! j) < key x"
      using Cons.prems(4) True by (auto simp: nth_append intro: order_le_less_trans)
    show ?thesis
      unfolding app
      by (rule Cons.IH [of "length pre" "pre @ [x]" x "Suc k"]) (use True Cons.prems le lt in simp_all)
  next
    case False
    have le: "\<forall>y\<in>set (pre @ [x]). key y \<le> key b"
      using Cons.prems(4) False by auto
    have lt: "\<forall>j<bi. key ((pre @ [x]) ! j) < key b"
      using Cons.prems(1,5) by (simp add: nth_append)
    show ?thesis
      unfolding app
      by (rule Cons.IH [of bi "pre @ [x]" b "Suc k"]) (use False Cons.prems le lt in \<open>simp_all add: nth_append\<close>)
  qed
qed

text \<open>With a comparator that compares a key, the first of the largest elements.\<close>

lemma max_element_first_max:
  fixes key :: "'a \<Rightarrow> 'k::linorder"
  assumes "xs \<noteq> []" and "i = max_element (\<lambda>u v. key u < key v) xs"
  shows "(\<forall>x\<in>set xs. key x \<le> key (xs ! i)) \<and> (\<forall>j<i. key (xs ! j) < key (xs ! i))"
proof -
  from assms(1) obtain y ys where xs: "xs = y # ys" by (cases xs) auto
  have "i = max_element_loop (\<lambda>u v. key u < key v) 0 y 1 ys"
    using assms(2) xs by (simp add: max_element_def)
  then show ?thesis
    using max_element_loop_first_max [of 0 "[y]" y 1 key i ys] xs by simp
qed

lemma std_rotate_last: "xs \<noteq> [] \<Longrightarrow> std_rotate (length xs - 1) xs = last xs # butlast xs"
  by (induction xs rule: rev_induct) (simp_all add: std_rotate_def)

end
