(* ===== verification/Ideal_Float.thy ===== *)
theory Ideal_Float
  imports Complex_Main Hydrogen_Prelude
begin

text \<open>
  Floating-point values of the scheduler's cost model (\<open>float\<close> and \<open>double\<close> in
  \<open>algs.cpp\<close>, \<open>Allocations.hpp\<close>, \<open>Job.hpp\<close>): rationals with the two infinities and
  NaN. The infinities, NaN, division by zero and the comparisons follow IEEE 754, since
  the code reaches them (a job with an empty resource list costs \<open>t / 0\<close>). Rounding,
  overflow of finite values and the sign of zero are not modelled: a zero that is
  divided by always comes from an unsigned count in this program.
\<close>

datatype fp = Fin rat | PInf | MInf | NaN

fun fp_neg :: "fp \<Rightarrow> fp" where
  "fp_neg (Fin a) = Fin (- a)"
| "fp_neg PInf = MInf"
| "fp_neg MInf = PInf"
| "fp_neg NaN = NaN"

fun fp_add :: "fp \<Rightarrow> fp \<Rightarrow> fp" where
  "fp_add (Fin a) (Fin b) = Fin (a + b)"
| "fp_add NaN y = NaN"
| "fp_add x NaN = NaN"
| "fp_add PInf MInf = NaN"
| "fp_add MInf PInf = NaN"
| "fp_add PInf y = PInf"
| "fp_add x PInf = PInf"
| "fp_add MInf y = MInf"
| "fp_add x MInf = MInf"

definition fp_sub :: "fp \<Rightarrow> fp \<Rightarrow> fp" where
  "fp_sub x y = fp_add x (fp_neg y)"

fun fp_div :: "fp \<Rightarrow> fp \<Rightarrow> fp" where
  "fp_div (Fin a) (Fin b) =
     (if b \<noteq> 0 then Fin (a / b) else if 0 < a then PInf else if a < 0 then MInf else NaN)"
| "fp_div NaN y = NaN"
| "fp_div x NaN = NaN"
| "fp_div (Fin a) y = Fin 0"
| "fp_div PInf (Fin b) = (if 0 \<le> b then PInf else MInf)"
| "fp_div MInf (Fin b) = (if 0 \<le> b then MInf else PInf)"
| "fp_div x y = NaN"

text \<open>Comparisons: false as soon as one side is NaN.\<close>

fun fp_less :: "fp \<Rightarrow> fp \<Rightarrow> bool" where
  "fp_less (Fin a) (Fin b) = (a < b)"
| "fp_less NaN y = False"
| "fp_less x NaN = False"
| "fp_less PInf y = False"
| "fp_less x MInf = False"
| "fp_less MInf y = True"
| "fp_less x PInf = True"

fun fp_leq :: "fp \<Rightarrow> fp \<Rightarrow> bool" where
  "fp_leq (Fin a) (Fin b) = (a \<le> b)"
| "fp_leq NaN y = False"
| "fp_leq x NaN = False"
| "fp_leq x PInf = True"
| "fp_leq MInf y = True"
| "fp_leq x y = False"

definition fp_of_int :: "int \<Rightarrow> fp" where
  "fp_of_int n = Fin (of_int n)"

text \<open>
  Conversion to \<open>int\<close>: truncation towards zero, undefined for NaN, the infinities and
  values outside the 32-bit range.
\<close>

definition rat_trunc :: "rat \<Rightarrow> int" where
  "rat_trunc a = (if 0 \<le> a then \<lfloor>a\<rfloor> else \<lceil>a\<rceil>)"

fun fp_to_int :: "fp \<Rightarrow> int result" where
  "fp_to_int (Fin a) =
     (if - (2 ^ 31) \<le> rat_trunc a \<and> rat_trunc a < 2 ^ 31 then Inr (rat_trunc a) else Inl Bad_Cast)"
| "fp_to_int x = Inl Bad_Cast"

lemma fp_add_zero_left [simp]: "fp_add (Fin 0) x = x"
  by (cases x) simp_all

lemma fp_add_assoc_fin: "fp_add (fp_add x (Fin a)) (Fin b) = fp_add x (Fin (a + b))"
  by (cases x) (simp_all add: add.assoc)

lemma fp_sub_simps [simp]:
  "fp_sub (Fin a) (Fin b) = Fin (a - b)"
  "fp_sub (Fin a) PInf = MInf"
  "fp_sub (Fin a) MInf = PInf"
  "fp_sub (Fin a) NaN = NaN"
  by (simp_all add: fp_sub_def)

lemma fp_leq_Fin: "fp_leq x (Fin a) \<longleftrightarrow> (case x of Fin b \<Rightarrow> b \<le> a | MInf \<Rightarrow> True | _ \<Rightarrow> False)"
  by (cases x) simp_all

lemma fp_to_int_Inr: "fp_to_int x = Inr n \<Longrightarrow> \<exists>a. x = Fin a \<and> n = rat_trunc a"
  by (cases x) (auto split: if_splits)

lemma rat_trunc_of_int_add:
  "0 \<le> n \<Longrightarrow> 0 \<le> a \<Longrightarrow> rat_trunc (of_int n + a) = n + \<lfloor>a\<rfloor>"
  by (simp add: rat_trunc_def)

end
