(* ===== verification/Number_Text.thy ===== *)
theory Number_Text
  imports Hydrogen_Prelude
begin

text \<open>
  Numbers as text, the way the program converts them: \<open>operator<<\<close> and \<open>lexical_cast\<close> for an
  \<open>int\<close>, \<open>atoi\<close> for environment variables and command-line arguments, \<open>operator>>\<close> into an \<open>int\<close>.
  \<open>atoi\<close> is that of the GNU library: \<open>strtol\<close>, which stops at the limits of \<open>long\<close>, cut down to an
  \<open>int\<close>. Characters are compared by their codes.
\<close>

section \<open>Writing\<close>

definition digit_char :: "nat \<Rightarrow> char" where
  "digit_char d = char_of (48 + d)"

fun show_nat :: "nat \<Rightarrow> string" where
  "show_nat n = (if n < 10 then [] else show_nat (n div 10)) @ [digit_char (n mod 10)]"

declare show_nat.simps [simp del]

definition show_int :: "int \<Rightarrow> string" where
  "show_int i = (if 0 \<le> i then show_nat (nat i) else CHR ''-'' # show_nat (nat (- i)))"

section \<open>Reading\<close>

definition is_digit :: "char \<Rightarrow> bool" where
  "is_digit c \<longleftrightarrow> 48 \<le> (of_char c :: nat) \<and> (of_char c :: nat) \<le> 57"

definition is_space :: "char \<Rightarrow> bool" where
  "is_space c \<longleftrightarrow> (of_char c :: nat) = 32 \<or> 9 \<le> (of_char c :: nat) \<and> (of_char c :: nat) \<le> 13"

definition digits_value :: "string \<Rightarrow> nat" where
  "digits_value ds = foldl (\<lambda>a c. 10 * a + (of_char c - 48)) 0 ds"

text \<open>
  The common part: white space, a sign, then as many digits as there are; \<open>None\<close> without any.
\<close>

fun split_sign :: "string \<Rightarrow> bool \<times> string" where
  "split_sign [] = (False, [])"
| "split_sign (c # cs) =
     (if c = CHR ''-'' then (True, cs) else if c = CHR ''+'' then (False, cs) else (False, c # cs))"

definition scan_int :: "string \<Rightarrow> int option" where
  "scan_int s =
     (let (neg, r) = split_sign (dropWhile is_space s); ds = takeWhile is_digit r
      in if ds = [] then None
         else Some (if neg then - int (digits_value ds) else int (digits_value ds)))"

definition clamp :: "nat \<Rightarrow> int \<Rightarrow> int" where
  "clamp w v = max (- (2 ^ (w - 1))) (min (2 ^ (w - 1) - 1) v)"

definition atoi :: "string \<Rightarrow> int" where
  "atoi s = (case scan_int s of None \<Rightarrow> 0 | Some v \<Rightarrow> sint (of_int (clamp 64 v) :: i32))"

text \<open>\<open>ss >> port\<close>: zero when no number is there, the nearest limit when it does not fit.\<close>

definition read_int :: "string \<Rightarrow> int" where
  "read_int s = (case scan_int s of None \<Rightarrow> 0 | Some v \<Rightarrow> clamp 32 v)"

section \<open>Facts\<close>

lemma of_char_digit [simp]: "d < 10 \<Longrightarrow> of_char (digit_char d) = 48 + d"
  by (simp add: digit_char_def)

lemma is_digit_digit_char [simp]: "d < 10 \<Longrightarrow> is_digit (digit_char d)"
  by (simp add: is_digit_def)

lemma show_nat_digits: "\<forall>c\<in>set (show_nat n). is_digit c"
proof (induction n rule: show_nat.induct)
  case (1 n)
  then show ?case by (subst show_nat.simps) auto
qed

lemma show_nat_nonempty [simp]: "show_nat n \<noteq> []"
  by (subst show_nat.simps) simp

lemma foldl_digits:
  "foldl (\<lambda>a c. 10 * a + f c) b ys = b * 10 ^ length ys + foldl (\<lambda>a c. 10 * a + f c) (0 :: nat) ys"
proof (induction ys arbitrary: b)
  case (Cons y ys)
  show ?case using Cons [of "10 * b + f y"] Cons [of "f y"] by (simp add: add_mult_distrib)
qed simp

lemma digits_value_append: "digits_value (xs @ ys) = digits_value xs * 10 ^ length ys + digits_value ys"
  unfolding digits_value_def foldl_append by (rule foldl_digits)

lemma digits_value_show: "digits_value (show_nat n) = n"
proof (induction n rule: show_nat.induct)
  case (1 n)
  show ?case
  proof (cases "n < 10")
    case True
    then show ?thesis by (subst show_nat.simps) (simp add: digits_value_def)
  next
    case False
    then have "digits_value (show_nat n) = n div 10 * 10 + n mod 10"
      using 1 by (subst show_nat.simps) (simp add: digits_value_append, simp add: digits_value_def)
    then show ?thesis by simp
  qed
qed

lemma show_nat_inject [simp]: "show_nat m = show_nat n \<longleftrightarrow> m = n"
  by (metis digits_value_show)

lemma length_show_nat: "10 \<le> n \<Longrightarrow> 2 \<le> length (show_nat n)"
  using show_nat_nonempty [of "n div 10"]
  by (subst show_nat.simps) (cases "show_nat (n div 10)"; simp)

lemma digit_not_space: "is_digit c \<Longrightarrow> \<not> is_space c"
  by (auto simp: is_digit_def is_space_def)

lemma digit_not_sign: "is_digit c \<Longrightarrow> c \<noteq> CHR ''-'' \<and> c \<noteq> CHR ''+''"
  by (auto simp: is_digit_def)

lemma minus_not_space: "\<not> is_space CHR ''-''"
  by (simp add: is_space_def)

text \<open>What was written is read back, whatever follows that is not a digit.\<close>

lemma takeWhile_show_nat:
  "rest = [] \<or> \<not> is_digit (hd rest) \<Longrightarrow> takeWhile is_digit (show_nat n @ rest) = show_nat n"
  using show_nat_digits [of n] by (cases rest) (auto simp: takeWhile_append takeWhile_eq_all_conv)

lemma scan_show_int:
  assumes "rest = [] \<or> \<not> is_digit (hd rest)"
  shows "scan_int (show_int i @ rest) = Some i"
proof (cases "0 \<le> i")
  case True
  obtain c cs where c: "show_nat (nat i) = c # cs" by (cases "show_nat (nat i)") simp_all
  then have d: "is_digit c" using show_nat_digits [of "nat i"] by simp
  have "split_sign (dropWhile is_space (show_nat (nat i) @ rest)) = (False, show_nat (nat i) @ rest)"
    using d digit_not_space [OF d] digit_not_sign [OF d] by (simp add: c)
  then show ?thesis
    using True takeWhile_show_nat [OF assms] by (simp add: scan_int_def show_int_def digits_value_show)
next
  case False
  then show ?thesis
    using takeWhile_show_nat [OF assms] minus_not_space
    by (simp add: scan_int_def show_int_def digits_value_show)
qed

lemma clamp_id: "- (2 ^ (w - 1)) \<le> v \<Longrightarrow> v < 2 ^ (w - 1) \<Longrightarrow> clamp w v = v"
  by (simp add: clamp_def)

lemma atoi_show_int:
  assumes "- (2 ^ 31) \<le> i" "i < 2 ^ 31" "rest = [] \<or> \<not> is_digit (hd rest)"
  shows "atoi (show_int i @ rest) = i"
proof -
  have "clamp 64 i = i" using assms(1,2) by (intro clamp_id) simp_all
  moreover have "sint (of_int i :: i32) = i" using assms(1,2) by (simp add: sint_sbintrunc' signed_take_bit_int_eq_self)
  ultimately show ?thesis using scan_show_int [OF assms(3)] by (simp add: atoi_def)
qed

lemma read_int_show_int:
  assumes "- (2 ^ 31) \<le> i" "i < 2 ^ 31" "rest = [] \<or> \<not> is_digit (hd rest)"
  shows "read_int (show_int i @ rest) = i"
  using scan_show_int [OF assms(3)] assms(1,2) clamp_id [of 32 i] by (simp add: read_int_def)

end
