(* ===== verification/Message.thy ===== *)
theory Message
  imports Number_Text
begin

unbundle bit_operations_syntax

text \<open>
  The message layer (\<open>src/common/message.hpp\<close>, \<open>message.cpp\<close>): the packed struct
  \<open>msg_t\<close>, its constructors, the accessors \<open>firstParam\<close> and \<open>nDfes\<close>, and the bytes
  a message occupies in memory and on a socket. Integers keep their width: \<open>int\<close> is a
  32-bit word read with \<open>sint\<close>, \<open>size_t\<close> a 64-bit word, \<open>char\<close> a byte. Doubles are
  only copied by this layer and are kept as 64-bit patterns. Bytes are little-endian, as
  on the x86 hosts of the program.
\<close>

section \<open>Bytes of machine words\<close>

fun le_bytes :: "nat \<Rightarrow> nat \<Rightarrow> byte list" where
  "le_bytes 0 x = []"
| "le_bytes (Suc n) x = of_nat x # le_bytes n (x div 256)"

fun le_nat :: "byte list \<Rightarrow> nat" where
  "le_nat [] = 0"
| "le_nat (b # bs) = unat b + 256 * le_nat bs"

definition word_bytes :: "'a::len word \<Rightarrow> byte list" where
  "word_bytes (w :: 'a word) = le_bytes (LENGTH('a) div 8) (unat w)"

definition bytes_word :: "byte list \<Rightarrow> 'a::len word" where
  "bytes_word bs = of_nat (le_nat bs)"

definition ints_bytes :: "i32 list \<Rightarrow> byte list" where
  "ints_bytes xs = concat (map word_bytes xs)"

text \<open>\<open>take_field off n bs\<close>: the \<open>n\<close> bytes at offset \<open>off\<close>.\<close>

definition take_field :: "nat \<Rightarrow> nat \<Rightarrow> byte list \<Rightarrow> byte list" where
  "take_field off n bs = take n (drop off bs)"

definition bytes_ints :: "nat \<Rightarrow> byte list \<Rightarrow> i32 list" where
  "bytes_ints n bs = map (\<lambda>i. bytes_word (take_field (4 * i) 4 bs)) [0..<n]"

text \<open>\<open>memcpy(dst + off, src, length src)\<close>: outside the buffer is an error.\<close>

definition memcpy_at :: "nat \<Rightarrow> byte list \<Rightarrow> byte list \<Rightarrow> byte list result" where
  "memcpy_at off src dst =
     (if off + length src \<le> length dst
      then Inr (take off dst @ src @ drop (off + length src) dst)
      else Inl Out_Of_Bounds)"

section \<open>The message struct\<close>

record msg =
  msgId :: i32
  clientId :: i32
  priority :: i32
  avg_wt :: i32
  resourceType :: i32
  predictedTimeMillis :: i32
  targetExecutionTimeMillis :: i32
  rids :: byte
  expDataSizeBytes :: size_t
  dataSize :: size_t
  paramsSize :: size_t
  totalBytes :: size_t
  dataBytes :: size_t
  data :: "byte list"

definition DFE :: i32 where "DFE = 0"
definition CPU :: i32 where "CPU = 1"

definition MSG_DONE :: i32 where "MSG_DONE = 0"
definition MSG_ACK :: i32 where "MSG_ACK = 1"
definition MSG_MOVING_AVG :: i32 where "MSG_MOVING_AVG = 2"
definition MSG_OPTION_PRICE :: i32 where "MSG_OPTION_PRICE = 3"
definition MSG_RESULT :: i32 where "MSG_RESULT = 100"
definition MSG_CONTROL :: i32 where "MSG_CONTROL = 200"
definition MSG_TERM :: i32 where "MSG_TERM = 300"

lemmas msg_ids = MSG_DONE_def MSG_ACK_def MSG_MOVING_AVG_def MSG_OPTION_PRICE_def
  MSG_RESULT_def MSG_CONTROL_def MSG_TERM_def DFE_def CPU_def

text \<open>\<open>sizeof(msg_t)\<close> under \<open>#pragma pack(1)\<close>: seven \<open>int\<close>, one \<open>char\<close>, five \<open>size_t\<close>.\<close>

definition sizeof_msg :: nat where "sizeof_msg = 7 * 4 + 1 + 5 * 8"

definition zero_msg :: "nat \<Rightarrow> msg" where
  "zero_msg k = \<lparr>msgId = 0, clientId = 0, priority = 0, avg_wt = 0, resourceType = 0,
     predictedTimeMillis = 0, targetExecutionTimeMillis = 0, rids = 0, expDataSizeBytes = 0,
     dataSize = 0, paramsSize = 0, totalBytes = 0, dataBytes = 0, data = replicate k 0\<rparr>"

text \<open>
  \<open>(msg_t *)calloc(sz, 1)\<close> followed by writes to the fields: too small a block is
  overrun, and a size above \<open>PTRDIFF_MAX\<close> (a negative \<open>int\<close> converted) gives NULL.
\<close>

definition calloc_msg :: "size_t \<Rightarrow> msg result" where
  "calloc_msg sz =
     (if 2 ^ 63 \<le> unat sz then Inl Null_Deref
      else if unat sz < sizeof_msg then Inl Out_Of_Bounds
      else Inr (zero_msg (unat sz - sizeof_msg)))"

section \<open>Constructors\<close>

definition msg_empty :: msg where
  "msg_empty = (zero_msg 0)\<lparr>totalBytes := of_nat sizeof_msg, dataBytes := 0\<rparr>"

definition msg_ack :: msg where
  "msg_ack = (zero_msg 0)\<lparr>msgId := MSG_ACK, totalBytes := of_nat sizeof_msg, dataBytes := 0\<rparr>"

definition msg_done :: msg where
  "msg_done = (zero_msg 0)\<lparr>msgId := MSG_DONE, totalBytes := of_nat sizeof_msg, dataBytes := 0\<rparr>"

text \<open>
  \<open>msg_moving_avg(int n, size_t width, int *dataIn)\<close>. The byte counts are computed in
  \<open>size_t\<close> and stored in \<open>int\<close> variables, as in the source; \<open>dataIn\<close> is the memory
  the caller's pointer refers to.
\<close>

definition msg_moving_avg :: "i32 \<Rightarrow> size_t \<Rightarrow> i32 list \<Rightarrow> msg result" where
  "msg_moving_avg n width dataIn =
     (let dBytes = (ucast ((scast n :: size_t) * 4 + 8) :: i32);
          sizeBytes = (ucast (of_nat sizeof_msg + (scast dBytes :: size_t)) :: i32);
          nBytes = unat (4 * (scast n :: size_t))
      in bindR (calloc_msg (scast sizeBytes)) (\<lambda>m.
           if length (ints_bytes dataIn) < nBytes then Inl Out_Of_Bounds
           else bindR (memcpy_at 0 (take nBytes (ints_bytes dataIn)) (data m)) (\<lambda>d.
             bindR (memcpy_at nBytes (word_bytes width) d) (\<lambda>d'.
               Inr (m\<lparr>msgId := MSG_MOVING_AVG,
                      expDataSizeBytes := (scast n :: size_t) * 4,
                      dataSize := scast n,
                      paramsSize := 1,
                      totalBytes := scast sizeBytes,
                      dataBytes := scast dBytes,
                      data := d'\<rparr>)))))"

text \<open>
  \<open>msg_option_pricing\<close>: four doubles and three ints packed without padding, in the
  order strike, sigma, timestep, numMaturity, paraNode, numPathGroup, T.
\<close>

definition msg_option_pricing ::
  "64 word \<Rightarrow> 64 word \<Rightarrow> 64 word \<Rightarrow> i32 \<Rightarrow> i32 \<Rightarrow> i32 \<Rightarrow> 64 word \<Rightarrow> msg result" where
  "msg_option_pricing strike sigma timestep numMaturity paraNode numPathGroup T =
     (let dBytes = 4 * 8 + 3 * 4; sizeBytes = sizeof_msg + dBytes
      in bindR (calloc_msg (of_nat sizeBytes)) (\<lambda>m.
           bindR (memcpy_at 0 (word_bytes strike) (data m)) (\<lambda>d.
           bindR (memcpy_at 8 (word_bytes sigma) d) (\<lambda>d.
           bindR (memcpy_at (2 * 8) (word_bytes timestep) d) (\<lambda>d.
           bindR (memcpy_at (3 * 8) (word_bytes numMaturity) d) (\<lambda>d.
           bindR (memcpy_at (3 * 8 + 4) (word_bytes paraNode) d) (\<lambda>d.
           bindR (memcpy_at (3 * 8 + 2 * 4) (word_bytes numPathGroup) d) (\<lambda>d.
           bindR (memcpy_at (3 * 8 + 3 * 4) (word_bytes T) d) (\<lambda>d.
             Inr (m\<lparr>msgId := MSG_OPTION_PRICE,
                    dataSize := 0,
                    expDataSizeBytes := 8,
                    paramsSize := 7,
                    dataBytes := of_nat dBytes,
                    totalBytes := of_nat sizeBytes,
                    data := d\<rparr>))))))))))"

section \<open>Accessors\<close>

text \<open>\<open>msg::firstParam\<close>: one \<open>char\<close>, sign-extended to \<open>int\<close>.\<close>

definition firstParam :: "msg \<Rightarrow> i32 result" where
  "firstParam m =
     (let i = unat (dataSize m * 4)
      in if i < length (data m) then Inr (scast (data m ! i)) else Inl Out_Of_Bounds)"

text \<open>\<open>msg::nDfes\<close>: how many of the low four bits of \<open>rids\<close> are set.\<close>

definition nDfes :: "msg \<Rightarrow> nat" where
  "nDfes m = foldl (\<lambda>n i. if (push_bit i 1 AND (scast (rids m) :: i32)) \<noteq> 0 then n + 1 else n)
     0 [0..<4]"

text \<open>
  \<open>print\<close>: the text on the console. The two loops read the payload as an array of \<open>int\<close>s, as
  far as the counts of the header say, whatever the block holds.
\<close>

definition print_ints :: "nat \<Rightarrow> nat \<Rightarrow> byte list \<Rightarrow> string result" where
  "print_ints lo hi d =
     (if lo < hi \<and> length d < 4 * hi then Inl Out_Of_Bounds
      else Inr (concat (map (\<lambda>i. show_int (sint (bytes_word (take_field (4 * i) 4 d) :: i32)) @ '' '') [lo..<hi])))"

definition show_size :: "size_t \<Rightarrow> string" where
  "show_size w = show_nat (unat w)"

abbreviation newline :: string where
  "newline \<equiv> [CHR 0x0A]"

definition msg_print :: "msg \<Rightarrow> string result" where
  "msg_print m =
     bindR (print_ints 0 (unat (dataSize m)) (data m)) (\<lambda>ds.
       bindR (print_ints (unat (dataSize m)) (unat (dataSize m + paramsSize m)) (data m)) (\<lambda>ps.
         Inr (''  Id: '' @ show_int (sint (msgId m)) @
           ''  Data size: '' @ show_size (dataSize m) @ newline @
           ''  Params size: '' @ show_size (paramsSize m) @ newline @
           ''  Exps data size bytes: '' @ show_size (expDataSizeBytes m) @ newline @
           ''  Data: '' @ ''  Total bytes: '' @ show_size (totalBytes m) @ newline @
           ''  Data Bytes: '' @ show_size (dataBytes m) @ newline @
           ds @ newline @ ''  Params: '' @ ps @ newline)))"

section \<open>Memory layout\<close>

text \<open>
  A message is sent by casting its address to \<open>char *\<close> (\<open>Client::send\<close>, the write of the server) and read by
  casting a buffer to \<open>msg_t *\<close>. Both see the members in the order of \<open>message.hpp\<close>, without padding
  because of \<open>#pragma pack(1)\<close>, followed by the flexible array \<open>data\<close>.
\<close>

definition msg_bytes :: "msg \<Rightarrow> byte list" where
  "msg_bytes m =
     word_bytes (msgId m) @ word_bytes (clientId m) @ word_bytes (priority m) @
     word_bytes (avg_wt m) @ word_bytes (resourceType m) @ word_bytes (predictedTimeMillis m) @
     word_bytes (targetExecutionTimeMillis m) @ word_bytes (rids m) @
     word_bytes (expDataSizeBytes m) @ word_bytes (dataSize m) @ word_bytes (paramsSize m) @
     word_bytes (totalBytes m) @ word_bytes (dataBytes m) @ data m"

text \<open>The cast \<open>(msg_t *)buf\<close> read as a struct.\<close>

definition bytes_msg :: "byte list \<Rightarrow> msg result" where
  "bytes_msg bs =
     (if length bs < sizeof_msg then Inl Out_Of_Bounds
      else Inr \<lparr>msgId = bytes_word (take_field 0 4 bs),
        clientId = bytes_word (take_field 4 4 bs),
        priority = bytes_word (take_field 8 4 bs),
        avg_wt = bytes_word (take_field 12 4 bs),
        resourceType = bytes_word (take_field 16 4 bs),
        predictedTimeMillis = bytes_word (take_field 20 4 bs),
        targetExecutionTimeMillis = bytes_word (take_field 24 4 bs),
        rids = bytes_word (take_field 28 1 bs),
        expDataSizeBytes = bytes_word (take_field 29 8 bs),
        dataSize = bytes_word (take_field 37 8 bs),
        paramsSize = bytes_word (take_field 45 8 bs),
        totalBytes = bytes_word (take_field 53 8 bs),
        dataBytes = bytes_word (take_field 61 8 bs),
        data = drop sizeof_msg bs\<rparr>)"

text \<open>
  A message whose byte counts describe the block it sits in; only such a message can be
  written to a socket without reading past its allocation.
\<close>

definition wf_msg :: "msg \<Rightarrow> bool" where
  "wf_msg m \<longleftrightarrow> unat (totalBytes m) = sizeof_msg + length (data m) \<and>
               unat (dataBytes m) = length (data m)"

text \<open>
  Reference value: the message a call of \<open>msg_moving_avg\<close> builds when its byte counts
  fit an \<open>int\<close>.
\<close>

definition moving_avg_msg :: "size_t \<Rightarrow> i32 list \<Rightarrow> msg" where
  "moving_avg_msg width xs = (zero_msg 0)\<lparr>msgId := MSG_MOVING_AVG,
     expDataSizeBytes := of_nat (4 * length xs), dataSize := of_nat (length xs), paramsSize := 1,
     totalBytes := of_nat (sizeof_msg + 4 * length xs + 8), dataBytes := of_nat (4 * length xs + 8),
     data := ints_bytes xs @ word_bytes width\<rparr>"

section \<open>Bytes and words: round trips\<close>

lemma le_nat_le_bytes: "le_nat (le_bytes n x) = x mod 256 ^ n"
proof (induction n arbitrary: x)
  case (Suc n)
  have "le_nat (le_bytes (Suc n) x) = x mod 256 + 256 * (x div 256 mod 256 ^ n)"
    by (simp add: Suc.IH unat_of_nat)
  also have "\<dots> = x mod 256 ^ Suc n"
    by (simp add: mod_mult2_eq)
  finally show ?case .
qed simp

lemma length_le_bytes [simp]: "length (le_bytes n x) = n"
  by (induction n arbitrary: x) simp_all

lemma length_word_bytes [simp]: "length (word_bytes (w :: 'a::len word)) = LENGTH('a) div 8"
  by (simp add: word_bytes_def)

lemma bytes_word_word_bytes:
  fixes w :: "'a::len word"
  assumes "8 dvd LENGTH('a)"
  shows "bytes_word (word_bytes w) = w"
proof -
  obtain k where k: "LENGTH('a) = 8 * k" using assms by blast
  have "unat w < 2 ^ (8 * k)" using unsigned_less [of w] k by simp
  then have "unat w mod 256 ^ (LENGTH('a) div 8) = unat w"
    by (simp add: k power_mult)
  then show ?thesis by (simp add: bytes_word_def word_bytes_def le_nat_le_bytes)
qed

lemma bytes_word_simps [simp]:
  "bytes_word (word_bytes (a :: 8 word)) = a"
  "bytes_word (word_bytes (b :: 32 word)) = b"
  "bytes_word (word_bytes (c :: 64 word)) = c"
  by (rule bytes_word_word_bytes, simp)+

lemma ints_bytes_simps [simp]:
  "ints_bytes [] = []"
  "ints_bytes (x # xs) = word_bytes x @ ints_bytes xs"
  by (simp_all add: ints_bytes_def)

lemma length_ints_bytes [simp]: "length (ints_bytes xs) = 4 * length xs"
  by (induction xs) simp_all

lemma take_field_append1: "off + n \<le> length xs \<Longrightarrow> take_field off n (xs @ ys) = take_field off n xs"
  by (simp add: take_field_def)

lemma take_field_append2:
  "length xs \<le> off \<Longrightarrow> take_field off n (xs @ ys) = take_field (off - length xs) n ys"
  by (simp add: take_field_def)

lemma take_field_0 [simp]: "take_field 0 n xs = take n xs"
  by (simp add: take_field_def)

lemma bytes_ints_ints_bytes: "length xs = n \<Longrightarrow> bytes_ints n (ints_bytes xs @ ys) = xs"
proof (induction xs arbitrary: n)
  case Nil
  then show ?case by (simp add: bytes_ints_def)
next
  case (Cons x xs)
  have 1: "bytes_word (take_field (4 * Suc i) 4 (word_bytes x @ ints_bytes xs @ ys)) =
      (bytes_word (take_field (4 * i) 4 (ints_bytes xs @ ys)) :: i32)" for i
    by (simp add: take_field_append2)
  from Cons.prems have n: "n = Suc (length xs)" by simp
  have "bytes_ints n (ints_bytes (x # xs) @ ys) = x # bytes_ints (length xs) (ints_bytes xs @ ys)"
    unfolding bytes_ints_def n
    by (simp only: upt_conv_Cons [OF zero_less_Suc] map_Suc_upt [symmetric] list.map map_map comp_def
        ints_bytes_simps append_assoc 1 mult_0_right take_field_0) simp
  with Cons.IH show ?case by simp
qed

lemma sint_of_nat_small: "N < 2 ^ 31 \<Longrightarrow> sint (of_nat N :: i32) = int N"
  by (simp add: sint_uint uint_nat unat_of_nat signed_take_bit_int_eq_self_iff)

lemma scast_of_nat_small: "N < 2 ^ 31 \<Longrightarrow> (scast (of_nat N :: i32) :: size_t) = of_nat N"
  by (simp add: scast_eq sint_of_nat_small)

lemma ucast_of_nat: "(ucast (of_nat N :: size_t) :: i32) = of_nat N"
  by transfer (simp add: take_bit_take_bit)

lemma unat_of_nat_small: "N < 2 ^ 64 \<Longrightarrow> unat (of_nat N :: size_t) = N"
  by (simp add: unat_of_nat)

section \<open>Messages: round trips and well-formedness\<close>

lemma length_msg_bytes: "length (msg_bytes m) = sizeof_msg + length (data m)"
  by (simp add: msg_bytes_def sizeof_msg_def)

lemmas take_field_simps = take_field_append1 take_field_append2

lemma bytes_msg_msg_bytes: "bytes_msg (msg_bytes m) = Inr m"
proof -
  have len: "\<not> length (msg_bytes m) < sizeof_msg" by (simp add: length_msg_bytes)
  show ?thesis
    unfolding bytes_msg_def using len
    by (simp add: msg_bytes_def take_field_simps sizeof_msg_def)
qed

lemma msg_moving_avg_eq:
  assumes "4 * length xs + 77 < 2 ^ 31"
  shows "msg_moving_avg (of_nat (length xs)) width xs = Inr (moving_avg_msg width xs)"
proof -
  let ?N = "length xs"
  have N: "?N < 2 ^ 31" using assms by simp
  have n64: "(scast (of_nat ?N :: i32) :: size_t) = of_nat ?N" using N by (rule scast_of_nat_small)
  have db: "(ucast ((of_nat ?N :: size_t) * 4 + 8) :: i32) = of_nat (4 * ?N + 8)"
    using ucast_of_nat [of "4 * ?N + 8"] by (simp add: algebra_simps)
  have db64: "(scast (of_nat (4 * ?N + 8) :: i32) :: size_t) = of_nat (4 * ?N + 8)"
    by (rule scast_of_nat_small) (use assms in simp)
  have sb: "(ucast (of_nat sizeof_msg + (of_nat (4 * ?N + 8) :: size_t)) :: i32)
      = of_nat (sizeof_msg + 4 * ?N + 8)"
    using ucast_of_nat [of "sizeof_msg + 4 * ?N + 8"] by (simp add: algebra_simps)
  have sb64: "(scast (of_nat (sizeof_msg + 4 * ?N + 8) :: i32) :: size_t) = of_nat (sizeof_msg + 4 * ?N + 8)"
    by (rule scast_of_nat_small) (use assms in \<open>simp add: sizeof_msg_def\<close>)
  have nb: "unat (4 * (of_nat ?N :: size_t)) = 4 * ?N"
    using unat_of_nat_small [of "4 * ?N"] assms by simp
  have u: "unat (of_nat (sizeof_msg + 4 * ?N + 8) :: size_t) = sizeof_msg + 4 * ?N + 8"
    by (rule unat_of_nat_small) (use assms in \<open>simp add: sizeof_msg_def\<close>)
  have cal: "calloc_msg (of_nat (sizeof_msg + 4 * ?N + 8)) = Inr (zero_msg (4 * ?N + 8))"
    unfolding calloc_msg_def u using assms by (simp add: sizeof_msg_def add.commute)
  show ?thesis
    unfolding msg_moving_avg_def Let_def n64 db db64 sb sb64 nb cal
    by (simp add: memcpy_at_def zero_msg_def moving_avg_msg_def algebra_simps)
qed

lemma wf_moving_avg_msg:
  assumes "4 * length xs + 77 < 2 ^ 31"
  shows "wf_msg (moving_avg_msg width xs)"
proof -
  have "unat (of_nat (sizeof_msg + 4 * length xs + 8) :: size_t) = sizeof_msg + 4 * length xs + 8"
    "unat (of_nat (4 * length xs + 8) :: size_t) = 4 * length xs + 8"
    by (rule unat_of_nat_small, use assms in \<open>simp add: sizeof_msg_def\<close>)+
  then show ?thesis by (simp add: wf_msg_def moving_avg_msg_def)
qed

lemma hd_word_bytes: "word_bytes (w :: size_t) ! 0 = ucast w"
proof -
  have "le_bytes 8 (unat w) = of_nat (unat w) # le_bytes 7 (unat w div 256)"
    using le_bytes.simps(2) [of 7 "unat w"] by simp
  then show ?thesis by (simp add: word_bytes_def)
qed

lemma firstParam_moving_avg:
  assumes "4 * length xs + 77 < 2 ^ 31"
  shows "firstParam (moving_avg_msg width xs) = Inr (scast (ucast width :: byte))"
proof -
  have "unat (4 * (of_nat (length xs) :: size_t)) = 4 * length xs"
    using unat_of_nat_small [of "4 * length xs"] assms by simp
  then show ?thesis
    by (simp add: firstParam_def moving_avg_msg_def nth_append hd_word_bytes mult.commute)
qed

lemma sint_byte_small: "k < 128 \<Longrightarrow> sint (of_nat k :: byte) = int k"
  by (simp add: sint_uint uint_nat unat_of_nat signed_take_bit_int_eq_self_iff)

lemma sint_scast_byte: "sint (scast (b :: byte) :: i32) = sint b"
proof -
  have b: "- (2 ^ 31) \<le> sint b" "sint b < 2 ^ 31"
    using sint_greater_eq [of b] sint_less [of b] by simp_all
  show ?thesis
    unfolding scast_eq using int_word_sint [of "sint b", where 'a = 32] b by (simp add: algebra_simps)
qed

lemma sint_firstParam_small:
  "unat (w :: size_t) < 128 \<Longrightarrow> sint (scast (ucast w :: byte) :: i32) = int (unat w)"
  using sint_byte_small [of "unat w"] by (simp add: sint_scast_byte)

lemma bit_scast_byte: "i < 8 \<Longrightarrow> bit (scast (b :: byte) :: i32) i = bit b i"
  by (simp add: bit_simps)

lemma foldl_count: "foldl (\<lambda>n i. if P i then n + 1 else n) a xs = a + length (filter P xs)"
  by (induction xs arbitrary: a) simp_all

lemma nDfes_eq: "nDfes m = length (filter (bit (rids m)) [0..<4])"
proof -
  have "(push_bit i 1 AND (scast (rids m) :: i32)) \<noteq> 0 \<longleftrightarrow> bit (rids m) i" if "i < 4" for i
    using that and_exp_eq_0_iff_not_bit [of "scast (rids m) :: i32" i]
    by (simp add: bit_scast_byte and.commute)
  then have "filter (\<lambda>i. (push_bit i 1 AND (scast (rids m) :: i32)) \<noteq> 0) [0..<4]
      = filter (bit (rids m)) [0..<4]"
    by (intro filter_cong) auto
  then show ?thesis by (simp only: nDfes_def foldl_count)
qed

lemma calloc_msg_of_nat:
  "sizeof_msg \<le> N \<Longrightarrow> N < 2 ^ 63 \<Longrightarrow> calloc_msg (of_nat N) = Inr (zero_msg (N - sizeof_msg))"
  by (simp add: calloc_msg_def unat_of_nat_small)

text \<open>The option-pricing message is its seven parameters, back to back.\<close>

lemma msg_option_pricing_eq:
  "msg_option_pricing strike sigma timestep numMaturity paraNode numPathGroup T =
     Inr ((zero_msg 0)\<lparr>msgId := MSG_OPTION_PRICE, expDataSizeBytes := 8, dataSize := 0,
       paramsSize := 7, totalBytes := of_nat (sizeof_msg + 44), dataBytes := 44,
       data := word_bytes strike @ word_bytes sigma @ word_bytes timestep @
         word_bytes numMaturity @ word_bytes paraNode @ word_bytes numPathGroup @ word_bytes T\<rparr>)"
proof -
  have "calloc_msg (of_nat (sizeof_msg + 44)) = Inr (zero_msg 44)"
    by (subst calloc_msg_of_nat) (simp_all add: sizeof_msg_def)
  then show ?thesis
    by (simp add: msg_option_pricing_def Let_def memcpy_at_def zero_msg_def)
qed

text \<open>
  Printing is safe as long as the counts stay within the block, and reads past it otherwise.
\<close>

lemma msg_print_ok:
  assumes "4 * unat (dataSize m) \<le> length (data m)" "paramsSize m = 0"
  shows "\<exists>out. msg_print m = Inr out"
  using assms by (simp add: msg_print_def print_ints_def)

lemma msg_print_overrun:
  assumes "length (data m) < 4 * unat (dataSize m)"
  shows "msg_print m = Inl Out_Of_Bounds"
  using assms by (cases "dataSize m = 0") (auto simp: msg_print_def print_ints_def unat_gt_0)

section \<open>Properties\<close>

text \<open>A message read back from the bytes it occupies is the same message.\<close>

theorem message_roundtrip: "bytes_msg (msg_bytes m) = Inr m \<and> length (msg_bytes m) = sizeof_msg + length (data m)"
  by (simp add: bytes_msg_msg_bytes length_msg_bytes)

text \<open>
  C34. As long as its byte counts fit an \<open>int\<close>, a moving-average request carries its data and
  its byte counts describe its block; \<open>firstParam\<close> returns the window width for widths
  below 128.
\<close>

theorem moving_avg_request:
  assumes "4 * length xs + 77 < 2 ^ 31"
  shows "\<exists>m. msg_moving_avg (of_nat (length xs)) width xs = Inr m \<and> wf_msg m \<and>
    msgId m = MSG_MOVING_AVG \<and> dataSize m = of_nat (length xs) \<and>
    bytes_ints (length xs) (data m) = xs \<and>
    (\<exists>v. firstParam m = Inr v \<and> (unat width < 128 \<longrightarrow> sint v = int (unat width)))"
proof (intro exI conjI)
  show "msg_moving_avg (of_nat (length xs)) width xs = Inr (moving_avg_msg width xs)"
    by (rule msg_moving_avg_eq [OF assms])
  show "wf_msg (moving_avg_msg width xs)" by (rule wf_moving_avg_msg [OF assms])
  show "firstParam (moving_avg_msg width xs) = Inr (scast (ucast width :: byte))"
    by (rule firstParam_moving_avg [OF assms])
  show "unat width < 128 \<longrightarrow> sint (scast (ucast width :: byte) :: i32) = int (unat width)"
    using sint_firstParam_small by blast
qed (simp_all add: moving_avg_msg_def bytes_ints_ints_bytes)

theorem moving_avg_request_witness:
  "\<exists>m. msg_moving_avg 3 2 [1, 2, 3] = Inr m \<and> wf_msg m \<and> msgId m = MSG_MOVING_AVG \<and>
    dataSize m = 3 \<and> bytes_ints 3 (data m) = [1, 2, 3] \<and>
    (\<exists>v. firstParam m = Inr v \<and> (unat (2 :: size_t) < 128 \<longrightarrow> sint v = int (unat (2 :: size_t))))"
  using moving_avg_request [of "[1, 2, 3]" 2] by (simp add: numeral_3_eq_3)

text \<open>
  \<open>firstParam\<close> reads a single signed byte: for every width of 128 or more the dispatcher
  sees another width than the client sent.
\<close>

theorem wide_window_misread:
  assumes "4 * length xs + 77 < 2 ^ 31" "128 \<le> unat (width :: size_t)"
  shows "\<exists>m v. msg_moving_avg (of_nat (length xs)) width xs = Inr m \<and> firstParam m = Inr v \<and>
    sint v \<noteq> int (unat width)"
proof -
  have "sint (ucast width :: byte) < 128" using sint_less [of "ucast width :: byte"] by simp
  then have "sint (scast (ucast width :: byte) :: i32) < 128" by (simp only: sint_scast_byte)
  then have "sint (scast (ucast width :: byte) :: i32) \<noteq> int (unat width)" using assms(2) by linarith
  then show ?thesis using msg_moving_avg_eq [OF assms(1)] firstParam_moving_avg [OF assms(1)] by blast
qed

theorem wide_window_misread_witness:
  "\<exists>m v. msg_moving_avg 3 200 [1, 2, 3] = Inr m \<and> firstParam m = Inr v \<and>
    sint v \<noteq> int (unat (200 :: size_t))"
  using wide_window_misread [of "[1, 2, 3]" 200] by simp

end
