(* ===== verification/Concurrent_Deque.thy ===== *)
theory Concurrent_Deque
  imports Hydrogen_Prelude
begin

text \<open>
  The blocking containers: \<open>src/common/concurrent_deque.hpp\<close>, on which the scheduler's
  resource pool and its ready, run and finished queues are built, and
  \<open>concurrent_queue.hpp\<close>. The content of a deque is a list with the front at its head.
  Each operation is one critical section of the source; a \<open>wait\<close> that finds the deque
  empty leaves the caller on the condition variable and is the result \<open>Would_Block\<close>.
  Accesses the source does without a check (\<open>front\<close>, \<open>back\<close>, \<open>erase\<close>) fail
  explicitly when the standard library leaves them undefined.

  The locale \<open>stack_discipline\<close> is the contract that the users of these containers
  rely on: what is taken is what was put last. It is interpreted for both ends.
\<close>

section \<open>concurrent_deque\<close>

definition push_front :: "'a \<Rightarrow> 'a list \<Rightarrow> 'a list" where
  "push_front x deq = x # deq"

definition push_back :: "'a \<Rightarrow> 'a list \<Rightarrow> 'a list" where
  "push_back x deq = deq @ [x]"

definition deque_empty :: "'a list \<Rightarrow> bool" where
  "deque_empty deq = (deq = [])"

definition try_pop_back :: "'a list \<Rightarrow> 'a option \<times> 'a list" where
  "try_pop_back deq = (if deq = [] then (None, deq) else (Some (last deq), butlast deq))"

definition try_pop_front :: "'a list \<Rightarrow> 'a option \<times> 'a list" where
  "try_pop_front deq = (case deq of [] \<Rightarrow> (None, deq) | x # xs \<Rightarrow> (Some x, xs))"

definition wait_pop_back :: "'a list \<Rightarrow> ('a \<times> 'a list) result" where
  "wait_pop_back deq = (if deq = [] then Inl Would_Block else Inr (last deq, butlast deq))"

definition wait_pop_front :: "'a list \<Rightarrow> ('a \<times> 'a list) result" where
  "wait_pop_front deq = (case deq of [] \<Rightarrow> Inl Would_Block | x # xs \<Rightarrow> Inr (x, xs))"

definition wait_not_empty :: "'a list \<Rightarrow> unit result" where
  "wait_not_empty deq = (if deq = [] then Inl Would_Block else Inr ())"

definition deque_front :: "'a list \<Rightarrow> 'a result" where
  "deque_front deq = (if deq = [] then Inl End_Deref else Inr (hd deq))"

definition deque_back :: "'a list \<Rightarrow> 'a result" where
  "deque_back deq = (if deq = [] then Inl End_Deref else Inr (last deq))"

definition deque_size :: "'a list \<Rightarrow> nat" where
  "deque_size deq = length deq"

text \<open>\<open>erase(it)\<close>: the iterator is a position, \<open>None\<close> the end iterator.\<close>

definition deque_erase :: "nat option \<Rightarrow> 'a list \<Rightarrow> 'a list result" where
  "deque_erase it deq =
     (case it of Some i \<Rightarrow> if i < length deq then Inr (erase_at i deq) else Inl End_Deref
      | None \<Rightarrow> Inl End_Deref)"

definition deque_at :: "'a list \<Rightarrow> nat \<Rightarrow> 'a result" where
  "deque_at deq n = (if n < length deq then Inr (deq ! n) else Inl Out_Of_Range)"

section \<open>concurrent_queue\<close>

definition queue_push :: "'a \<Rightarrow> 'a list \<Rightarrow> 'a list" where
  "queue_push x q = q @ [x]"

definition queue_empty :: "'a list \<Rightarrow> bool" where
  "queue_empty q = (q = [])"

definition queue_try_pop :: "'a list \<Rightarrow> 'a option \<times> 'a list" where
  "queue_try_pop q = (case q of [] \<Rightarrow> (None, q) | x # xs \<Rightarrow> (Some x, xs))"

definition queue_wait_and_pop :: "'a list \<Rightarrow> ('a \<times> 'a list) result" where
  "queue_wait_and_pop q = (case q of [] \<Rightarrow> Inl Would_Block | x # xs \<Rightarrow> Inr (x, xs))"

definition queue_size :: "'a list \<Rightarrow> nat" where
  "queue_size q = length q"

section \<open>The contracts\<close>

text \<open>
  A container with one way in and one way out: what it holds, in the order in which it
  is handed out, and that taking from an empty one blocks.
\<close>

locale container =
  fixes put :: "'a \<Rightarrow> 'c \<Rightarrow> 'c"
    and get :: "'c \<Rightarrow> ('a \<times> 'c) result"
    and out_order :: "'c \<Rightarrow> 'a list"
  assumes get_blocks: "out_order c = [] \<Longrightarrow> get c = Inl Would_Block"
    and get_first: "out_order c = x # xs \<Longrightarrow> \<exists>c'. get c = Inr (x, c') \<and> out_order c' = xs"
    and put_contents: "mset (out_order (put x c)) = add_mset x (mset (out_order c))"
begin

text \<open>Taking from the container again and again: the client's drain loop.\<close>

fun drain :: "nat \<Rightarrow> 'c \<Rightarrow> 'a list \<times> 'c" where
  "drain 0 c = ([], c)"
| "drain (Suc k) c =
     (case get c of Inl _ \<Rightarrow> ([], c)
      | Inr (x, c') \<Rightarrow> let (xs, c'') = drain k c' in (x # xs, c''))"

lemma drain_order:
  "fst (drain k c) = take k (out_order c) \<and> out_order (snd (drain k c)) = drop k (out_order c)"
proof (induction k arbitrary: c)
  case 0
  then show ?case by simp
next
  case (Suc k)
  show ?case
  proof (cases "out_order c")
    case Nil
    then show ?thesis by (simp add: get_blocks)
  next
    case (Cons x xs)
    then obtain c' where "get c = Inr (x, c')" "out_order c' = xs" using get_first by blast
    with Cons Suc.IH [of c'] show ?thesis by (simp add: case_prod_beta Let_def)
  qed
qed

lemma fold_put_contents:
  "mset (out_order (fold put xs c)) = mset xs + mset (out_order c)"
  by (induction xs arbitrary: c) (simp_all add: put_contents)

end

locale stack_discipline = container +
  assumes put_first: "out_order (put x c) = x # out_order c"
begin

lemma out_order_fold_put: "out_order (fold put xs c) = rev xs @ out_order c"
  by (induction xs arbitrary: c) (simp_all add: put_first)

lemma drain_fold_put: "fst (drain (length xs) (fold put xs c)) = rev xs"
  by (simp add: drain_order out_order_fold_put)

end

locale queue_discipline = container +
  assumes put_last: "out_order (put x c) = out_order c @ [x]"
begin

lemma out_order_fold_enqueue: "out_order (fold put xs c) = out_order c @ xs"
  by (induction xs arbitrary: c) (simp_all add: put_last)

lemma drain_fold_enqueue:
  "out_order c = [] \<Longrightarrow> fst (drain (length xs) (fold put xs c)) = xs"
  by (simp add: drain_order out_order_fold_enqueue)

end

text \<open>The resource pool uses the back end, the job queues the front end.\<close>

interpretation back_stack: stack_discipline push_back wait_pop_back rev
  by unfold_locales (auto simp: wait_pop_back_def push_back_def rev_eq_Cons_iff)

interpretation front_stack: stack_discipline push_front wait_pop_front "\<lambda>d. d"
  by unfold_locales (auto simp: wait_pop_front_def push_front_def)

interpretation fifo: queue_discipline queue_push queue_wait_and_pop "\<lambda>q. q"
  by unfold_locales (auto simp: queue_wait_and_pop_def queue_push_def)

section \<open>Facts\<close>

lemma wait_pop_back_Inr:
  "wait_pop_back deq = Inr (x, deq') \<longleftrightarrow> deq = deq' @ [x]"
  by (cases deq rule: rev_cases) (auto simp: wait_pop_back_def)

lemma wait_pop_front_Inr: "wait_pop_front deq = Inr (x, deq') \<longleftrightarrow> deq = x # deq'"
  by (cases deq) (auto simp: wait_pop_front_def)

lemma wait_not_empty_Inr [simp]: "wait_not_empty deq = Inr u \<longleftrightarrow> deq \<noteq> []"
  by (simp add: wait_not_empty_def)

lemma deque_erase_find_if:
  "deque_erase (find_if P deq) deq = Inr deq' \<Longrightarrow>
     \<exists>x. P x \<and> mset deq = add_mset x (mset deq')"
proof -
  assume h: "deque_erase (find_if P deq) deq = Inr deq'"
  then obtain i where i: "find_if P deq = Some i" "i < length deq" "deq' = erase_at i deq"
    by (auto simp: deque_erase_def split: option.splits if_splits)
  with find_if_Some [OF i(1)] mset_erase_at [OF i(2)] show ?thesis by metis
qed

text \<open>
  A try-pop and a waiting pop take the same element; they differ on the empty deque only.
\<close>

lemma try_pop_back_wait: "deq \<noteq> [] \<Longrightarrow> wait_pop_back deq = Inr (the (fst (try_pop_back deq)), snd (try_pop_back deq))"
  by (simp add: try_pop_back_def wait_pop_back_def)

lemma try_pop_front_wait: "deq \<noteq> [] \<Longrightarrow> wait_pop_front deq = Inr (the (fst (try_pop_front deq)), snd (try_pop_front deq))"
  by (cases deq) (simp_all add: try_pop_front_def wait_pop_front_def)

section \<open>Properties\<close>

text \<open>
  A sequence of insertions followed by as many waiting removals hands the elements out
  again: both deque ends are stacks, the last element in is the first one out, and the
  concurrent queue is first in first out.
\<close>

theorem containers_order:
  "fst (back_stack.drain (length xs) (fold push_back xs deq)) = rev xs \<and>
   fst (front_stack.drain (length xs) (fold push_front xs deq)) = rev xs \<and>
   fst (fifo.drain (length xs) (fold queue_push xs [])) = xs"
  by (simp add: back_stack.drain_fold_put front_stack.drain_fold_put fifo.drain_fold_enqueue)

end
