(* ===== verification/Deque_Threads.thy ===== *)
theory Deque_Threads
  imports Concurrent_Deque
begin

text \<open>
  \<open>concurrent_deque\<close> as its threads run it: a mutex, a condition variable and, for every
  thread, the point it has reached in the operation it called. \<open>Concurrent_Deque\<close> treats an
  operation as one step on the content; here the test, the read and the removal of a pop, the
  unlocking and the notification after a push are steps of their own, which those of other
  threads can come between. The mutex is all that keeps them apart.

  \<open>deque_linearizable\<close> justifies the atomic view: every run is a sequential run of the
  operations of \<open>Concurrent_Deque\<close>, each taking effect between its call and its return.
  \<open>no_lost_notification\<close> says when a waiting thread can rely on \<open>notify_one\<close>, and
  \<open>mixed_waiters_strand\<close> shows that the condition is needed.
\<close>

section \<open>Calls, program points and the state\<close>

text \<open>
  The locked operations, and \<open>Section\<close> for a client that brackets its reads with \<open>lock()\<close> and
  \<open>unlock()\<close>, as \<open>schedLoop\<close> does with the ready queue.
\<close>

datatype 'a call =
    Push_Front 'a
  | Push_Back 'a
  | Is_Empty
  | Try_Pop_Back
  | Try_Pop_Front
  | Wait_Pop_Back
  | Wait_Pop_Front
  | Wait_Not_Empty
  | Erase "nat option"
  | Section

datatype 'a answer =
    Void
  | Flag bool
  | Tried "'a option"
  | Popped 'a
  | Saw "'a list"

datatype 'a point =
    Outside
  | Entering "'a call"
  | Inside "'a call"
  | Taking "'a call"
  | Removing "'a call" 'a
  | Leaving "'a call" "'a answer"
  | Notifying "'a answer"
  | Asleep "'a call"
  | Woken "'a call"
  | Finished "'a answer"
  | Broken "'a call" failure

record 'a monitor =
  deq :: "'a list"
  owner :: "nat option"
  point_of :: "nat \<Rightarrow> 'a point"

datatype 'a event =
    Called nat "'a call"
  | Commit nat "'a call" "'a answer"
  | Return nat "'a answer"
  | Internal nat
  | Spurious nat

fun pushing :: "'a call \<Rightarrow> bool" where
  "pushing (Push_Front x) = True"
| "pushing (Push_Back x) = True"
| "pushing _ = False"

fun trying :: "'a call \<Rightarrow> bool" where
  "trying Try_Pop_Back = True"
| "trying Try_Pop_Front = True"
| "trying _ = False"

fun at_back :: "'a call \<Rightarrow> bool" where
  "at_back Try_Pop_Back = True"
| "at_back Wait_Pop_Back = True"
| "at_back _ = False"

fun waiting :: "'a call \<Rightarrow> bool" where
  "waiting Wait_Pop_Back = True"
| "waiting Wait_Pop_Front = True"
| "waiting Wait_Not_Empty = True"
| "waiting _ = False"

definition goto :: "nat \<Rightarrow> 'a point \<Rightarrow> 'a monitor \<Rightarrow> 'a monitor" where
  "goto t p s = s\<lparr>point_of := (point_of s)(t := p)\<rparr>"

section \<open>The steps of a thread\<close>

text \<open>
  \<open>commit\<close> is the step at which a call takes its effect; what remains is to unlock.
\<close>

definition commit :: "nat \<Rightarrow> 'a call \<Rightarrow> 'a answer \<Rightarrow> 'a list \<Rightarrow> 'a monitor \<Rightarrow> 'a event \<times> 'a monitor" where
  "commit t c a d s = (Commit t c a, goto t (Leaving c a) (s\<lparr>deq := d\<rparr>))"

text \<open>
  The first step of a body once the lock is held: pushes, \<open>empty\<close> and \<open>erase\<close> are over with
  it; a pop has tested the loop or \<open>if\<close> condition. \<open>cv.wait(lock)\<close> releases the mutex and goes
  to sleep in one step.
\<close>

definition body_step :: "nat \<Rightarrow> 'a call \<Rightarrow> 'a monitor \<Rightarrow> 'a event \<times> 'a monitor" where
  "body_step t c s =
     (case c of
        Push_Front x \<Rightarrow> commit t c Void (push_front x (deq s)) s
      | Push_Back x \<Rightarrow> commit t c Void (push_back x (deq s)) s
      | Is_Empty \<Rightarrow> commit t c (Flag (deque_empty (deq s))) (deq s) s
      | Erase it \<Rightarrow>
          (case deque_erase it (deq s) of
             Inl e \<Rightarrow> (Internal t, goto t (Broken c e) s)
           | Inr d \<Rightarrow> commit t c Void d s)
      | Section \<Rightarrow> commit t c (Saw (deq s)) (deq s) s
      | _ \<Rightarrow>
          if deque_empty (deq s) then
            if trying c then commit t c (Tried None) (deq s) s
            else (Internal t, goto t (Asleep c) (s\<lparr>owner := None\<rparr>))
          else if c = Wait_Not_Empty then commit t c Void (deq s) s
          else (Internal t, goto t (Taking c) s))"

definition take_step :: "nat \<Rightarrow> 'a call \<Rightarrow> 'a monitor \<Rightarrow> 'a event \<times> 'a monitor" where
  "take_step t c s =
     (case (if at_back c then deque_back (deq s) else deque_front (deq s)) of
        Inl e \<Rightarrow> (Internal t, goto t (Broken c e) s)
      | Inr x \<Rightarrow> (Internal t, goto t (Removing c x) s))"

definition remove_step :: "nat \<Rightarrow> 'a call \<Rightarrow> 'a \<Rightarrow> 'a monitor \<Rightarrow> 'a event \<times> 'a monitor" where
  "remove_step t c x s =
     (if deque_empty (deq s) then (Internal t, goto t (Broken c End_Deref) s)
      else commit t c (if trying c then Tried (Some x) else Popped x)
             (if at_back c then butlast (deq s) else tl (deq s)) s)"

text \<open>\<open>w\<close> is the sleeper that \<open>notify_one\<close> picks.\<close>

definition wake :: "nat option \<Rightarrow> 'a monitor \<Rightarrow> 'a monitor" where
  "wake w s =
     (case w of None \<Rightarrow> s
      | Some u \<Rightarrow> (case point_of s u of Asleep c \<Rightarrow> goto u (Woken c) s | _ \<Rightarrow> s))"

definition notify_step :: "nat \<Rightarrow> nat option \<Rightarrow> 'a answer \<Rightarrow> 'a monitor \<Rightarrow> 'a event \<times> 'a monitor" where
  "notify_step t w a s = (Internal t, goto t (Finished a) (wake w s))"

definition thread_step :: "nat \<Rightarrow> nat option \<Rightarrow> 'a monitor \<Rightarrow> ('a event \<times> 'a monitor) option" where
  "thread_step t w s =
     (case point_of s t of
        Entering c \<Rightarrow>
          if owner s = None then Some (Internal t, goto t (Inside c) (s\<lparr>owner := Some t\<rparr>)) else None
      | Woken c \<Rightarrow>
          if owner s = None then Some (Internal t, goto t (Inside c) (s\<lparr>owner := Some t\<rparr>)) else None
      | Inside c \<Rightarrow> Some (body_step t c s)
      | Taking c \<Rightarrow> Some (take_step t c s)
      | Removing c x \<Rightarrow> Some (remove_step t c x s)
      | Leaving c a \<Rightarrow>
          Some (Internal t,
            goto t (if pushing c then Notifying a else Finished a) (s\<lparr>owner := None\<rparr>))
      | Notifying a \<Rightarrow> Some (notify_step t w a s)
      | Finished a \<Rightarrow> Some (Return t a, goto t Outside s)
      | Outside \<Rightarrow> None
      | Asleep c \<Rightarrow> None
      | Broken c e \<Rightarrow> None)"

fun asleep :: "'a point \<Rightarrow> bool" where
  "asleep (Asleep c) = True"
| "asleep _ = False"

text \<open>\<open>notify_one\<close> wakes a sleeper if there is one.\<close>

definition wake_ok :: "nat option \<Rightarrow> 'a monitor \<Rightarrow> bool" where
  "wake_ok w s = (case w of None \<Rightarrow> \<forall>u. \<not> asleep (point_of s u) | Some u \<Rightarrow> asleep (point_of s u))"

inductive monitor_step :: "'a monitor \<Rightarrow> 'a event \<Rightarrow> 'a monitor \<Rightarrow> bool" where
  call: "point_of s t = Outside \<Longrightarrow> monitor_step s (Called t c) (goto t (Entering c) s)"
| thread: "thread_step t w s = Some (e, s') \<Longrightarrow> wake_ok w s \<Longrightarrow> monitor_step s e s'"
| spurious: "point_of s t = Asleep c \<Longrightarrow> monitor_step s (Spurious t) (goto t (Woken c) s)"

definition start_monitor :: "'a list \<Rightarrow> 'a monitor" where
  "start_monitor d = \<lparr>deq = d, owner = None, point_of = (\<lambda>_. Outside)\<rparr>"

inductive monitor_run :: "'a list \<Rightarrow> 'a event list \<Rightarrow> 'a monitor \<Rightarrow> bool" for d where
  start: "monitor_run d [] (start_monitor d)"
| step: "monitor_run d es s \<Longrightarrow> monitor_step s e s' \<Longrightarrow> monitor_run d (es @ [e]) s'"

section \<open>The atomic operations and histories\<close>

definition deque_call :: "'a call \<Rightarrow> 'a list \<Rightarrow> ('a answer \<times> 'a list) result" where
  "deque_call c d =
     (case c of
        Push_Front x \<Rightarrow> Inr (Void, push_front x d)
      | Push_Back x \<Rightarrow> Inr (Void, push_back x d)
      | Is_Empty \<Rightarrow> Inr (Flag (deque_empty d), d)
      | Try_Pop_Back \<Rightarrow> Inr (map_prod Tried id (try_pop_back d))
      | Try_Pop_Front \<Rightarrow> Inr (map_prod Tried id (try_pop_front d))
      | Wait_Pop_Back \<Rightarrow> map_sum id (map_prod Popped id) (wait_pop_back d)
      | Wait_Pop_Front \<Rightarrow> map_sum id (map_prod Popped id) (wait_pop_front d)
      | Wait_Not_Empty \<Rightarrow> map_sum id (\<lambda>_. (Void, d)) (wait_not_empty d)
      | Erase it \<Rightarrow> map_sum id (Pair Void) (deque_erase it d)
      | Section \<Rightarrow> Inr (Saw d, d))"

text \<open>The calls that took effect, in that order, replayed one at a time.\<close>

fun replay :: "'a event list \<Rightarrow> 'a list \<Rightarrow> 'a list option" where
  "replay [] d = Some d"
| "replay (Commit t c a # es) d =
     (case deque_call c d of
        Inr (a', d') \<Rightarrow> if a' = a then replay es d' else None
      | Inl _ \<Rightarrow> None)"
| "replay (_ # es) d = replay es d"

text \<open>
  What one thread sees of a run: it calls, its call takes effect with an answer, it returns
  with that answer. Anything else is \<open>None\<close>.
\<close>

datatype 'a progress = Free | Pending "'a call" | Effected "'a answer"

fun follow :: "nat \<Rightarrow> 'a event \<Rightarrow> 'a progress option \<Rightarrow> 'a progress option" where
  "follow t (Called u c) p = (if u \<noteq> t then p else if p = Some Free then Some (Pending c) else None)"
| "follow t (Commit u c a) p = (if u \<noteq> t then p else if p = Some (Pending c) then Some (Effected a) else None)"
| "follow t (Return u a) p = (if u \<noteq> t then p else if p = Some (Effected a) then Some Free else None)"
| "follow t (Internal u) p = p"
| "follow t (Spurious u) p = p"

definition thread_progress :: "nat \<Rightarrow> 'a event list \<Rightarrow> 'a progress option" where
  "thread_progress t es = fold (follow t) es (Some Free)"

section \<open>The lock invariant\<close>

fun holds :: "'a point \<Rightarrow> bool" where
  "holds (Inside c) = True"
| "holds (Taking c) = True"
| "holds (Removing c x) = True"
| "holds (Leaving c a) = True"
| "holds (Broken c e) = True"
| "holds _ = False"

fun popping :: "'a call \<Rightarrow> bool" where
  "popping Try_Pop_Back = True"
| "popping Try_Pop_Front = True"
| "popping Wait_Pop_Back = True"
| "popping Wait_Pop_Front = True"
| "popping _ = False"

text \<open>What a thread has learnt of the content by the point it has reached.\<close>

fun point_ok :: "'a list \<Rightarrow> 'a point \<Rightarrow> bool" where
  "point_ok d (Taking c) = (d \<noteq> [] \<and> popping c)"
| "point_ok d (Removing c x) = (d \<noteq> [] \<and> popping c \<and> x = (if at_back c then last d else hd d))"
| "point_ok d (Asleep c) = waiting c"
| "point_ok d (Woken c) = waiting c"
| "point_ok d (Broken c e) = (\<exists>it. c = Erase it)"
| "point_ok d _ = True"

definition monitor_inv :: "'a monitor \<Rightarrow> bool" where
  "monitor_inv s =
     (\<forall>t. (holds (point_of s t) \<longleftrightarrow> owner s = Some t) \<and> point_ok (deq s) (point_of s t))"

fun progress_of :: "'a point \<Rightarrow> 'a progress" where
  "progress_of Outside = Free"
| "progress_of (Entering c) = Pending c"
| "progress_of (Inside c) = Pending c"
| "progress_of (Taking c) = Pending c"
| "progress_of (Removing c x) = Pending c"
| "progress_of (Asleep c) = Pending c"
| "progress_of (Woken c) = Pending c"
| "progress_of (Broken c e) = Pending c"
| "progress_of (Leaving c a) = Effected a"
| "progress_of (Notifying a) = Effected a"
| "progress_of (Finished a) = Effected a"

lemma goto_simps [simp]:
  "deq (goto t p s) = deq s" "owner (goto t p s) = owner s"
  "point_of (goto t p s) = (point_of s)(t := p)"
  by (simp_all add: goto_def)

text \<open>A thread that knows something of the content holds the lock.\<close>

lemma point_ok_unlocked: "\<not> holds p \<Longrightarrow> point_ok d p = point_ok d' p"
  by (cases p) simp_all

text \<open>
  One thread moves: it may change the content only while it holds the lock, and take or give
  up the lock only when it is free or its own.
\<close>

lemma monitor_inv_move:
  assumes inv: "monitor_inv s"
    and lock: "owner s' = owner s \<or> owner s = None \<and> owner s' = Some t \<or> owner s = Some t \<and> owner s' = None"
    and held: "deq s' = deq s \<or> owner s = Some t"
    and others: "\<And>u. u \<noteq> t \<Longrightarrow> point_of s' u = point_of s u"
    and mine: "holds (point_of s' t) \<longleftrightarrow> owner s' = Some t" "point_ok (deq s') (point_of s' t)"
  shows "monitor_inv s'"
  unfolding monitor_inv_def
proof
  fix u
  show "(holds (point_of s' u) \<longleftrightarrow> owner s' = Some u) \<and> point_ok (deq s') (point_of s' u)"
  proof (cases "u = t")
    case False
    have "holds (point_of s u) \<longleftrightarrow> owner s = Some u" "point_ok (deq s) (point_of s u)"
      using inv by (auto simp: monitor_inv_def)
    then show ?thesis
      using False lock held others [OF False] point_ok_unlocked [of "point_of s u" "deq s" "deq s'"] by auto
  qed (use mine in simp)
qed

lemma monitor_inv_start: "monitor_inv (start_monitor d)"
  by (simp add: monitor_inv_def start_monitor_def)

section \<open>Every step is an atomic operation or silent\<close>

definition step_ok :: "'a monitor \<Rightarrow> 'a event \<Rightarrow> 'a monitor \<Rightarrow> bool" where
  "step_ok s e s' \<longleftrightarrow>
     monitor_inv s' \<and> replay [e] (deq s) = Some (deq s') \<and>
     (\<forall>u. follow u e (Some (progress_of (point_of s u))) = Some (progress_of (point_of s' u)))"

lemma monitor_invD:
  assumes "monitor_inv s"
  shows "owner s = Some t \<longleftrightarrow> holds (point_of s t)" "point_ok (deq s) (point_of s t)"
  using assms by (auto simp: monitor_inv_def)

lemma commit_ok:
  assumes inv: "monitor_inv s" and held: "holds (point_of s t)"
    and pend: "progress_of (point_of s t) = Pending c" and call: "deque_call c (deq s) = Inr (a, d)"
  shows "case_prod (step_ok s) (commit t c a d s)"
proof -
  have own: "owner s = Some t" using monitor_invD(1) [OF inv] held by simp
  have "monitor_inv (goto t (Leaving c a) (s\<lparr>deq := d\<rparr>))"
    by (rule monitor_inv_move [OF inv, of _ t]) (use own in simp_all)
  then show ?thesis using call pend by (simp add: step_ok_def commit_def)
qed

lemma silent_ok:
  assumes inv: "monitor_inv s"
    and lock: "owner s' = owner s \<or> owner s = None \<and> owner s' = Some t \<or> owner s = Some t \<and> owner s' = None"
    and same: "deq s' = deq s" "\<And>u. u \<noteq> t \<Longrightarrow> point_of s' u = point_of s u"
    and mine: "holds (point_of s' t) \<longleftrightarrow> owner s' = Some t" "point_ok (deq s') (point_of s' t)"
      "progress_of (point_of s' t) = progress_of (point_of s t)"
  shows "step_ok s (Internal t) s'"
proof -
  have "monitor_inv s'" by (rule monitor_inv_move [OF inv lock]) (use same mine in auto)
  moreover have "progress_of (point_of s' u) = progress_of (point_of s u)" for u
    using same(2) mine(3) by (cases "u = t") simp_all
  ultimately show ?thesis using same(1) by (simp add: step_ok_def)
qed

lemmas atomic_defs =
  deque_call_def deque_empty_def try_pop_back_def try_pop_front_def wait_pop_back_def
  wait_pop_front_def wait_not_empty_def

lemma body_ok:
  assumes inv: "monitor_inv s" and at: "point_of s t = Inside c"
  shows "case_prod (step_ok s) (body_step t c s)"
proof -
  have own: "owner s = Some t" using monitor_invD(1) [OF inv] at by simp
  note com = commit_ok [OF inv, of t c]
  show ?thesis
  proof (cases "deque_call c (deq s)")
    case (Inr r)
    then show ?thesis
      using own at com
      by (cases c; cases "deq s = []")
        (auto simp: body_step_def atomic_defs map_sum_def split: sum.splits intro!: silent_ok [OF inv, of _ t])
  next
    case (Inl f)
    then show ?thesis
      using own at
      by (cases c; cases "deq s = []")
        (auto simp: body_step_def atomic_defs map_sum_def split: sum.splits list.splits intro!: silent_ok [OF inv, of _ t])
  qed
qed

lemma take_ok:
  assumes inv: "monitor_inv s" and at: "point_of s t = Taking c"
  shows "case_prod (step_ok s) (take_step t c s)"
proof -
  have "owner s = Some t" "deq s \<noteq> []" "popping c"
    using monitor_invD [OF inv, of t] at by simp_all
  then show ?thesis
    using at by (auto simp: take_step_def deque_back_def deque_front_def intro!: silent_ok [OF inv, of _ t])
qed

lemma remove_ok:
  assumes inv: "monitor_inv s" and at: "point_of s t = Removing c x"
  shows "case_prod (step_ok s) (remove_step t c x s)"
proof -
  have ok: "deq s \<noteq> []" "popping c" "x = (if at_back c then last (deq s) else hd (deq s))"
    using monitor_invD [OF inv, of t] at by simp_all
  then have "deque_call c (deq s) =
      Inr (if trying c then Tried (Some x) else Popped x, if at_back c then butlast (deq s) else tl (deq s))"
    by (cases c; cases "deq s") (simp_all add: atomic_defs)
  from commit_ok [OF inv _ _ this, of t] ok(1) at show ?thesis
    by (simp add: remove_step_def deque_empty_def)
qed

text \<open>Waking a sleeper changes nothing but its point.\<close>

lemma woken_inv:
  assumes inv: "monitor_inv s" and at: "point_of s u = Asleep c"
  shows "monitor_inv (goto u (Woken c) s)"
  by (rule monitor_inv_move [OF inv, of _ u]) (use monitor_invD [OF inv, of u] at in simp_all)

lemma wake_simps [simp]:
  "deq (wake w s) = deq s" "owner (wake w s) = owner s"
  "progress_of (point_of (wake w s) t) = progress_of (point_of s t)"
  by (simp_all add: wake_def split: option.split point.split)

lemma wake_inv: "monitor_inv s \<Longrightarrow> monitor_inv (wake w s)"
  by (simp add: wake_def woken_inv split: option.split point.split)

lemma wake_awake [simp]: "\<not> asleep (point_of s t) \<Longrightarrow> point_of (wake w s) t = point_of s t"
  by (auto simp: wake_def split: option.split point.split)

lemma notify_ok:
  assumes inv: "monitor_inv s" and at: "point_of s t = Notifying a"
  shows "case_prod (step_ok s) (notify_step t w a s)"
proof -
  have "step_ok (wake w s) (Internal t) (goto t (Finished a) (wake w s))"
    by (rule silent_ok [OF wake_inv [OF inv, of w], of _ t]) (use monitor_invD(1) [OF inv, of t] at in simp_all)
  then show ?thesis by (simp add: notify_step_def step_ok_def)
qed

lemma acquire_ok:
  assumes inv: "monitor_inv s" and free: "owner s = None"
    and at: "point_of s t = Entering c \<or> point_of s t = Woken c"
  shows "step_ok s (Internal t) (goto t (Inside c) (s\<lparr>owner := Some t\<rparr>))"
  by (rule silent_ok [OF inv, of _ t]) (use free at in auto)

lemma release_ok:
  assumes inv: "monitor_inv s" and at: "point_of s t = Leaving c a"
  shows "step_ok s (Internal t) (goto t (if pushing c then Notifying a else Finished a) (s\<lparr>owner := None\<rparr>))"
  by (rule silent_ok [OF inv, of _ t]) (use monitor_invD(1) [OF inv, of t] at in simp_all)

lemma return_ok:
  assumes inv: "monitor_inv s" and at: "point_of s t = Finished a"
  shows "step_ok s (Return t a) (goto t Outside s)"
proof -
  have "monitor_inv (goto t Outside s)"
    by (rule monitor_inv_move [OF inv, of _ t]) (use monitor_invD(1) [OF inv, of t] at in simp_all)
  with at show ?thesis by (simp add: step_ok_def)
qed

lemma thread_ok:
  assumes "monitor_inv s" and "thread_step t w s = Some (e, s')"
  shows "step_ok s e s'"
  using assms acquire_ok [of s t] release_ok [of s t] return_ok [of s t] body_ok [of s t] take_ok [of s t]
    remove_ok [of s t] notify_ok [of s t _ w]
  by (cases "point_of s t") (auto simp: thread_step_def split: if_splits prod.splits)

lemma monitor_step_ok:
  assumes "monitor_step s e s'" and inv: "monitor_inv s"
  shows "step_ok s e s'"
  using assms(1)
proof cases
  case (call t c)
  have "monitor_inv s'"
    by (rule monitor_inv_move [OF inv, of _ t]) (use call monitor_invD [OF inv, of t] in simp_all)
  with call show ?thesis by (simp add: step_ok_def)
next
  case (thread t w)
  then show ?thesis using thread_ok [OF inv] by blast
next
  case (spurious t c)
  with woken_inv [OF inv] show ?thesis by (simp add: step_ok_def)
qed

lemma replay_append: "replay (es @ fs) d = Option.bind (replay es d) (replay fs)"
  by (induction es d rule: replay.induct) (auto split: sum.splits)

lemma thread_progress_snoc [simp]:
  "thread_progress t (es @ [e]) = follow t e (thread_progress t es)"
  by (simp add: thread_progress_def)

lemma monitor_run_ok:
  "monitor_run d es s \<Longrightarrow>
     monitor_inv s \<and> replay es d = Some (deq s) \<and>
     (\<forall>t. thread_progress t es = Some (progress_of (point_of s t)))"
proof (induction rule: monitor_run.induct)
  case start
  then show ?case by (simp add: monitor_inv_start) (simp add: start_monitor_def thread_progress_def)
next
  case (step es s e s')
  with monitor_step_ok [OF step.hyps(2)] show ?case
    by (simp add: step_ok_def replay_append)
qed

section \<open>Sums over the threads\<close>

text \<open>Only finitely many threads are ever inside an operation.\<close>

definition busy :: "(nat \<Rightarrow> 'a point) \<Rightarrow> nat set" where
  "busy f = {t. f t \<noteq> Outside}"

definition over_threads :: "('a point \<Rightarrow> nat) \<Rightarrow> (nat \<Rightarrow> 'a point) \<Rightarrow> nat" where
  "over_threads g f = (\<Sum>t\<in>busy f. g (f t))"

lemma finite_busy_upd [simp]: "finite (busy (f(t := p))) = finite (busy f)"
proof -
  have "busy (f(t := p)) - {t} = busy f - {t}" by (auto simp: busy_def)
  then show ?thesis by (metis finite_Diff2 finite.emptyI finite_insert)
qed

lemma over_threads_upd:
  assumes fin: "finite (busy f)" and z: "g Outside = 0"
  shows "over_threads g (f(t := p)) + g (f t) = over_threads g f + g p"
proof -
  define S where "S = insert t (busy f)"
  have S: "finite S" "t \<in> S" using fin by (simp_all add: S_def)
  have all: "over_threads g h = (\<Sum>u\<in>S. g (h u))" if "busy h \<subseteq> S" for h
    unfolding over_threads_def
    by (rule sum.mono_neutral_left) (use S that z in \<open>auto simp: busy_def\<close>)
  have "over_threads g (f(t := p)) = (\<Sum>u\<in>S. g ((f(t := p)) u))"
    by (rule all) (auto simp: S_def busy_def)
  also have "\<dots> = g p + (\<Sum>u\<in>S - {t}. g (f u))" using S by (simp add: sum.remove [of S t])
  finally have new: "over_threads g (f(t := p)) = g p + (\<Sum>u\<in>S - {t}. g (f u))" .
  have "over_threads g f = (\<Sum>u\<in>S. g (f u))" by (rule all) (auto simp: S_def)
  also have "\<dots> = g (f t) + (\<Sum>u\<in>S - {t}. g (f u))" using S by (simp add: sum.remove [of S t])
  finally show ?thesis using new by simp
qed

lemma finite_busy_wake [simp]: "finite (busy (point_of (wake w s))) = finite (busy (point_of s))"
  by (simp add: wake_def split: option.split point.split)

text \<open>A thread step changes the point of that thread only, apart from a notification.\<close>

lemma thread_step_point:
  assumes "thread_step t w s = Some (e, s')"
  shows "\<exists>p. point_of s' = (point_of (if \<exists>a. point_of s t = Notifying a then wake w s else s))(t := p)"
proof -
  have body: "\<exists>p. point_of (snd (body_step t c s)) = (point_of s)(t := p)" for c
    by (cases c) (auto simp: body_step_def commit_def split: sum.split)
  have take: "\<exists>p. point_of (snd (take_step t c s)) = (point_of s)(t := p)" for c
    by (auto simp: take_step_def split: sum.split)
  have rem: "\<exists>p. point_of (snd (remove_step t c x s)) = (point_of s)(t := p)" for c x
    by (auto simp: remove_step_def commit_def)
  show ?thesis
    using assms body take rem
    by (cases "point_of s t") (auto simp: thread_step_def notify_step_def split: if_splits | metis snd_conv)+
qed

lemma monitor_step_finite: "monitor_step s e s' \<Longrightarrow> finite (busy (point_of s)) \<Longrightarrow> finite (busy (point_of s'))"
proof (induction rule: monitor_step.induct)
  case (thread t w s e s')
  from thread_step_point [OF thread.hyps(1)] obtain p
    where moved: "point_of s' = (point_of (if \<exists>a. point_of s t = Notifying a then wake w s else s))(t := p)" ..
  show ?case unfolding moved finite_busy_upd using thread.prems by simp
qed simp_all

lemma monitor_run_finite: "monitor_run d es s \<Longrightarrow> finite (busy (point_of s))"
proof (induction rule: monitor_run.induct)
  case start
  then show ?case by (simp add: start_monitor_def busy_def)
qed (rule monitor_step_finite)

section \<open>Work left and notifications on their way\<close>

text \<open>
  A bound on the steps a thread still takes before it is outside or asleep. A notification is
  worth the steps of the thread it wakes.
\<close>

fun weight :: "'a point \<Rightarrow> nat" where
  "weight Outside = 0"
| "weight (Finished a) = 1"
| "weight (Leaving c a) = (if pushing c then 9 else 2)"
| "weight (Removing c x) = 3"
| "weight (Taking c) = 4"
| "weight (Inside c) = (if pushing c then 10 else 5)"
| "weight (Woken c) = 6"
| "weight (Notifying a) = 8"
| "weight (Entering c) = 11"
| "weight (Asleep c) = 0"
| "weight (Broken c e) = 0"

text \<open>
  The threads that will deal with an element of the deque without being notified again: those
  about to notify and the poppers on their way to it.
\<close>

fun notifier :: "'a point \<Rightarrow> bool" where
  "notifier (Leaving c a) = pushing c"
| "notifier (Notifying a) = True"
| "notifier _ = False"

fun helper :: "'a point \<Rightarrow> bool" where
  "helper (Woken c) = True"
| "helper (Inside c) = waiting c"
| "helper (Taking c) = True"
| "helper (Removing c x) = True"
| "helper p = notifier p"

definition work :: "'a monitor \<Rightarrow> nat" where
  "work s = over_threads weight (point_of s)"

definition helpers :: "'a monitor \<Rightarrow> nat" where
  "helpers s = over_threads (\<lambda>p. of_bool (helper p)) (point_of s)"

text \<open>What a step other than a notification does to the thread that takes it.\<close>

definition local_effect :: "'a list \<Rightarrow> 'a point \<Rightarrow> 'a list \<Rightarrow> 'a point \<Rightarrow> bool" where
  "local_effect d p d' p' \<longleftrightarrow>
     weight p' < weight p \<and> (asleep p' \<longrightarrow> d' = []) \<and>
     (length d' \<le> length d \<or> notifier p') \<and> (notifier p \<longrightarrow> d' = d \<and> notifier p') \<and>
     (progress_of p \<noteq> Pending Wait_Not_Empty \<longrightarrow>
        length d' + of_bool (helper p) \<le> length d + of_bool (helper p') \<or> d' = [])"

lemma body_effect:
  "point_of s t = Inside c \<Longrightarrow>
     local_effect (deq s) (Inside c) (deq (snd (body_step t c s))) (point_of (snd (body_step t c s)) t)"
  by (cases c)
    (auto simp: body_step_def commit_def local_effect_def push_front_def push_back_def deque_empty_def
      deque_erase_def split: sum.splits option.splits if_splits)

lemma take_effect:
  "monitor_inv s \<Longrightarrow> point_of s t = Taking c \<Longrightarrow>
     local_effect (deq s) (Taking c) (deq (snd (take_step t c s))) (point_of (snd (take_step t c s)) t)"
  using monitor_invD(2) [of s t]
  by (auto simp: take_step_def local_effect_def deque_back_def deque_front_def)

lemma remove_effect:
  "monitor_inv s \<Longrightarrow> point_of s t = Removing c x \<Longrightarrow>
     local_effect (deq s) (Removing c x) (deq (snd (remove_step t c x s))) (point_of (snd (remove_step t c x s)) t)"
  using monitor_invD(2) [of s t]
  by (cases c) (auto simp: remove_step_def commit_def local_effect_def deque_empty_def)

lemma waiting_not_pushing: "waiting c \<Longrightarrow> \<not> pushing c"
  by (cases c) simp_all

lemma thread_effect:
  assumes inv: "monitor_inv s" and step: "thread_step t w s = Some (e, s')"
    and "\<nexists>a. point_of s t = Notifying a"
  shows "local_effect (deq s) (point_of s t) (deq s') (point_of s' t)"
proof (cases "point_of s t")
  case (Inside c)
  with body_effect [of s t c] step show ?thesis by (simp add: thread_step_def)
next
  case (Taking c)
  with take_effect [OF inv, of t c] step show ?thesis by (simp add: thread_step_def)
next
  case (Removing c x)
  with remove_effect [OF inv, of t c x] step show ?thesis by (simp add: thread_step_def)
qed (use assms monitor_invD(2) [OF inv, of t] in
    \<open>auto simp: thread_step_def local_effect_def waiting_not_pushing split: if_splits\<close>)

lemma over_threads_move:
  assumes step: "thread_step t w s = Some (e, s')" and "\<nexists>a. point_of s t = Notifying a"
    and "finite (busy (point_of s))" and "g Outside = 0"
  shows "over_threads g (point_of s') + g (point_of s t) = over_threads g (point_of s) + g (point_of s' t)"
proof -
  from thread_step_point [OF step] assms(2) obtain p where p: "point_of s' = (point_of s)(t := p)" by auto
  show ?thesis using over_threads_upd [of "point_of s" g t p] assms(3,4) by (simp add: p)
qed

lemma over_threads_notify:
  assumes "thread_step t w s = Some (e, s')" and at: "point_of s t = Notifying a"
    and fin: "finite (busy (point_of s))" and z: "g Outside = 0"
  shows "over_threads g (point_of s') + g (Notifying a) = over_threads g (point_of (wake w s)) + g (Finished a)"
proof -
  have "point_of s' = (point_of (wake w s))(t := Finished a)"
    using assms(1) at by (auto simp: thread_step_def notify_step_def)
  then show ?thesis
    using over_threads_upd [of "point_of (wake w s)" g t "Finished a"] fin z at by simp
qed

lemma over_threads_wake:
  assumes "point_of s u = Asleep c" and "finite (busy (point_of s))" and "g Outside = 0"
  shows "over_threads g (point_of (wake (Some u) s)) + g (Asleep c) = over_threads g (point_of s) + g (Woken c)"
  using over_threads_upd [of "point_of s" g u "Woken c"] assms by (simp add: wake_def)

lemma work_decreases:
  assumes inv: "monitor_inv s" and fin: "finite (busy (point_of s))"
    and step: "thread_step t w s = Some (e, s')"
  shows "work s' < work s"
proof (cases "\<exists>a. point_of s t = Notifying a")
  case True
  then obtain a where at: "point_of s t = Notifying a" by blast
  have "over_threads weight (point_of (wake w s)) \<le> work s + 6"
    using over_threads_wake [OF _ fin, of _ _ weight]
    by (auto simp: wake_def work_def split: option.split point.split)
  with over_threads_notify [OF step at fin, of weight] show ?thesis by (simp add: work_def)
next
  case False
  with over_threads_move [OF step False fin, of weight] thread_effect [OF inv step False] show ?thesis
    by (simp add: local_effect_def work_def)
qed

section \<open>Notifications reach the sleepers\<close>

text \<open>
  Where every sleeper wants to pop: while some thread sleeps there are at least as many threads
  on their way as there are elements.
\<close>

definition notified :: "'a monitor \<Rightarrow> bool" where
  "notified s \<longleftrightarrow> (\<forall>u. asleep (point_of s u) \<longrightarrow> length (deq s) \<le> helpers s)"

lemma notified_step:
  assumes step: "monitor_step s e s'" and inv: "monitor_inv s" and fin: "finite (busy (point_of s))"
    and pops: "\<And>t. progress_of (point_of s t) \<noteq> Pending Wait_Not_Empty" and ok: "notified s"
  shows "notified s'"
  using step
proof cases
  case (call t c)
  with over_threads_upd [of "point_of s" "\<lambda>p. of_bool (helper p)" t "Entering c"] fin ok show ?thesis
    by (auto simp: notified_def helpers_def)
next
  case (spurious t c)
  with over_threads_upd [of "point_of s" "\<lambda>p. of_bool (helper p)" t "Woken c"] fin ok show ?thesis
    by (auto simp: notified_def helpers_def intro: le_SucI)
next
  case (thread t w)
  show ?thesis
  proof (cases "\<exists>a. point_of s t = Notifying a")
    case True
    then obtain a where at: "point_of s t = Notifying a" by blast
    from thread(1) at have s': "s' = goto t (Finished a) (wake w s)" by (simp add: thread_step_def notify_step_def)
    show ?thesis
    proof (cases w)
      case None
      with thread(2) s' show ?thesis by (simp add: notified_def wake_ok_def wake_def)
    next
      case (Some u)
      with thread(2) obtain c where u: "point_of s u = Asleep c"
        by (cases "point_of s u") (simp_all add: wake_ok_def)
      have "helpers s' = helpers s"
        using over_threads_notify [OF thread(1) at fin, of "\<lambda>p. of_bool (helper p)"]
          over_threads_wake [OF u fin, of "\<lambda>p. of_bool (helper p)"] Some by (simp add: helpers_def)
      moreover have "length (deq s) \<le> helpers s" using ok u unfolding notified_def by (metis asleep.simps(1))
      ultimately show ?thesis using s' by (simp add: notified_def)
    qed
  next
    case False
    from thread_effect [OF inv thread(1) False] pops [of t]
    have eff: "asleep (point_of s' t) \<longrightarrow> deq s' = []"
      "length (deq s') + of_bool (helper (point_of s t)) \<le> length (deq s) + of_bool (helper (point_of s' t)) \<or> deq s' = []"
      by (simp_all add: local_effect_def)
    have others: "point_of s' u = point_of s u" if "u \<noteq> t" for u
      using thread_step_point [OF thread(1)] False that by auto
    show ?thesis
      unfolding notified_def
    proof (intro allI impI)
      fix u
      assume u: "asleep (point_of s' u)"
      show "length (deq s') \<le> helpers s'"
      proof (cases "u = t \<or> deq s' = []")
        case True
        with eff(1) u show ?thesis by auto
      next
        case go: False
        then have "length (deq s) \<le> helpers s" using ok u others [of u] by (auto simp: notified_def)
        then show ?thesis
          using go eff(2) over_threads_move [OF thread(1) False fin, of "\<lambda>p. of_bool (helper p)"]
          by (simp add: helpers_def)
      qed
    qed
  qed
qed

text \<open>Where only thread \<open>r\<close> ever waits: its notification is on its way.\<close>

definition sole_notified :: "nat \<Rightarrow> 'a monitor \<Rightarrow> bool" where
  "sole_notified r s \<longleftrightarrow>
     (asleep (point_of s r) \<longrightarrow> deq s \<noteq> [] \<longrightarrow> (\<exists>u. notifier (point_of s u)))"

lemma sole_notified_step:
  assumes step: "monitor_step s e s'" and inv: "monitor_inv s"
    and sole: "\<And>u. asleep (point_of s u) \<Longrightarrow> u = r" and ok: "sole_notified r s"
  shows "sole_notified r s'"
  using step
proof cases
  case (call t c)
  then have keep: "notifier (point_of s u) \<Longrightarrow> notifier (point_of s' u)" for u by auto
  have "deq s' = deq s" "asleep (point_of s' r) \<Longrightarrow> asleep (point_of s r)" using call by (auto split: if_splits)
  then show ?thesis using ok keep unfolding sole_notified_def by metis
next
  case (spurious t c)
  then have "t = r" using sole by simp
  with spurious show ?thesis by (simp add: sole_notified_def)
next
  case (thread t w)
  show ?thesis
  proof (cases "\<exists>a. point_of s t = Notifying a")
    case True
    then obtain a where at: "point_of s t = Notifying a" by blast
    from thread(1) at have s': "s' = goto t (Finished a) (wake w s)" by (simp add: thread_step_def notify_step_def)
    have "\<not> asleep (point_of s' r)"
      using thread(2) sole s' by (auto simp: wake_ok_def wake_def split: option.splits point.splits)
    then show ?thesis by (simp add: sole_notified_def)
  next
    case False
    have others: "point_of s' u = point_of s u" if "u \<noteq> t" for u
      using thread_step_point [OF thread(1)] False that by auto
    from thread_effect [OF inv thread(1) False]
    have eff: "asleep (point_of s' t) \<longrightarrow> deq s' = []" "length (deq s') \<le> length (deq s) \<or> notifier (point_of s' t)"
      "notifier (point_of s t) \<longrightarrow> notifier (point_of s' t)"
      by (simp_all add: local_effect_def)
    show ?thesis
      unfolding sole_notified_def
    proof (intro impI)
      assume r: "asleep (point_of s' r)" and ne: "deq s' \<noteq> []"
      then have "asleep (point_of s r)" using eff(1) others by metis
      then have "deq s \<noteq> [] \<longrightarrow> (\<exists>u. notifier (point_of s u))" using ok by (simp add: sole_notified_def)
      then show "\<exists>u. notifier (point_of s' u)" using eff(2,3) ne others by (metis le_zero_eq length_0_conv)
    qed
  qed
qed

section \<open>Runs\<close>

lemma run_called:
  "monitor_run d es s \<Longrightarrow> progress_of (point_of s t) = Pending c \<Longrightarrow> Called t c \<in> set es"
proof (induction arbitrary: t c rule: monitor_run.induct)
  case start
  then show ?case by (simp add: start_monitor_def)
next
  case (step es s e s')
  have "step_ok s e s'" using monitor_step_ok monitor_run_ok step.hyps by blast
  then have "follow t e (Some (progress_of (point_of s t))) = Some (Pending c)"
    using step.prems by (simp add: step_ok_def)
  then have "progress_of (point_of s t) = Pending c \<or> e = Called t c"
    by (cases e) (auto split: if_splits)
  with step.IH [of t c] show ?case by auto
qed

lemma asleep_waiting:
  assumes "monitor_run d es s" and "asleep (point_of s t)"
  shows "\<exists>c. waiting c \<and> Called t c \<in> set es"
proof -
  from assms(2) obtain c where at: "point_of s t = Asleep c" by (cases "point_of s t") simp_all
  then have "waiting c" using monitor_run_ok [OF assms(1)] monitor_invD(2) [of s t] by simp
  moreover have "Called t c \<in> set es" by (rule run_called [OF assms(1)]) (simp add: at)
  ultimately show ?thesis by blast
qed

text \<open>
  The two ways in which the program uses a deque: every thread that waits on it wants to pop,
  as on the run queue, the finished queue and the pool, or only one thread waits on it, as on
  the ready queue.
\<close>

definition pops_only :: "'a event list \<Rightarrow> bool" where
  "pops_only es \<longleftrightarrow> (\<forall>t. Called t Wait_Not_Empty \<notin> set es)"

definition sole_waiter :: "nat \<Rightarrow> 'a event list \<Rightarrow> bool" where
  "sole_waiter r es \<longleftrightarrow> (\<forall>t c. Called t c \<in> set es \<longrightarrow> waiting c \<longrightarrow> t = r)"

lemma pops_only_notified: "monitor_run d es s \<Longrightarrow> pops_only es \<Longrightarrow> notified s"
proof (induction rule: monitor_run.induct)
  case start
  then show ?case by (simp add: notified_def start_monitor_def)
next
  case (step es s e s')
  have "progress_of (point_of s t) \<noteq> Pending Wait_Not_Empty" for t
    using run_called [OF step.hyps(1)] step.prems by (auto simp: pops_only_def)
  moreover have "notified s" using step by (simp add: pops_only_def)
  ultimately show ?case
    using notified_step [OF step.hyps(2)] monitor_run_ok [OF step.hyps(1)] monitor_run_finite [OF step.hyps(1)] by blast
qed

lemma sole_waiter_notified: "monitor_run d es s \<Longrightarrow> sole_waiter r es \<Longrightarrow> sole_notified r s"
proof (induction rule: monitor_run.induct)
  case start
  then show ?case by (simp add: sole_notified_def start_monitor_def)
next
  case (step es s e s')
  have "u = r" if "asleep (point_of s u)" for u
    using asleep_waiting [OF step.hyps(1) that] step.prems by (auto simp: sole_waiter_def)
  moreover have "sole_notified r s" using step by (auto simp: sole_waiter_def)
  ultimately show ?case
    using sole_notified_step [OF step.hyps(2)] monitor_run_ok [OF step.hyps(1)] by blast
qed

lemma helpers_positive: "0 < helpers s \<Longrightarrow> \<exists>u. helper (point_of s u)"
proof -
  assume "0 < helpers s"
  then have "(\<Sum>t\<in>busy (point_of s). of_bool (helper (point_of s t)) :: nat) \<noteq> 0"
    by (simp add: helpers_def over_threads_def)
  then obtain u where "(of_bool (helper (point_of s u)) :: nat) \<noteq> 0" by (meson sum.not_neutral_contains_not_neutral)
  then show ?thesis by (auto split: if_splits)
qed

lemma notifier_helper: "notifier p \<Longrightarrow> helper p"
  by (cases p) simp_all

lemma sleeper_has_helper:
  assumes run: "monitor_run d es s" and use: "pops_only es \<or> (\<exists>r. sole_waiter r es)"
    and t: "asleep (point_of s t)" and ne: "deq s \<noteq> []"
  shows "\<exists>u. helper (point_of s u)"
  using use
proof
  assume "pops_only es"
  then have "length (deq s) \<le> helpers s" using pops_only_notified [OF run] t by (auto simp: notified_def)
  with ne have "0 < helpers s" by (cases "deq s") simp_all
  then show ?thesis by (rule helpers_positive)
next
  assume "\<exists>r. sole_waiter r es"
  then obtain r where r: "sole_waiter r es" ..
  then have "t = r" using asleep_waiting [OF run t] by (auto simp: sole_waiter_def)
  with sole_waiter_notified [OF run r] t ne show ?thesis by (auto simp: sole_notified_def intro: notifier_helper)
qed

text \<open>Runs in which no new call is made and no wakeup is spurious.\<close>

inductive settle :: "'a monitor \<Rightarrow> nat \<Rightarrow> 'a monitor \<Rightarrow> bool" where
  settled: "settle s 0 s"
| further: "settle s n s1 \<Longrightarrow> thread_step t w s1 = Some (e, s2) \<Longrightarrow> wake_ok w s1 \<Longrightarrow> settle s (Suc n) s2"

definition quiescent :: "'a monitor \<Rightarrow> bool" where
  "quiescent s \<longleftrightarrow> (\<forall>t w. thread_step t w s = None)"

lemma quiescent_point:
  assumes q: "quiescent s" and broken: "\<And>c e. point_of s t \<noteq> Broken c e" and free: "owner s = None"
  shows "point_of s t = Outside \<or> asleep (point_of s t)"
  using q broken free unfolding quiescent_def
  by (cases "point_of s t") (auto simp: thread_step_def dest: spec [of _ t])

lemma quiescent_owner:
  assumes q: "quiescent s" and inv: "monitor_inv s" and broken: "\<And>t c e. point_of s t \<noteq> Broken c e"
  shows "owner s = None"
proof (rule ccontr)
  assume "owner s \<noteq> None"
  then obtain t where "holds (point_of s t)" using monitor_invD(1) [OF inv] by auto
  moreover have "thread_step t None s = None" using q by (simp add: quiescent_def)
  ultimately show False using broken [of t] by (cases "point_of s t") (auto simp: thread_step_def)
qed

lemma wake_exists: "\<exists>w. wake_ok w s"
proof (cases "\<exists>u. asleep (point_of s u)")
  case True
  then obtain u where "asleep (point_of s u)" ..
  then have "wake_ok (Some u) s" by (simp add: wake_ok_def)
  then show ?thesis ..
next
  case False
  then have "wake_ok None s" by (simp add: wake_ok_def)
  then show ?thesis ..
qed

lemma thread_step_choice:
  "\<nexists>a. point_of s t = Notifying a \<Longrightarrow> thread_step t w s = thread_step t w' s"
  by (cases "point_of s t") (simp_all add: thread_step_def)

lemma thread_step_enabled: "thread_step t w s \<noteq> None \<longleftrightarrow> thread_step t w' s \<noteq> None"
  by (cases "point_of s t") (simp_all add: thread_step_def)

lemma thread_step_event: "thread_step t w s = Some (e, s') \<Longrightarrow> e \<noteq> Called u c"
  by (cases "point_of s t")
    (auto simp: thread_step_def body_step_def take_step_def remove_step_def notify_step_def commit_def
      split: if_splits call.splits sum.splits)

lemma settle_run:
  assumes "settle s n s'" and run: "monitor_run d es s"
  shows "\<exists>fs. monitor_run d (es @ fs) s' \<and> (\<forall>t c. Called t c \<notin> set fs)"
  using assms(1) run
proof (induction rule: settle.induct)
  case (settled s)
  then have "monitor_run d (es @ []) s" by simp
  then show ?case by fastforce
next
  case (further s n s1 t w e s2)
  then obtain fs where fs: "monitor_run d (es @ fs) s1" "\<forall>t c. Called t c \<notin> set fs" by blast
  have "monitor_run d ((es @ fs) @ [e]) s2" using fs(1) further.hyps by (meson monitor_run.step monitor_step.thread)
  moreover have "\<forall>u c. Called u c \<notin> set (fs @ [e])" using fs(2) thread_step_event [OF further.hyps(2)] by auto
  ultimately show ?case by (metis append.assoc)
qed

lemma settle_bound:
  assumes "settle s n s'" and run: "monitor_run d es s"
  shows "n + work s' \<le> work s"
  using assms
proof (induction rule: settle.induct)
  case (further s n s1 t w e s2)
  obtain fs where "monitor_run d (es @ fs) s1" using settle_run [OF further.hyps(1) further.prems] by blast
  then have "work s2 < work s1"
    using work_decreases [OF _ _ further.hyps(2)] monitor_run_ok monitor_run_finite by blast
  with further show ?case by simp
qed simp

lemma settle_quiescent: "monitor_run d es s \<Longrightarrow> \<exists>m s'. settle s m s' \<and> quiescent s'"
proof -
  assume run: "monitor_run d es s"
  have "\<exists>m s''. settle s m s'' \<and> quiescent s''" if "settle s n s'" for n s'
    using that
  proof (induction "work s'" arbitrary: n s' rule: less_induct)
    case less
    show ?case
    proof (cases "quiescent s'")
      case False
      then obtain t w0 where "thread_step t w0 s' \<noteq> None" by (auto simp: quiescent_def)
      then obtain w e s2 where w: "thread_step t w s' = Some (e, s2)" "wake_ok w s'"
        using wake_exists [of s'] thread_step_enabled [of t w0 s'] by (metis not_Some_eq surj_pair)
      have next_: "settle s (Suc n) s2" by (rule settle.further [OF less.prems w])
      obtain fs where "monitor_run d (es @ fs) s'" using settle_run [OF less.prems run] by blast
      then have "work s2 < work s'" using work_decreases [OF _ _ w(1)] monitor_run_ok monitor_run_finite by blast
      from less.hyps [OF this next_] show ?thesis .
    qed (use less.prems in blast)
  qed
  from this [OF settle.settled] show ?thesis .
qed

lemma quiescent_done:
  assumes run: "monitor_run d es s" and use: "pops_only es \<or> (\<exists>r. sole_waiter r es)" and q: "quiescent s"
    and broken: "\<And>t c e. point_of s t \<noteq> Broken c e"
  shows "point_of s t = Outside \<or> asleep (point_of s t) \<and> deq s = []"
proof -
  have inv: "monitor_inv s" using monitor_run_ok [OF run] by blast
  have at: "point_of s u = Outside \<or> asleep (point_of s u)" for u
    by (rule quiescent_point [OF q broken quiescent_owner [OF q inv broken]])
  then have "\<not> helper (point_of s u)" for u
    by (cases "point_of s u") (use at [of u] in auto)
  with sleeper_has_helper [OF run use] at [of t] show ?thesis by blast
qed

section \<open>Concrete runs\<close>

text \<open>
  A script fixes the scheduling: \<open>Inl (t, c)\<close> is a call, \<open>Inr (t, w)\<close> a step of thread \<open>t\<close>,
  which wakes \<open>w\<close> if it notifies.
\<close>

fun play :: "(nat \<times> 'a call + nat \<times> nat option) list \<Rightarrow> 'a monitor \<Rightarrow> ('a event list \<times> 'a monitor) option" where
  "play [] s = Some ([], s)"
| "play (Inl (t, c) # cs) s =
     (case point_of s t of
        Outside \<Rightarrow> map_option (map_prod ((#) (Called t c)) id) (play cs (goto t (Entering c) s))
      | _ \<Rightarrow> None)"
| "play (Inr (t, w) # cs) s =
     (if (case point_of s t of Notifying a \<Rightarrow> (case w of None \<Rightarrow> False | Some u \<Rightarrow> asleep (point_of s u)) | _ \<Rightarrow> True)
      then (case thread_step t w s of
              None \<Rightarrow> None
            | Some (e, s') \<Rightarrow> map_option (map_prod ((#) e) id) (play cs s'))
      else None)"

lemma play_run:
  "play cs s = Some (fs, s') \<Longrightarrow> monitor_run d es s \<Longrightarrow> monitor_run d (es @ fs) s'"
proof (induction cs s arbitrary: es fs rule: play.induct)
  case (2 t c cs s)
  then have at: "point_of s t = Outside" by (simp split: point.splits)
  with 2(2) obtain gs where gs: "play cs (goto t (Entering c) s) = Some (gs, s')" "fs = Called t c # gs" by auto
  from 2(1) [OF at gs(1) monitor_run.step [OF 2(3) monitor_step.call [OF at]]] show ?case by (simp add: gs(2))
next
  case (3 t w cs s)
  from 3(2) have ok: "case point_of s t of Notifying a \<Rightarrow> (case w of None \<Rightarrow> False | Some u \<Rightarrow> asleep (point_of s u)) | _ \<Rightarrow> True"
    by (auto split: if_splits)
  with 3(2) obtain e s1 gs where st: "thread_step t w s = Some (e, s1)" "play cs s1 = Some (gs, s')" "fs = e # gs"
    by (auto split: option.splits)
  have "\<exists>w'. thread_step t w' s = Some (e, s1) \<and> wake_ok w' s"
  proof (cases "\<exists>a. point_of s t = Notifying a")
    case True
    with ok st(1) show ?thesis by (auto simp: wake_ok_def split: option.splits)
  next
    case False
    with st(1) wake_exists [of s] thread_step_choice [OF False, of w] show ?thesis by metis
  qed
  then have "monitor_run d (es @ [e]) s1" using 3(3) by (meson monitor_run.step monitor_step.thread)
  from 3(1) [OF ok st(1) refl st(2) this] show ?case by (simp add: st(3))
qed simp

lemmas run_simps =
  thread_step_def body_step_def take_step_def remove_step_def notify_step_def wake_def commit_def
  start_monitor_def deque_empty_def push_front_def push_back_def deque_back_def deque_front_def

text \<open>A popper that sleeps, is woken by a push and takes the element.\<close>

lemma demo_pop:
  obtains es s where "monitor_run [] es s" "s = start_monitor []"
    "Commit 0 Wait_Pop_Front (Popped (7 :: nat)) \<in> set es"
proof -
  have "\<exists>es. play
      [Inl (0, Wait_Pop_Front), Inr (0, None), Inr (0, None),
       Inl (1, Push_Back (7 :: nat)), Inr (1, None), Inr (1, None), Inr (1, None), Inr (1, Some 0),
       Inr (0, None), Inr (0, None), Inr (0, None), Inr (0, None), Inr (0, None), Inr (0, None), Inr (1, None)]
      (start_monitor []) = Some (es, start_monitor []) \<and> Commit 0 Wait_Pop_Front (Popped 7) \<in> set es"
    by (simp add: run_simps goto_def fun_eq_iff)
  then show thesis using that play_run [OF _ monitor_run.start] by (metis append_Nil)
qed

section \<open>Properties\<close>

text \<open>
  C15. The operations of \<open>concurrent_deque\<close> are atomic. Whatever the scheduling and whatever wakeups
  are spurious, the calls that took effect, replayed one after the other with the atomic
  operations, give the answers the threads got and the content of the deque; and every thread
  saw its call, the effect of that call and the return with its answer in this order.
\<close>

theorem deque_linearizable:
  assumes "monitor_run d es s"
  shows "replay es d = Some (deq s) \<and>
    (\<forall>t. thread_progress t es = Some (progress_of (point_of s t)))"
  using monitor_run_ok [OF assms] by blast

theorem deque_linearizable_witness:
  "\<exists>es s. monitor_run [] es s \<and> Commit 0 Wait_Pop_Front (Popped (7 :: nat)) \<in> set es \<and>
     replay es [] = Some (deq s) \<and> thread_progress 0 es = Some (progress_of (point_of s 0))"
  using demo_pop deque_linearizable by metis

text \<open>
  C16. Calls on a \<open>concurrent_deque\<close> complete. Assume that every waiting thread wants to pop or
  that only one thread ever waits. Once no new calls come in, the threads run out of steps after at
  most \<open>work s\<close> of them, in any order and without help from spurious wakeups, and a state in which
  no thread can move can always be reached. There, unless an \<open>erase\<close> was given an invalid iterator,
  every call has returned, apart from those asleep on an empty deque.
\<close>

theorem deque_calls_complete:
  assumes "monitor_run d es s" and "pops_only es \<or> (\<exists>r. sole_waiter r es)" and "settle s n s'"
  shows "n \<le> work s \<and> (\<exists>m s''. settle s' m s'' \<and> quiescent s'') \<and>
    (quiescent s' \<and> (\<forall>t c e. point_of s' t \<noteq> Broken c e) \<longrightarrow>
       (\<forall>t. point_of s' t = Outside \<or> asleep (point_of s' t) \<and> deq s' = []))"
proof -
  from settle_run [OF assms(3,1)] obtain fs
    where run: "monitor_run d (es @ fs) s'" and "\<forall>t c. Called t c \<notin> set fs" by blast
  then have "pops_only (es @ fs) \<or> (\<exists>r. sole_waiter r (es @ fs))"
    using assms(2) by (auto simp: pops_only_def sole_waiter_def)
  from quiescent_done [OF run this] settle_quiescent [OF run] settle_bound [OF assms(3,1)]
  show ?thesis by auto
qed

theorem deque_calls_complete_witness:
  "\<exists>s s' :: nat monitor. monitor_run [] [Called 0 Wait_Pop_Front] s \<and> settle s 2 s' \<and> quiescent s' \<and>
     point_of s' 0 = Asleep Wait_Pop_Front \<and> 2 \<le> work s \<and> deq s' = []"
proof -
  let ?s = "goto 0 (Entering Wait_Pop_Front) (start_monitor []) :: nat monitor"
  let ?s' = "goto 0 (Asleep Wait_Pop_Front) (start_monitor []) :: nat monitor"
  have run: "monitor_run [] [Called 0 Wait_Pop_Front] ?s"
    using monitor_run.step [OF monitor_run.start monitor_step.call, of "[]" 0 Wait_Pop_Front]
    by (simp add: start_monitor_def)
  have wake: "wake_ok None (goto 0 (p :: nat point) (start_monitor []\<lparr>owner := r\<rparr>))" if "\<not> asleep p" for p r
    using that by (simp add: wake_ok_def start_monitor_def)
  have "settle ?s (Suc (Suc 0)) ?s'"
  proof (rule settle.further [OF settle.further [OF settle.settled]])
    show "thread_step 0 None ?s =
      Some (Internal 0, goto 0 (Inside Wait_Pop_Front) (start_monitor []\<lparr>owner := Some 0\<rparr>))"
      by (simp add: run_simps goto_def)
    show "thread_step 0 None (goto 0 (Inside Wait_Pop_Front) (start_monitor []\<lparr>owner := Some 0\<rparr>)) =
      Some (Internal 0, ?s')"
      by (simp add: run_simps goto_def)
    show "wake_ok None ?s" using wake [of "Entering Wait_Pop_Front" None] by (simp add: start_monitor_def)
    show "wake_ok None (goto 0 (Inside Wait_Pop_Front) (start_monitor []\<lparr>owner := Some 0\<rparr>) :: nat monitor)"
      by (rule wake) simp
  qed
  then have settle: "settle ?s 2 ?s'" by (simp add: numeral_2_eq_2)
  have q: "quiescent ?s'" by (simp add: quiescent_def thread_step_def start_monitor_def)
  have "pops_only [Called 0 (Wait_Pop_Front :: nat call)]" by (simp add: pops_only_def)
  with deque_calls_complete [OF run _ settle] have "2 \<le> work ?s"
    "quiescent ?s' \<and> (\<forall>t c e. point_of ?s' t \<noteq> Broken c e) \<longrightarrow> point_of ?s' 0 = Outside \<or> deq ?s' = []"
    by blast+
  with run settle q show ?thesis by (intro exI [of _ ?s] exI [of _ ?s']) (simp add: start_monitor_def)
qed

text \<open>
  Mixing \<open>wait_not_empty\<close> with a waiting pop on one deque strands the popper: a run exists after
  which no thread can move, the deque holds an element and the popper is asleep, since the one
  notification went to the thread that leaves the element where it is.
\<close>

theorem mixed_waiters_strand:
  "\<exists>es s. monitor_run [] es s \<and> quiescent s \<and> deq s = [x] \<and> point_of s 1 = Asleep Wait_Pop_Front"
proof -
  let ?s = "\<lparr>deq = [x], owner = None, point_of = (\<lambda>_. Outside)(1 := Asleep Wait_Pop_Front)\<rparr>"
  have "\<exists>es. play
      [Inl (0, Wait_Not_Empty), Inr (0, None), Inr (0, None),
       Inl (1, Wait_Pop_Front), Inr (1, None), Inr (1, None),
       Inl (2, Push_Back x), Inr (2, None), Inr (2, None), Inr (2, None), Inr (2, Some 0), Inr (2, None),
       Inr (0, None), Inr (0, None), Inr (0, None), Inr (0, None)] (start_monitor []) = Some (es, ?s)"
    by (simp add: run_simps goto_def fun_eq_iff)
  then obtain es where "monitor_run [] ([] @ es) ?s" using play_run monitor_run.start by blast
  moreover have "quiescent ?s" by (simp add: quiescent_def thread_step_def)
  ultimately show ?thesis by (metis append_Nil fun_upd_same monitor.select_convs(1) monitor.select_convs(3))
qed

end
