(* ===== verification/Job_Model.thy ===== *)
theory Job_Model
  imports Message Ideal_Float
begin

text \<open>
  The values the scheduler moves around: compute resources (\<open>src/common/Resource.hpp\<close>),
  jobs (\<open>Job.hpp\<close>, \<open>Job.cpp\<close>), the \<open>JobInfo\<close> flags and the \<open>JobTuple\<close> of
  \<open>typedefs.hpp\<close>, and the set of tentative assignments \<open>Allocations\<close>
  (\<open>src/scheduler/Allocations.hpp\<close>).

  Jobs are shared through \<open>shared_ptr\<close>s: the ready queue, the run queue, the job thread
  and the connection handler see the same object. A pointer is an address (\<open>jref\<close>)
  into a store kept in the scheduler state; here a job is looked up through an argument
  \<open>jh :: jref \<Rightarrow> job\<close>. Times are rational numbers of seconds, the unit of
  \<open>boost::chrono::duration<double>\<close>.
\<close>

section \<open>Resources\<close>

text \<open>The fields \<open>utilization\<close> and \<open>idle_time\<close> of the class are never read and left out.\<close>

record resource =
  rid :: int
  port :: int
  url :: string
  rtype :: string

definition Resource_new :: "int \<Rightarrow> int \<Rightarrow> string \<Rightarrow> string \<Rightarrow> resource" where
  "Resource_new i p n t = \<lparr>rid = i, port = p, url = n, rtype = t\<rparr>"

text \<open>The copy constructor, field by field.\<close>

definition Resource_copy :: "resource \<Rightarrow> resource" where
  "Resource_copy r = \<lparr>rid = rid r, port = port r, url = url r, rtype = rtype r\<rparr>"

text \<open>The constructor for a port given as text.\<close>

definition Resource_parse :: "string \<Rightarrow> string \<Rightarrow> string \<Rightarrow> resource" where
  "Resource_parse p n t = \<lparr>rid = - 1, port = read_int p, url = n, rtype = t\<rparr>"

definition resource_eq :: "resource \<Rightarrow> resource \<Rightarrow> bool" where
  "resource_eq lhs rhs = (rid lhs = rid rhs)"

definition resource_text :: "resource \<Rightarrow> string" where
  "resource_text r = ''{ID: '' @ show_int (rid r) @ '',TYPE: '' @ rtype r @
     '',HOSTNAME: '' @ url r @ '',PORT: '' @ show_int (port r) @ ''}''"

definition resPtrEQ :: "resource \<Rightarrow> resource \<Rightarrow> bool" where
  "resPtrEQ lhs rhs = (rid lhs = rid rhs)"

section \<open>Jobs\<close>

text \<open>The cost function is a \<open>std::function\<close>; the program only ever stores this one.\<close>

datatype cost_function = defaultCostFunction

record job =
  jmin :: nat
  jmax :: nat
  jid :: int
  uid :: int
  status :: int
  jpriority :: int
  issueTime :: rat
  dispatchTime :: rat
  finishTime :: rat
  actualExecutionTime :: rat
  measuredExecutionTime :: rat
  targetExecutionTime :: rat
  predictedTime :: rat
  cost_func :: cost_function
  req :: msg
  rsp :: "msg option"

text \<open>
  The constructor. \<open>uid\<close> and the two execution times are not initialised by the source;
  they are written before they are read and start at 0 here. \<open>bc::milliseconds(ms)\<close>
  becomes a number of seconds.
\<close>

definition millis :: "i32 \<Rightarrow> rat" where
  "millis w = of_int (sint w) / 1000"

definition Job_new :: "msg \<Rightarrow> int \<Rightarrow> rat \<Rightarrow> job" where
  "Job_new request i now = \<lparr>jmin = 1, jmax = 4, jid = i, uid = 0, status = 2,
     jpriority = sint (clientId request),
     issueTime = now, dispatchTime = now, finishTime = now,
     actualExecutionTime = 0, measuredExecutionTime = 0,
     targetExecutionTime = millis (targetExecutionTimeMillis request),
     predictedTime = millis (predictedTimeMillis request),
     cost_func = defaultCostFunction, req = request, rsp = None\<rparr>"

definition getDefaultJobTime :: "job \<Rightarrow> fp" where
  "getDefaultJobTime j = Fin (predictedTime j)"

definition minCost :: "job \<Rightarrow> fp" where
  "minCost j = fp_div (Fin (predictedTime j)) (Fin (of_nat (jmin j)))"

definition maxCost :: "job \<Rightarrow> fp" where
  "maxCost j = fp_div (Fin (predictedTime j)) (Fin (of_nat (jmax j)))"

text \<open>\<open>getJlo\<close>: how far the predicted time stays below the target, per resource count.\<close>

definition getJlo :: "job \<Rightarrow> nat \<Rightarrow> fp" where
  "getJlo j resourceCount =
     fp_sub (Fin (targetExecutionTime j)) (fp_div (Fin (predictedTime j)) (Fin (of_nat resourceCount)))"

definition job_eq :: "job \<Rightarrow> job \<Rightarrow> bool" where
  "job_eq lhs rhs = (jid lhs = jid rhs)"

definition Job_str :: "job \<Rightarrow> string" where
  "Job_str j = ''Job['' @ show_int (jid j) @ '']''"

text \<open>The setters. The scheduler's threads write the same fields in place.\<close>

definition setRsp :: "msg option \<Rightarrow> job \<Rightarrow> job" where "setRsp r j = j\<lparr>rsp := r\<rparr>"
definition setMeasuredExecutionTime :: "rat \<Rightarrow> job \<Rightarrow> job" where
  "setMeasuredExecutionTime t j = j\<lparr>measuredExecutionTime := t\<rparr>"
definition setActualExecutionTime :: "rat \<Rightarrow> job \<Rightarrow> job" where
  "setActualExecutionTime t j = j\<lparr>actualExecutionTime := t\<rparr>"
definition setIssueTime :: "rat \<Rightarrow> job \<Rightarrow> job" where "setIssueTime a j = j\<lparr>issueTime := a\<rparr>"
definition setDispatchTime :: "rat \<Rightarrow> job \<Rightarrow> job" where "setDispatchTime a j = j\<lparr>dispatchTime := a\<rparr>"
definition setFinishTime :: "rat \<Rightarrow> job \<Rightarrow> job" where "setFinishTime a j = j\<lparr>finishTime := a\<rparr>"
definition setMax :: "nat \<Rightarrow> job \<Rightarrow> job" where "setMax a j = j\<lparr>jmax := a\<rparr>"
definition setMin :: "nat \<Rightarrow> job \<Rightarrow> job" where "setMin a j = j\<lparr>jmin := a\<rparr>"
definition setUid :: "int \<Rightarrow> job \<Rightarrow> job" where "setUid a j = j\<lparr>uid := a\<rparr>"
definition setJid :: "int \<Rightarrow> job \<Rightarrow> job" where "setJid a j = j\<lparr>jid := a\<rparr>"
definition setCostFunc :: "cost_function \<Rightarrow> job \<Rightarrow> job" where "setCostFunc f j = j\<lparr>cost_func := f\<rparr>"
definition setStatus :: "int \<Rightarrow> job \<Rightarrow> job" where "setStatus a j = j\<lparr>status := a\<rparr>"

text \<open>
  \<open>run\<close> and \<open>getResponse\<close> are placeholders: they write a line, and \<open>run\<close> returns a copy of the
  request, which for a struct with a flexible array is its header without the payload.
\<close>

definition Job_run :: "job \<Rightarrow> string \<times> msg" where
  "Job_run j = (''In Job::run() : Needs Implementing'' @ newline, (req j)\<lparr>data := []\<rparr>)"

definition Job_getResponse :: "byte list \<Rightarrow> size_t \<Rightarrow> string result" where
  "Job_getResponse buffer sizeBytes = (case buffer of
       [] \<Rightarrow> Inl Out_Of_Bounds
     | c # cs \<Rightarrow> Inr (''In Job::getResponse: Needs Implementing'' @ [char_of (unat c)] @ show_size sizeBytes @ newline))"

text \<open>
  \<open>copyRsp\<close> overwrites the payload of the response in place, with a response read from a buffer.
\<close>

definition copyRsp :: "byte list \<Rightarrow> job \<Rightarrow> job result" where
  "copyRsp buff j =
     bindR (bytes_msg buff) (\<lambda>r. case rsp j of
         None \<Rightarrow> Inl Null_Deref
       | Some m \<Rightarrow>
           if length (data r) < unat (dataBytes r) then Inl Out_Of_Bounds
           else bindR (memcpy_at 0 (take (unat (dataBytes r)) (data r)) (data m)) (\<lambda>d.
             Inr (j\<lparr>rsp := Some (m\<lparr>data := d\<rparr>)\<rparr>)))"

record job_info =
  finished :: bool
  started :: bool

record job_tuple =
  tjob :: job
  tinfo :: job_info

definition isFinished :: "job_info \<Rightarrow> bool" where
  "isFinished i = finished i"

definition setFinished :: "bool \<Rightarrow> job_info \<Rightarrow> job_info" where
  "setFinished p i = i\<lparr>finished := p\<rparr>"

definition isStarted :: "job_info \<Rightarrow> bool" where
  "isStarted i = started i"

definition setStarted :: "bool \<Rightarrow> job_info \<Rightarrow> job_info" where
  "setStarted p i = i\<lparr>started := p\<rparr>"

text \<open>\<open>QInfo\<close>: three event flags, each under a lock of its own.\<close>

record q_info =
  readyQEvent :: bool
  runQEvent :: bool
  finishedQEvent :: bool

definition getReadyQStatus :: "q_info \<Rightarrow> bool" where
  "getReadyQStatus q = readyQEvent q"

definition getRunQStatus :: "q_info \<Rightarrow> bool" where
  "getRunQStatus q = runQEvent q"

definition getFinishedQStatus :: "q_info \<Rightarrow> bool" where
  "getFinishedQStatus q = finishedQEvent q"

definition setReadyQStatus :: "bool \<Rightarrow> q_info \<Rightarrow> q_info" where
  "setReadyQStatus p q = q\<lparr>readyQEvent := p\<rparr>"

definition setRunQStatus :: "bool \<Rightarrow> q_info \<Rightarrow> q_info" where
  "setRunQStatus p q = q\<lparr>runQEvent := p\<rparr>"

definition setFinishedQStatus :: "bool \<Rightarrow> q_info \<Rightarrow> q_info" where
  "setFinishedQStatus p q = q\<lparr>finishedQEvent := p\<rparr>"

type_synonym jref = nat
type_synonym job_res_pair = "jref \<times> resource list"

text \<open>\<open>Job::cost\<close> applies the stored function; \<open>defaultCostFunction\<close> divides by the list's size.\<close>

fun apply_cost :: "cost_function \<Rightarrow> job \<Rightarrow> resource list \<Rightarrow> fp" where
  "apply_cost defaultCostFunction j rs = fp_div (getDefaultJobTime j) (Fin (of_nat (length rs)))"

definition cost :: "(jref \<Rightarrow> job) \<Rightarrow> job_res_pair \<Rightarrow> fp" where
  "cost jh p = apply_cost (cost_func (jh (fst p))) (jh (fst p)) (snd p)"

section \<open>Allocations\<close>

record allocations =
  ajobs :: "job_res_pair list"
  score_of :: int

definition Allocations_new :: allocations where
  "Allocations_new = \<lparr>ajobs = [], score_of = 0\<rparr>"

definition addJobResourcePair :: "jref \<Rightarrow> resource list \<Rightarrow> allocations \<Rightarrow> allocations" where
  "addJobResourcePair j r a = a\<lparr>ajobs := ajobs a @ [(j, r)]\<rparr>"

definition makespan :: "(jref \<Rightarrow> job) \<Rightarrow> allocations \<Rightarrow> fp" where
  "makespan jh a = foldl (\<lambda>sum it. fp_add sum (cost jh it)) (Fin 0) (ajobs a)"

definition totalPriorities :: "allocations \<Rightarrow> fp" where
  "totalPriorities a = Fin 1"

definition noJobs :: "allocations \<Rightarrow> nat" where
  "noJobs a = foldl (\<lambda>n it. if 0 < length (snd it) then n + 1 else n) 0 (ajobs a)"

definition setScore :: "int \<Rightarrow> allocations \<Rightarrow> allocations" where
  "setScore n a = a\<lparr>score_of := n\<rparr>"

text \<open>
  \<open>getJLOMetric\<close>: negative and non-negative job metrics are summed apart, and a negative
  sum wins. A NaN is not below zero and goes to the second sum, as in the source.
\<close>

definition jlo_step :: "(jref \<Rightarrow> job) \<Rightarrow> fp \<times> fp \<Rightarrow> job_res_pair \<Rightarrow> fp \<times> fp" where
  "jlo_step jh acc it =
     (let m = getJlo (jh (fst it)) (length (snd it))
      in if fp_less m (Fin 0) then (fp_add (fst acc) m, snd acc)
         else (fst acc, fp_add (snd acc) m))"

definition getJLOMetric :: "(jref \<Rightarrow> job) \<Rightarrow> allocations \<Rightarrow> fp" where
  "getJLOMetric jh a =
     (let (neg, pos) = foldl (jlo_step jh) (Fin 0, Fin 0) (ajobs a)
      in if fp_less neg (Fin 0) then neg else pos)"

text \<open>All resources an allocation hands out, in order.\<close>

definition held :: "job_res_pair list \<Rightarrow> resource list" where
  "held ps = concat (map snd ps)"

section \<open>Facts\<close>

lemma Resource_copy_id [simp]: "Resource_copy r = r"
  by (simp add: Resource_copy_def)

lemma Job_new_simps [simp]:
  "jmin (Job_new m i t) = 1" "jmax (Job_new m i t) = 4" "jid (Job_new m i t) = i"
  "rsp (Job_new m i t) = None" "req (Job_new m i t) = m"
  by (simp_all add: Job_new_def)

lemma ajobs_new [simp]: "ajobs Allocations_new = []" "score_of Allocations_new = 0"
  by (simp_all add: Allocations_new_def)

lemma ajobs_add [simp]:
  "ajobs (addJobResourcePair j r a) = ajobs a @ [(j, r)]"
  "score_of (addJobResourcePair j r a) = score_of a"
  by (simp_all add: addJobResourcePair_def)

lemma setScore_simps [simp]: "ajobs (setScore n a) = ajobs a" "score_of (setScore n a) = n"
  by (simp_all add: setScore_def)

lemma held_simps [simp]:
  "held [] = []" "held (p # ps) = snd p @ held ps" "held (ps @ qs) = held ps @ held qs"
  by (simp_all add: held_def)

lemma foldl_count_if: "foldl (\<lambda>n it. if P it then n + 1 else n) (k :: nat) xs = k + length (filter P xs)"
  by (induction xs arbitrary: k) simp_all

lemma noJobs_eq: "noJobs a = length (filter (\<lambda>it. snd it \<noteq> []) (ajobs a))"
  by (simp add: noJobs_def foldl_count_if)

lemma noJobs_pos: "0 < noJobs a \<longleftrightarrow> held (ajobs a) \<noteq> []"
  by (auto simp: noJobs_eq held_def filter_empty_conv)

text \<open>
  When every pair has a resource, the makespan is a finite sum of per-job times.
\<close>

definition fin_cost :: "(jref \<Rightarrow> job) \<Rightarrow> job_res_pair \<Rightarrow> rat" where
  "fin_cost jh p = predictedTime (jh (fst p)) / of_nat (length (snd p))"

lemma cost_fin: "snd p \<noteq> [] \<Longrightarrow> cost jh p = Fin (fin_cost jh p)"
  by (cases "cost_func (jh (fst p))") (simp add: cost_def fin_cost_def getDefaultJobTime_def)

lemma makespan_fin:
  assumes "\<forall>p\<in>set (ajobs a). snd p \<noteq> []"
  shows "makespan jh a = Fin (\<Sum>p\<leftarrow>ajobs a. fin_cost jh p)"
proof -
  have "foldl (\<lambda>sum it. fp_add sum (cost jh it)) (Fin x) ps = Fin (x + (\<Sum>p\<leftarrow>ps. fin_cost jh p))"
    if "\<forall>p\<in>set ps. snd p \<noteq> []" for x ps
    using that by (induction ps arbitrary: x) (simp_all add: cost_fin add.assoc)
  with assms show ?thesis by (simp add: makespan_def)
qed

lemma cost_not_MInf: "0 \<le> predictedTime (jh (fst p)) \<Longrightarrow> cost jh p \<noteq> MInf \<and> (\<forall>x. cost jh p = Fin x \<longrightarrow> 0 \<le> x)"
  by (cases "cost_func (jh (fst p))") (auto simp: cost_def getDefaultJobTime_def)

text \<open>
  The metric of an allocation whose pairs all have resources: the sum of the negative
  slacks if there is one, the sum of all slacks otherwise.
\<close>

definition slack :: "(jref \<Rightarrow> job) \<Rightarrow> job_res_pair \<Rightarrow> rat" where
  "slack jh p = targetExecutionTime (jh (fst p)) - predictedTime (jh (fst p)) / of_nat (length (snd p))"

lemma getJlo_fin: "rs \<noteq> [] \<Longrightarrow> getJlo (jh j) (length rs) = Fin (slack jh (j, rs))"
  by (simp add: getJlo_def slack_def)

lemma jlo_fold_fin:
  assumes "\<forall>p\<in>set ps. snd p \<noteq> []"
  shows "foldl (jlo_step jh) (Fin x, Fin y) ps =
     (Fin (x + (\<Sum>p\<leftarrow>filter (\<lambda>p. slack jh p < 0) ps. slack jh p)),
      Fin (y + (\<Sum>p\<leftarrow>filter (\<lambda>p. \<not> slack jh p < 0) ps. slack jh p)))"
  using assms
proof (induction ps arbitrary: x y)
  case (Cons p ps)
  obtain j rs where p: "p = (j, rs)" by (cases p)
  with Cons.prems have "rs \<noteq> []" by simp
  with Cons p show ?case by (simp add: jlo_step_def getJlo_fin add.assoc)
qed simp

lemma sum_list_neg:
  fixes f :: "'a \<Rightarrow> rat"
  assumes "\<forall>x\<in>set xs. f x < 0"
  shows "(\<Sum>x\<leftarrow>xs. f x) < 0 \<longleftrightarrow> xs \<noteq> []"
  using assms by (induction xs) (auto intro: add_neg_nonpos add_neg_neg)

lemma getJLOMetric_fin:
  assumes "\<forall>p\<in>set (ajobs a). snd p \<noteq> []"
  shows "getJLOMetric jh a =
     (if \<exists>p\<in>set (ajobs a). slack jh p < 0
      then Fin (\<Sum>p\<leftarrow>filter (\<lambda>p. slack jh p < 0) (ajobs a). slack jh p)
      else Fin (\<Sum>p\<leftarrow>ajobs a. slack jh p))"
proof -
  let ?neg = "filter (\<lambda>p. slack jh p < 0) (ajobs a)"
  have "(\<Sum>p\<leftarrow>?neg. slack jh p) < 0 \<longleftrightarrow> (\<exists>p\<in>set (ajobs a). slack jh p < 0)"
    using sum_list_neg [of ?neg "slack jh"] by (auto simp: filter_empty_conv)
  moreover have "filter (\<lambda>p. \<not> slack jh p < 0) (ajobs a) = ajobs a"
    if "\<not> (\<exists>p\<in>set (ajobs a). slack jh p < 0)"
    using that by (auto simp: filter_id_conv)
  ultimately show ?thesis
    unfolding getJLOMetric_def jlo_fold_fin [OF assms] by auto
qed

section \<open>Flags under locks\<close>

text \<open>
  The contract of a flag: reading gives what was written last. A second flag of the same object
  is independent: writing one does not change what the other reads, and the order of two writes
  does not matter, which is why each flag can have a lock of its own.
\<close>

locale locked_flag =
  fixes get :: "'c \<Rightarrow> bool" and set :: "bool \<Rightarrow> 'c \<Rightarrow> 'c"
  assumes get_set: "get (set b c) = b"
    and set_set: "set b (set b' c) = set b c"
    and set_get: "set (get c) c = c"
begin

text \<open>After any number of writes the last one is read.\<close>

lemma get_fold_set: "get (fold set bs c) = (if bs = [] then get c else last bs)"
  by (induction bs rule: rev_induct) (simp_all add: get_set)

lemma set_same: "get c = b \<Longrightarrow> set b c = c"
  using set_get by blast

end

locale independent_flags = a: locked_flag get set + b: locked_flag get' set'
  for get :: "'c \<Rightarrow> bool" and set get' set' +
  assumes commute: "set x (set' y c) = set' y (set x c)"
    and other: "get' (set x c) = get' c" "get (set' y c) = get c"
begin

lemma interleaved_writes:
  "get (fold set xs (fold set' ys c)) = (if xs = [] then get c else last xs) \<and>
   get' (fold set xs (fold set' ys c)) = (if ys = [] then get' c else last ys)"
proof -
  have "get' (fold set xs d) = get' d" for d
    by (induction xs arbitrary: d) (simp_all add: other)
  moreover have "get (fold set' ys d) = get d" for d
    by (induction ys arbitrary: d) (simp_all add: other)
  ultimately show ?thesis by (simp add: a.get_fold_set b.get_fold_set)
qed

end

interpretation job_flags: independent_flags isFinished setFinished isStarted setStarted
  by unfold_locales (simp_all add: isFinished_def setFinished_def isStarted_def setStarted_def)

interpretation ready_run: independent_flags getReadyQStatus setReadyQStatus getRunQStatus setRunQStatus
  by unfold_locales (simp_all add: getReadyQStatus_def setReadyQStatus_def getRunQStatus_def setRunQStatus_def)

interpretation ready_finished:
  independent_flags getReadyQStatus setReadyQStatus getFinishedQStatus setFinishedQStatus
  by unfold_locales
    (simp_all add: getReadyQStatus_def setReadyQStatus_def getFinishedQStatus_def setFinishedQStatus_def)

interpretation run_finished: independent_flags getRunQStatus setRunQStatus getFinishedQStatus setFinishedQStatus
  by unfold_locales
    (simp_all add: getRunQStatus_def setRunQStatus_def getFinishedQStatus_def setFinishedQStatus_def)

section \<open>Text and copies\<close>

text \<open>A port written as text is read back; anything that is no number becomes port 0.\<close>

lemma Resource_parse_show:
  assumes "- (2 ^ 31) \<le> p" "p < 2 ^ 31"
  shows "Resource_parse (show_int p) n t = (Resource_new (- 1) p n t)"
  using read_int_show_int [OF assms, of "[]"] by (simp add: Resource_parse_def Resource_new_def)

text \<open>The copy \<open>run\<close> returns does not describe its block any more, unless there was no payload.\<close>

lemma Job_run_truncates:
  assumes "wf_msg (req j)"
  shows "wf_msg (snd (Job_run j)) \<longleftrightarrow> data (req j) = []"
  using assms by (auto simp: Job_run_def wf_msg_def)

text \<open>The time stamps and the response are all a running job changes; the cost stays the same.\<close>

lemma setters_keep_cost:
  assumes "f \<in> {setRsp r, setMeasuredExecutionTime t, setActualExecutionTime t, setIssueTime t,
    setDispatchTime t, setFinishTime t, setUid i, setStatus i}"
  shows "jid (f j) = jid j" "minCost (f j) = minCost j" "maxCost (f j) = maxCost j" "getJlo (f j) n = getJlo j n"
  using assms by (auto simp: setRsp_def setMeasuredExecutionTime_def setActualExecutionTime_def
      setIssueTime_def setDispatchTime_def setFinishTime_def setUid_def setStatus_def
      minCost_def maxCost_def getJlo_def)

text \<open>A response of the same size is copied whole.\<close>

lemma copyRsp_same_size:
  assumes "rsp j = Some m" "wf_msg r" "length (data r) = length (data m)"
  shows "copyRsp (msg_bytes r) j = Inr (j\<lparr>rsp := Some (m\<lparr>data := data r\<rparr>)\<rparr>)"
  using assms by (simp add: copyRsp_def bytes_msg_msg_bytes memcpy_at_def wf_msg_def)

end
