(* ===== verification/Scheduler_State.thy ===== *)
theory Scheduler_State
  imports Concurrent_Deque Job_Model
begin

text \<open>
  The state of \<open>class Scheduler\<close> (\<open>src/scheduler/Scheduler.hpp\<close>) and the operations
  that move resources and jobs between its containers: the resource pool, the ready, run
  and finished queues, identifiers and statistics. \<open>jobs\<close> is the store behind the
  \<open>JobTuplePtr\<close> pointers, with \<open>nextRef\<close> the next free address. Integers that only count
  up (\<open>nextJid\<close>, \<open>resourceId\<close>) are unbounded here; the source's \<open>int\<close> is exhausted
  after \<open>2^31\<close> jobs.
\<close>

section \<open>State\<close>

datatype alg = FCFSMax_alg | FCFSMin_alg | FCFSAsManyAsPos_alg | SJTF_alg | Priority_alg | ManagedMode_alg

record statistics =
  totalCompletions :: nat
  meanWaitTime :: rat
  totalWaitTime :: rat
  meanServiceTime :: rat
  totalServiceTime :: rat
  meanLatency :: rat
  totalLatency :: rat
  totBusyTime :: rat
  totalSchedTime :: rat
  numSchedules :: nat
  totalJobsScheduled :: nat
  startTime :: rat
  meanThroughput :: fp
  meanUtilization :: fp

record scheduler =
  resPool :: "resource list"
  runQ :: "job_res_pair list"
  finishedQ :: "jref list"
  readyQ :: "jref list"
  jobs :: "jref \<Rightarrow> job_tuple"
  nextRef :: jref
  algVec :: "alg list"
  window :: nat
  strat :: string
  nextJid :: int
  resourceId :: int
  provisionedResources :: int
  dispatcherPortNumber :: int
  dispatcherHostname :: string
  clientPriorities :: "int \<Rightarrow> int option"
  stats :: statistics

abbreviation job_at :: "scheduler \<Rightarrow> jref \<Rightarrow> job" where
  "job_at s p \<equiv> tjob (jobs s p)"

definition update_job :: "jref \<Rightarrow> (job \<Rightarrow> job) \<Rightarrow> scheduler \<Rightarrow> scheduler" where
  "update_job p f s = s\<lparr>jobs := (jobs s)(p := (jobs s p)\<lparr>tjob := f (tjob (jobs s p))\<rparr>)\<rparr>"

definition update_info :: "jref \<Rightarrow> (job_info \<Rightarrow> job_info) \<Rightarrow> scheduler \<Rightarrow> scheduler" where
  "update_info p f s = s\<lparr>jobs := (jobs s)(p := (jobs s p)\<lparr>tinfo := f (tinfo (jobs s p))\<rparr>)\<rparr>"

section \<open>The resource pool\<close>

definition addResource_copy :: "resource \<Rightarrow> scheduler \<Rightarrow> scheduler" where
  "addResource_copy r s = s\<lparr>resPool := push_back (Resource_copy r) (resPool s)\<rparr>"

definition addResource_new :: "int \<Rightarrow> string \<Rightarrow> scheduler \<Rightarrow> scheduler" where
  "addResource_new portNo hostname s =
     s\<lparr>resPool := push_back (Resource_new (resourceId s) portNo hostname ''DFE'') (resPool s),
       resourceId := resourceId s + 1\<rparr>"

definition provisionResource :: "scheduler \<Rightarrow> scheduler" where
  "provisionResource s =
     (let s' = addResource_new (dispatcherPortNumber s) (dispatcherHostname s) s
      in s'\<lparr>provisionedResources := provisionedResources s' + 1\<rparr>)"

definition deprovisionResource :: "scheduler \<Rightarrow> scheduler result" where
  "deprovisionResource s =
     (if 0 < provisionedResources s
      then (let s' = s\<lparr>provisionedResources := provisionedResources s - 1\<rparr>
            in bindR (wait_pop_back (resPool s')) (\<lambda>(r, pool'). Inr (s'\<lparr>resPool := pool'\<rparr>)))
      else Inr s)"

text \<open>
  \<open>claimResources\<close>: for each resource of the pair, \<open>find_if\<close> by id in the pool, then
  \<open>erase\<close> whatever iterator came back.
\<close>

fun claim_loop :: "resource list \<Rightarrow> resource list \<Rightarrow> resource list result" where
  "claim_loop [] pool = Inr pool"
| "claim_loop (r # rs) pool =
     bindR (deque_erase (find_if (resPtrEQ r) pool) pool) (\<lambda>pool'. claim_loop rs pool')"

definition claimResources :: "job_res_pair \<Rightarrow> scheduler \<Rightarrow> scheduler result" where
  "claimResources elem s =
     bindR (claim_loop (snd elem) (resPool s)) (\<lambda>pool'. Inr (s\<lparr>resPool := pool'\<rparr>))"

definition returnResources :: "resource list \<Rightarrow> scheduler \<Rightarrow> scheduler" where
  "returnResources res s = foldl (\<lambda>s r. addResource_copy r s) s res"

text \<open>
  \<open>allocate(j, max_res, min_res)\<close>: the loop \<open>while (max_res-- > 0 && resPool->size() > 0)\<close>
  pops from the back of the pool.
\<close>

fun allocate_loop :: "nat \<Rightarrow> resource list \<Rightarrow> resource list \<times> resource list" where
  "allocate_loop 0 pool = ([], pool)"
| "allocate_loop (Suc max_res) pool =
     (case wait_pop_back pool of
        Inl _ \<Rightarrow> ([], pool)
      | Inr (r, pool') \<Rightarrow> (let (rs, pool'') = allocate_loop max_res pool' in (r # rs, pool'')))"

definition allocate :: "nat \<Rightarrow> nat \<Rightarrow> scheduler \<Rightarrow> resource list \<times> scheduler" where
  "allocate max_res min_res s =
     (if min_res \<le> deque_size (resPool s)
      then (let (rs, pool') = allocate_loop max_res (resPool s) in (rs, s\<lparr>resPool := pool'\<rparr>))
      else ([], s))"

section \<open>Jobs and queues\<close>

definition getNextId :: "scheduler \<Rightarrow> int \<times> scheduler" where
  "getNextId s = (nextJid s, s\<lparr>nextJid := nextJid s + 1\<rparr>)"

text \<open>\<open>copyJobFromQ\<close>: a null pointer past the end, an exception exactly at the end.\<close>

definition copyJobFromQ :: "jref list \<Rightarrow> nat \<Rightarrow> jref option result" where
  "copyJobFromQ rq i =
     (if deque_size rq < i then Inr None else bindR (deque_at rq i) (\<lambda>j. Inr (Some j)))"

definition addToRunQ :: "job_res_pair \<Rightarrow> rat \<Rightarrow> scheduler \<Rightarrow> scheduler" where
  "addToRunQ elem now s =
     (let s' = update_job (fst elem) (\<lambda>j. j\<lparr>dispatchTime := now\<rparr>) s
      in s'\<lparr>runQ := push_front elem (runQ s')\<rparr>)"

definition idEqrq :: "scheduler \<Rightarrow> int \<Rightarrow> jref \<Rightarrow> bool" where
  "idEqrq s i item = (i = jid (job_at s item))"

definition idEq :: "scheduler \<Rightarrow> int \<Rightarrow> job_res_pair \<Rightarrow> bool" where
  "idEq s i item = (i = jid (job_at s (fst item)))"

definition removeJobFromReadyQ :: "job_res_pair \<Rightarrow> scheduler \<Rightarrow> scheduler" where
  "removeJobFromReadyQ j s =
     (if 0 < deque_size (readyQ s)
      then (case find_if (idEqrq s (jid (job_at s (fst j)))) (readyQ s) of
              None \<Rightarrow> s
            | Some i \<Rightarrow> s\<lparr>readyQ := erase_at i (readyQ s)\<rparr>)
      else s)"

definition removeJobFromRunQ :: "int \<Rightarrow> scheduler \<Rightarrow> scheduler" where
  "removeJobFromRunQ i s =
     (case find_if (idEq s i) (runQ s) of
        None \<Rightarrow> s
      | Some k \<Rightarrow> s\<lparr>runQ := erase_at k (runQ s)\<rparr>)"

section \<open>Members of Allocations that act on the scheduler\<close>

fun serviceAllocations_loop :: "job_res_pair list \<Rightarrow> rat \<Rightarrow> scheduler \<Rightarrow> scheduler result" where
  "serviceAllocations_loop [] now s = Inr s"
| "serviceAllocations_loop (j # js) now s =
     bindR (claimResources j (removeJobFromReadyQ j s))
       (\<lambda>s'. serviceAllocations_loop js now (addToRunQ j now s'))"

definition serviceAllocations :: "allocations \<Rightarrow> rat \<Rightarrow> scheduler \<Rightarrow> scheduler result" where
  "serviceAllocations a now s = serviceAllocations_loop (ajobs a) now s"

definition returnAllocation :: "allocations \<Rightarrow> scheduler \<Rightarrow> scheduler" where
  "returnAllocation a s = foldl (\<lambda>s it. returnResources (snd it) s) s (ajobs a)"

section \<open>Construction\<close>

definition stats_new :: "rat \<Rightarrow> rat \<Rightarrow> statistics" where
  "stats_new busy now = \<lparr>totalCompletions = 0, meanWaitTime = 0, totalWaitTime = 0,
     meanServiceTime = 0, totalServiceTime = 0, meanLatency = 0, totalLatency = 0,
     totBusyTime = busy, totalSchedTime = 0, numSchedules = 0, totalJobsScheduled = 0,
     startTime = now, meanThroughput = Fin 0, meanUtilization = Fin 0\<rparr>"

text \<open>
  The constructor followed by the \<open>addSchedAlg\<close> calls of \<open>main.cxx\<close>. \<open>totBusyTime\<close> is not
  initialised by the source: its start value is an argument, as are the empty store and
  the clock.
\<close>

definition Scheduler_new :: "int \<Rightarrow> string \<Rightarrow> (jref \<Rightarrow> job_tuple) \<Rightarrow> rat \<Rightarrow> rat \<Rightarrow> scheduler" where
  "Scheduler_new dport dhost store busy now =
     provisionResource \<lparr>resPool = [], runQ = [], finishedQ = [], readyQ = [], jobs = store,
       nextRef = 0, algVec = [], window = 5, strat = ''Completion Time'', nextJid = 1,
       resourceId = 1, provisionedResources = 0, dispatcherPortNumber = dport,
       dispatcherHostname = dhost,
       clientPriorities = [1 \<mapsto> 1, 2 \<mapsto> 2, 3 \<mapsto> 3, 4 \<mapsto> 4],
       stats = stats_new busy now\<rparr>"

definition addSchedAlg :: "alg \<Rightarrow> scheduler \<Rightarrow> scheduler" where
  "addSchedAlg f s = s\<lparr>algVec := algVec s @ [f]\<rparr>"

definition setWindow :: "nat \<Rightarrow> scheduler \<Rightarrow> scheduler" where
  "setWindow w s = s\<lparr>window := w\<rparr>"

definition scheduler_main :: "int \<Rightarrow> (jref \<Rightarrow> job_tuple) \<Rightarrow> rat \<Rightarrow> rat \<Rightarrow> scheduler" where
  "scheduler_main dport store busy now =
     fold addSchedAlg
       [FCFSMax_alg, FCFSMin_alg, FCFSAsManyAsPos_alg, SJTF_alg, Priority_alg, ManagedMode_alg]
       (Scheduler_new dport ''localhost'' store busy now)"

text \<open>
  \<open>main\<close> with its arguments, the program's name first: the port to listen on, still as text,
  and the scheduler. Too few arguments end it with 1.
\<close>

definition scheduler_process ::
  "string list \<Rightarrow> (jref \<Rightarrow> job_tuple) \<Rightarrow> rat \<Rightarrow> rat \<Rightarrow> int + string \<times> scheduler" where
  "scheduler_process argv store busy now =
     (if length argv < 3 then Inl 1
      else Inr (argv ! 1, scheduler_main (atoi (argv ! 2)) store busy now))"

section \<open>Statistics\<close>

definition duration_trunc :: "rat \<Rightarrow> int" where
  "duration_trunc d = rat_trunc d"

definition updateMeanWaitTime :: "job \<Rightarrow> statistics \<Rightarrow> statistics" where
  "updateMeanWaitTime j st =
     (let t = totalWaitTime st + (dispatchTime j - issueTime j)
      in st\<lparr>totalWaitTime := t, meanWaitTime := t / of_nat (totalCompletions st)\<rparr>)"

definition updateMeanServiceTime :: "job \<Rightarrow> statistics \<Rightarrow> statistics" where
  "updateMeanServiceTime j st =
     (let t = totalServiceTime st + (finishTime j - dispatchTime j)
      in st\<lparr>totalServiceTime := t, meanServiceTime := t / of_nat (totalCompletions st)\<rparr>)"

definition updateLatency :: "job \<Rightarrow> statistics \<Rightarrow> statistics" where
  "updateLatency j st =
     (let t = totalLatency st + (measuredExecutionTime j - actualExecutionTime j)
      in st\<lparr>totalLatency := t, meanLatency := t / of_nat (totalCompletions st)\<rparr>)"

definition updateThroughput :: "rat \<Rightarrow> statistics \<Rightarrow> statistics" where
  "updateThroughput tp st =
     (let seconds = duration_trunc (tp - startTime st)
      in st\<lparr>meanThroughput := fp_div (Fin (of_nat (totalCompletions st))) (fp_of_int seconds)\<rparr>)"

definition updateUtilization :: "job \<Rightarrow> rat \<Rightarrow> statistics \<Rightarrow> statistics" where
  "updateUtilization j tp st =
     (let busy = totBusyTime st + actualExecutionTime j;
          totTimeMs = duration_trunc (1000 * (tp - startTime st));
          busyTimeMs = duration_trunc (1000 * busy)
      in st\<lparr>totBusyTime := busy,
            meanUtilization := fp_div (fp_of_int busyTimeMs) (fp_of_int totTimeMs)\<rparr>)"

definition estimateExecutionTime :: "job \<Rightarrow> rat" where
  "estimateExecutionTime j = millis (predictedTimeMillis (req j))"

text \<open>\<open>updateLateJobs\<close> only logs the lateness, which is what it computes.\<close>

definition updateLateJobs :: "job \<Rightarrow> rat" where
  "updateLateJobs j =
     of_int (duration_trunc (finishTime j - dispatchTime j)) - estimateExecutionTime j"

definition updateStatistics :: "job \<Rightarrow> rat \<Rightarrow> statistics \<Rightarrow> statistics" where
  "updateStatistics j now st =
     updateUtilization j now
       (updateThroughput now
         (updateLatency j
           (updateMeanServiceTime j
             (updateMeanWaitTime j (st\<lparr>totalCompletions := totalCompletions st + 1\<rparr>)))))"

definition numLateJobs :: "scheduler \<Rightarrow> nat" where
  "numLateJobs s =
     foldl (\<lambda>sum p. if 1 < dispatchTime (job_at s p) - issueTime (job_at s p) then sum + 1 else sum)
       0 (finishedQ s)"

text \<open>
  \<open>stop\<close> prints the statistics: the values it prints, in their order. The mean scheduling
  overhead divides a \<open>duration<long>\<close> of microseconds by the \<open>long\<close> count of schedules, an
  integer division; the number of jobs per schedule is a division of doubles.
\<close>

record stop_report =
  uptime :: int
  waiting_time :: rat
  service_time :: rat
  latency :: rat
  throughput :: fp
  utilization :: fp
  overhead_us :: int
  total_jobs :: nat
  total_completions :: nat
  jobs_per_schedule :: fp

definition scheduler_stop :: "rat \<Rightarrow> scheduler \<Rightarrow> stop_report result" where
  "scheduler_stop now s =
     (let st = stats s; n = numSchedules st
      in if n = 0 then Inl Division_By_Zero
         else Inr \<lparr>uptime = duration_trunc (now - startTime st), waiting_time = meanWaitTime st,
           service_time = meanServiceTime st, latency = meanLatency st,
           throughput = meanThroughput st, utilization = meanUtilization st,
           overhead_us = duration_trunc (1000000 * totalSchedTime st / of_nat n),
           total_jobs = totalCompletions st + deque_size (readyQ s) + deque_size (runQ s),
           total_completions = totalCompletions st,
           jobs_per_schedule = fp_div (Fin (of_nat (totalJobsScheduled st))) (Fin (of_nat n))\<rparr>)"

section \<open>Facts about the pool\<close>

lemma allocate_loop_eq:
  "allocate_loop m pool = (take m (rev pool), take (length pool - m) pool)"
proof (induction m arbitrary: pool)
  case (Suc m)
  show ?case
  proof (cases pool rule: rev_cases)
    case Nil
    then show ?thesis by (simp add: wait_pop_back_def)
  next
    case (snoc ys y)
    then show ?thesis using Suc.IH [of ys] by (simp add: wait_pop_back_def)
  qed
qed simp

lemma allocate_eq:
  "allocate mx mn s =
     (if mn \<le> length (resPool s)
      then (take mx (rev (resPool s)), s\<lparr>resPool := take (length (resPool s) - mx) (resPool s)\<rparr>)
      else ([], s))"
  by (simp add: allocate_def deque_size_def allocate_loop_eq)

lemma mset_take_rev: "mset (take m (rev xs)) + mset (take (length xs - m) xs) = mset xs"
  by (metis (no_types) append_take_drop_id mset_append mset_rev take_rev union_commute)

lemma allocate_contents:
  "allocate mx mn s = (rs, s') \<Longrightarrow> mset rs + mset (resPool s') = mset (resPool s)"
  by (auto simp: allocate_eq mset_take_rev split: if_splits)

lemma allocate_frame:
  "allocate mx mn s = (rs, s') \<Longrightarrow> s' = s\<lparr>resPool := resPool s'\<rparr>"
  by (auto simp: allocate_eq split: if_splits)

lemma allocate_length:
  "allocate mx mn s = (rs, s') \<Longrightarrow>
     length rs = (if mn \<le> length (resPool s) then min mx (length (resPool s)) else 0)"
  by (auto simp: allocate_eq split: if_splits)

lemma returnResources_eq: "returnResources rs s = s\<lparr>resPool := resPool s @ rs\<rparr>"
  unfolding returnResources_def
  by (induction rs arbitrary: s) (simp_all add: addResource_copy_def push_back_def)

lemma returnAllocation_eq: "returnAllocation a s = s\<lparr>resPool := resPool s @ held (ajobs a)\<rparr>"
proof -
  have "foldl (\<lambda>s it. returnResources (snd it) s) s ps = s\<lparr>resPool := resPool s @ held ps\<rparr>" for ps
    by (induction ps arbitrary: s) (simp_all add: returnResources_eq)
  then show ?thesis by (simp add: returnAllocation_def)
qed

lemma find_if_unique:
  assumes "distinct (map f xs)" and "x \<in> set xs"
  shows "\<exists>i. find_if (\<lambda>y. f x = f y) xs = Some i \<and> i < length xs \<and> xs ! i = x"
proof (cases "find_if (\<lambda>y. f x = f y) xs")
  case None
  with assms(2) show ?thesis by (auto simp: find_if_None)
next
  case (Some i)
  then have "i < length xs" "f (xs ! i) = f x"
    using find_if_Some [OF Some] by auto
  then have "xs ! i = x" using assms by (metis distinct_map inj_onD nth_mem)
  with Some \<open>i < length xs\<close> show ?thesis by blast
qed

text \<open>Claiming what the pool holds succeeds and takes exactly that out of the pool.\<close>

lemma claim_loop_ok:
  assumes "distinct (map rid pool)" and "mset rs \<subseteq># mset pool"
  shows "\<exists>pool'. claim_loop rs pool = Inr pool' \<and> mset pool = mset rs + mset pool'"
  using assms
proof (induction rs arbitrary: pool)
  case (Cons r rs)
  then have "r \<in> set pool" by (simp add: insert_subset_eq_iff)
  with Cons.prems(1) obtain i where i: "find_if (resPtrEQ r) pool = Some i" "i < length pool" "pool ! i = r"
    using find_if_unique [of rid pool r] unfolding resPtrEQ_def by blast
  let ?p = "erase_at i pool"
  have m: "mset pool = add_mset r (mset ?p)" using mset_erase_at [OF i(2)] i(3) by simp
  have "distinct (map rid ?p)"
    using Cons.prems(1) distinct_erase_at [of "map rid pool" i]
    by (simp add: erase_at_def take_map drop_map)
  moreover have "mset rs \<subseteq># mset ?p" using Cons.prems(2) m by simp
  ultimately obtain pool' where "claim_loop rs ?p = Inr pool'" "mset ?p = mset rs + mset pool'"
    using Cons.IH by blast
  with i m show ?case by (auto simp: deque_erase_def)
qed simp

text \<open>Whatever it was asked for, a claim that succeeds removes those ids from the pool.\<close>

lemma claim_loop_ids:
  "claim_loop rs pool = Inr pool' \<Longrightarrow>
     mset (map rid pool) = mset (map rid rs) + mset (map rid pool')"
proof (induction rs arbitrary: pool)
  case (Cons r rs)
  then obtain p where p: "deque_erase (find_if (resPtrEQ r) pool) pool = Inr p"
    "claim_loop rs p = Inr pool'"
    by (auto simp: bindR_eq_Inr)
  then obtain x where x: "rid r = rid x" "mset pool = add_mset x (mset p)"
    using deque_erase_find_if [of "resPtrEQ r"] unfolding resPtrEQ_def by blast
  then have "mset (map rid pool) = add_mset (rid r) (mset (map rid p))"
    by (metis image_mset_add_mset mset_map)
  with Cons.IH [OF p(2)] show ?case by simp
qed simp

section \<open>Frame facts\<close>

lemma update_job_simps [simp]:
  "resPool (update_job p f s) = resPool s" "runQ (update_job p f s) = runQ s"
  "finishedQ (update_job p f s) = finishedQ s" "readyQ (update_job p f s) = readyQ s"
  "nextRef (update_job p f s) = nextRef s" "algVec (update_job p f s) = algVec s"
  "window (update_job p f s) = window s" "strat (update_job p f s) = strat s"
  "nextJid (update_job p f s) = nextJid s" "resourceId (update_job p f s) = resourceId s"
  "provisionedResources (update_job p f s) = provisionedResources s"
  "job_at (update_job p f s) q = (if q = p then f (job_at s p) else job_at s q)"
  "tinfo (jobs (update_job p f s) q) = tinfo (jobs s q)"
  by (simp_all add: update_job_def)

lemma update_info_simps [simp]:
  "resPool (update_info p g s) = resPool s" "runQ (update_info p g s) = runQ s"
  "finishedQ (update_info p g s) = finishedQ s" "readyQ (update_info p g s) = readyQ s"
  "nextRef (update_info p g s) = nextRef s" "algVec (update_info p g s) = algVec s"
  "window (update_info p g s) = window s" "strat (update_info p g s) = strat s"
  "nextJid (update_info p g s) = nextJid s" "resourceId (update_info p g s) = resourceId s"
  "provisionedResources (update_info p g s) = provisionedResources s"
  "job_at (update_info p g s) q = job_at s q"
  "tinfo (jobs (update_info p g s) q) = (if q = p then g (tinfo (jobs s p)) else tinfo (jobs s q))"
  by (simp_all add: update_info_def)

lemma removeJobFromReadyQ_frame:
  "\<exists>q. removeJobFromReadyQ j s = s\<lparr>readyQ := q\<rparr>"
  by (cases s) (auto simp: removeJobFromReadyQ_def split: option.splits)

lemma removeJobFromReadyQ_eq:
  assumes "distinct (map (\<lambda>p. jid (job_at s p)) (readyQ s))" and "p \<in> set (readyQ s)"
  shows "removeJobFromReadyQ (p, rs) s = s\<lparr>readyQ := remove1 p (readyQ s)\<rparr>"
proof -
  let ?q = "readyQ s"
  obtain i where i: "find_if (idEqrq s (jid (job_at s p))) ?q = Some i" "i < length ?q" "?q ! i = p"
    using find_if_unique [OF assms] unfolding idEqrq_def by blast
  have "erase_at i ?q = remove1 p ?q"
  proof -
    have "distinct ?q" using assms(1) by (simp add: distinct_map)
    then have "p \<notin> set (take i ?q)"
      using i(2,3) by (metis id_take_nth_drop distinct_append distinct.simps(2) disjoint_iff list.set_intros(1))
    then have "remove1 p (take i ?q @ p # drop (Suc i) ?q) = erase_at i ?q"
      by (simp add: remove1_append erase_at_def)
    then show ?thesis using id_take_nth_drop [OF i(2)] i(3) by simp
  qed
  with i assms(2) show ?thesis by (auto simp: removeJobFromReadyQ_def deque_size_def)
qed

section \<open>Properties\<close>

text \<open>
  \<open>allocate\<close> either hands out the last \<open>max\<close> resources of the pool (all of them if there
  are fewer) or, with fewer than \<open>min\<close> in the pool, none; no resource is lost or duplicated.
\<close>

theorem allocate_share:
  "allocate mx mn s = (rs, s') \<Longrightarrow>
     length rs = (if mn \<le> length (resPool s) then min mx (length (resPool s)) else 0) \<and>
     mset rs + mset (resPool s') = mset (resPool s) \<and> s' = s\<lparr>resPool := resPool s'\<rparr>"
  using allocate_length allocate_contents allocate_frame by blast

theorem allocate_share_witness:
  "length (fst (allocate 4 1 (scheduler_main 8112 (\<lambda>_. \<lparr>tjob = Job_new (zero_msg 0) 0 0, tinfo = \<lparr>finished = False, started = False\<rparr>\<rparr>) 0 0))) = 1"
proof -
  let ?s = "scheduler_main 8112 (\<lambda>_. \<lparr>tjob = Job_new (zero_msg 0) 0 0, tinfo = \<lparr>finished = False, started = False\<rparr>\<rparr>) 0 0"
  have "length (resPool ?s) = 1"
    by (simp add: scheduler_main_def Scheduler_new_def addSchedAlg_def provisionResource_def
        addResource_new_def push_back_def)
  then show ?thesis using allocate_share [of 4 1 ?s "fst (allocate 4 1 ?s)" "snd (allocate 4 1 ?s)"] by simp
qed

text \<open>The statistics after a sequence of finished jobs, each with the time it was handled.\<close>

definition stats_after :: "rat \<Rightarrow> rat \<Rightarrow> (job \<times> rat) list \<Rightarrow> statistics" where
  "stats_after busy start js = fold (\<lambda>(j, t). updateStatistics j t) js (stats_new busy start)"

lemma stats_after_totals:
  "totalCompletions (stats_after b n js) = length js \<and>
   totalWaitTime (stats_after b n js) = (\<Sum>(j, t)\<leftarrow>js. dispatchTime j - issueTime j) \<and>
   totalServiceTime (stats_after b n js) = (\<Sum>(j, t)\<leftarrow>js. finishTime j - dispatchTime j) \<and>
   totalLatency (stats_after b n js) = (\<Sum>(j, t)\<leftarrow>js. measuredExecutionTime j - actualExecutionTime j)"
  unfolding stats_after_def
  by (induction js rule: rev_induct)
    (auto simp: stats_new_def updateStatistics_def updateMeanWaitTime_def updateMeanServiceTime_def
      updateLatency_def updateThroughput_def updateUtilization_def Let_def)

text \<open>
  The running statistics are means: after any non-empty sequence of finished jobs the three
  mean times are the sums of the single times divided by the number of jobs.
\<close>

theorem statistics_are_means:
  "totalCompletions (stats_after b n (js @ [l])) = length js + 1 \<and>
   meanWaitTime (stats_after b n (js @ [l])) =
     (\<Sum>(j, t)\<leftarrow>js @ [l]. dispatchTime j - issueTime j) / of_nat (length js + 1) \<and>
   meanServiceTime (stats_after b n (js @ [l])) =
     (\<Sum>(j, t)\<leftarrow>js @ [l]. finishTime j - dispatchTime j) / of_nat (length js + 1) \<and>
   meanLatency (stats_after b n (js @ [l])) =
     (\<Sum>(j, t)\<leftarrow>js @ [l]. measuredExecutionTime j - actualExecutionTime j) / of_nat (length js + 1)"
proof -
  obtain j t where l: "l = (j, t)" by (cases l)
  have "stats_after b n (js @ [l]) = updateStatistics j t (stats_after b n js)"
    by (simp add: stats_after_def l)
  then show ?thesis using stats_after_totals [of b n js]
    by (simp add: l updateStatistics_def updateMeanWaitTime_def updateMeanServiceTime_def
        updateLatency_def updateThroughput_def updateUtilization_def Let_def)
qed

end
