(* ===== verification/Algs.thy ===== *)
theory Algs
  imports Scheduler_State
begin

text \<open>
  The scheduling algorithms (\<open>src/scheduler/algs.cpp\<close>) and \<open>Scheduler::schedule\<close>. An
  algorithm takes resources out of the pool and returns the assignments it would make;
  the managed mode runs every registered algorithm, gives the resources back after each,
  scores the assignments and keeps the best.

  The locale \<open>sched_alg\<close> is the contract between an algorithm and the managed mode. It
  is interpreted for each of the five algorithms.
\<close>

section \<open>First come first served\<close>

text \<open>
  The loop the three FCFS functions share: \<open>k\<close> iterations of the window are left, \<open>i\<close>
  is the position in the ready queue; \<open>mx\<close> and \<open>mn\<close> are the members passed to
  \<open>allocate\<close> as maximum and minimum.
\<close>

fun fcfs_loop :: "(job \<Rightarrow> nat) \<Rightarrow> (job \<Rightarrow> nat) \<Rightarrow> nat \<Rightarrow> nat \<Rightarrow> scheduler \<Rightarrow> allocations \<Rightarrow>
    (allocations \<times> scheduler) result" where
  "fcfs_loop mx mn 0 i s a = Inr (a, s)"
| "fcfs_loop mx mn (Suc k) i s a =
     (if i < deque_size (readyQ s)
      then bindR (copyJobFromQ (readyQ s) i) (\<lambda>jo. case jo of
             None \<Rightarrow> Inl Null_Deref
           | Some j \<Rightarrow>
               (let (rs, s') = allocate (mx (job_at s j)) (mn (job_at s j)) s
                in if 0 < length rs
                   then fcfs_loop mx mn k (Suc i) s' (addJobResourcePair j rs a)
                   else Inr (a, s')))
      else Inr (a, s))"

definition FCFSMin :: "scheduler \<Rightarrow> (allocations \<times> scheduler) result" where
  "FCFSMin s = fcfs_loop jmin jmin (window s) 0 s Allocations_new"

definition FCFSAsManyAsPos :: "scheduler \<Rightarrow> (allocations \<times> scheduler) result" where
  "FCFSAsManyAsPos s = fcfs_loop jmax jmin (window s) 0 s Allocations_new"

definition FCFSMax :: "scheduler \<Rightarrow> (allocations \<times> scheduler) result" where
  "FCFSMax s = fcfs_loop jmax jmax (window s) 0 s Allocations_new"

section \<open>Priority and shortest job time first\<close>

definition sortByPriority :: "scheduler \<Rightarrow> jref \<Rightarrow> jref \<Rightarrow> bool" where
  "sortByPriority s i j = (jpriority (job_at s i) < jpriority (job_at s j))"

definition sortByTime :: "scheduler \<Rightarrow> jref \<Rightarrow> jref \<Rightarrow> bool" where
  "sortByTime s i j = fp_less (minCost (job_at s i)) (minCost (job_at s j))"

definition sortByMin :: "scheduler \<Rightarrow> jref \<Rightarrow> jref \<Rightarrow> bool" where
  "sortByMin s i j = (jmin (job_at s i) < jmin (job_at s j))"

text \<open>The window: the first \<open>w_size\<close> jobs of the ready queue, copied one by one.\<close>

definition job_window :: "scheduler \<Rightarrow> jref list" where
  "job_window s = map (\<lambda>i. readyQ s ! i) [0..<min (window s) (deque_size (readyQ s))]"

text \<open>
  The \<open>while\<close> loop of \<open>Priority\<close> and \<open>SJTF\<close> on the live part \<open>[begin, nend)\<close> of the
  window: \<open>pick\<close> is \<open>max_element\<close> or \<open>min_element\<close>, \<open>need\<close> the number of resources
  compared with the pool. \<open>std::remove\<close> moves every other element down and \<open>nend\<close> to
  the new end. A pick at \<open>nend\<close> ends the loop.
\<close>

function greedy_loop :: "(jref list \<Rightarrow> nat) \<Rightarrow> (job \<Rightarrow> nat) \<Rightarrow> jref list \<Rightarrow> scheduler \<Rightarrow>
    allocations \<Rightarrow> allocations \<times> scheduler" where
  "greedy_loop pick need live s a =
     (let i = pick live; e = live ! i
      in if i < length live \<and> need (job_at s e) < deque_size (resPool s)
         then (let (rs, s') = allocate (jmax (job_at s e)) (jmax (job_at s e)) s
               in greedy_loop pick need (removeAll e live) s' (addJobResourcePair e rs a))
         else (a, s))"
  by pat_completeness auto
termination
  by (relation "measure (\<lambda>(pick, need, live, s, a). length live)") (auto intro!: length_removeAll_less)

declare greedy_loop.simps [simp del]

text \<open>The first pick is dereferenced before it is compared with the end.\<close>

definition Priority :: "scheduler \<Rightarrow> (allocations \<times> scheduler) result" where
  "Priority s =
     (let w = std_sort (sortByPriority s) (job_window s)
      in if w = [] then Inl End_Deref
         else Inr (greedy_loop (max_element (sortByPriority s)) jmax w s Allocations_new))"

definition SJTF :: "scheduler \<Rightarrow> (allocations \<times> scheduler) result" where
  "SJTF s =
     (if deque_size (readyQ s) = 0 then Inr (Allocations_new, s)
      else (let w = std_sort (sortByTime s) (job_window s)
            in if w = [] then Inl End_Deref
               else Inr (greedy_loop (min_element (sortByMin s)) jmin w s Allocations_new)))"

section \<open>schedule, score, selectMaxScore, ManagedMode\<close>

text \<open>
  A call through \<open>algVec\<close>. \<open>schedule\<close> is only called by \<open>ManagedMode\<close>; reaching the
  managed mode again through it recurses without end.
\<close>

fun run_alg :: "alg \<Rightarrow> scheduler \<Rightarrow> (allocations \<times> scheduler) result" where
  "run_alg FCFSMax_alg s = FCFSMax s"
| "run_alg FCFSMin_alg s = FCFSMin s"
| "run_alg FCFSAsManyAsPos_alg s = FCFSAsManyAsPos s"
| "run_alg SJTF_alg s = SJTF s"
| "run_alg Priority_alg s = Priority s"
| "run_alg ManagedMode_alg s = Inl Stack_Overflow"

definition schedule :: "nat \<Rightarrow> scheduler \<Rightarrow> (allocations option \<times> scheduler) result" where
  "schedule choice s =
     (if 0 < deque_size (resPool s) \<and> 0 < deque_size (readyQ s)
      then if choice < length (algVec s)
           then bindR (run_alg (algVec s ! choice) s) (\<lambda>(a, s'). Inr (Some a, s'))
           else Inl Out_Of_Bounds
      else Inr (None, s))"

definition score :: "allocations \<Rightarrow> scheduler \<Rightarrow> allocations result" where
  "score a s =
     bindR
       (if strat s = ''Completion Time''
        then if noJobs a = 0 \<or> fp_leq (makespan (job_at s) a) (Fin 0)
             then Inr (setScore 0 a)
             else (let q = deque_size (readyQ s); q_const = (if 0 < q then q else 1)
                   in bindR (fp_to_int
                        (fp_add (Fin (of_nat (q_const * noJobs a)))
                          (fp_div (Fin (of_nat (noJobs a))) (makespan (job_at s) a))))
                      (\<lambda>n. Inr (setScore n a)))
        else Inr a)
       (\<lambda>a. if strat s = ''Fairness''
             then bindR (fp_to_int (totalPriorities a)) (\<lambda>n. Inr (setScore n a))
             else Inr a)"

fun score_all :: "allocations list \<Rightarrow> scheduler \<Rightarrow> allocations list result" where
  "score_all [] s = Inr []"
| "score_all (a # as) s = bindR (score a s) (\<lambda>a'. bindR (score_all as s) (\<lambda>as'. Inr (a' # as')))"

fun select_loop :: "int \<Rightarrow> nat \<Rightarrow> nat \<Rightarrow> allocations list \<Rightarrow> nat" where
  "select_loop maxScore index i [] = index"
| "select_loop maxScore index i (x # xs) =
     (if maxScore \<le> score_of x then select_loop (score_of x) i (Suc i) xs
      else select_loop maxScore index (Suc i) xs)"

definition selectMaxScore :: "allocations list \<Rightarrow> allocations result" where
  "selectMaxScore as =
     (if as = [] then Inl Out_Of_Bounds
      else Inr (as ! select_loop (score_of (as ! 0)) 0 0 as))"

fun managed_loop :: "nat list \<Rightarrow> scheduler \<Rightarrow> allocations list \<Rightarrow> (allocations list \<times> scheduler) result" where
  "managed_loop [] s as = Inr (as, s)"
| "managed_loop (i # is) s as =
     bindR (schedule i s) (\<lambda>(ao, s'). case ao of
         None \<Rightarrow> Inl Null_Deref
       | Some a \<Rightarrow> managed_loop is (returnAllocation a s') (as @ [a]))"

definition ManagedMode :: "scheduler \<Rightarrow> (allocations \<times> scheduler) result" where
  "ManagedMode s =
     (if algVec s = [] then Inl Out_Of_Bounds
      else bindR (managed_loop [0..<length (algVec s) - 1] s []) (\<lambda>(as, s').
             bindR (score_all as s') (\<lambda>as'.
               bindR (selectMaxScore as') (\<lambda>a. Inr (a, s')))))"

section \<open>The contract of an algorithm\<close>

text \<open>
  A sound assignment for a scheduler state: the resources come out of the pool, no job
  is served twice, only jobs of the window are served, and no job gets more than its
  maximum.
\<close>

definition sound_allocation :: "scheduler \<Rightarrow> allocations \<Rightarrow> bool" where
  "sound_allocation s a \<longleftrightarrow>
     mset (held (ajobs a)) \<subseteq># mset (resPool s) \<and>
     distinct (map fst (ajobs a)) \<and>
     set (map fst (ajobs a)) \<subseteq> set (take (window s) (readyQ s)) \<and>
     (\<forall>p\<in>set (ajobs a). length (snd p) \<le> jmax (job_at s (fst p)))"

definition wf_jobs :: "scheduler \<Rightarrow> bool" where
  "wf_jobs s \<longleftrightarrow> 0 < window s \<and> distinct (readyQ s) \<and>
     (\<forall>p\<in>set (readyQ s). jmin (job_at s p) \<le> jmax (job_at s p))"

locale sched_alg =
  fixes run :: "scheduler \<Rightarrow> (allocations \<times> scheduler) result"
  assumes total: "wf_jobs s \<Longrightarrow> readyQ s \<noteq> [] \<Longrightarrow> \<exists>a s'. run s = Inr (a, s')"
    and conserve: "run s = Inr (a, s') \<Longrightarrow> mset (held (ajobs a)) + mset (resPool s') = mset (resPool s)"
    and frame: "run s = Inr (a, s') \<Longrightarrow> s' = s\<lparr>resPool := resPool s'\<rparr>"
    and picks: "wf_jobs s \<Longrightarrow> run s = Inr (a, s') \<Longrightarrow>
      distinct (map fst (ajobs a)) \<and> set (map fst (ajobs a)) \<subseteq> set (take (window s) (readyQ s))"
    and at_most_max: "wf_jobs s \<Longrightarrow> run s = Inr (a, s') \<Longrightarrow>
      \<forall>p\<in>set (ajobs a). length (snd p) \<le> jmax (job_at s (fst p))"
begin

lemma sound: "wf_jobs s \<Longrightarrow> run s = Inr (a, s') \<Longrightarrow> sound_allocation s a"
  using conserve [of s a s'] picks [of s a s'] at_most_max [of s a s']
  by (simp add: sound_allocation_def) (metis mset_subset_eq_add_left)

text \<open>Running the algorithm and giving the resources back only permutes the pool.\<close>

lemma tentative:
  assumes "run s = Inr (a, s')"
  shows "\<exists>pool. returnAllocation a s' = s\<lparr>resPool := pool\<rparr> \<and> mset pool = mset (resPool s)"
proof -
  have "returnAllocation a s' = s'\<lparr>resPool := resPool s' @ held (ajobs a)\<rparr>"
    by (rule returnAllocation_eq)
  also have "\<dots> = s\<lparr>resPool := resPool s' @ held (ajobs a)\<rparr>"
    by (subst frame [OF assms]) simp
  finally show ?thesis using conserve [OF assms] by (auto simp: union_commute)
qed

end

section \<open>FCFS meets the contract\<close>

text \<open>The index loop as a recursion over the jobs of the window.\<close>

fun fcfs_list :: "(job \<Rightarrow> nat) \<Rightarrow> (job \<Rightarrow> nat) \<Rightarrow> jref list \<Rightarrow> scheduler \<Rightarrow> allocations \<Rightarrow>
    allocations \<times> scheduler" where
  "fcfs_list mx mn [] s a = (a, s)"
| "fcfs_list mx mn (j # js) s a =
     (let (rs, s') = allocate (mx (job_at s j)) (mn (job_at s j)) s
      in if rs \<noteq> [] then fcfs_list mx mn js s' (addJobResourcePair j rs a) else (a, s'))"

lemma fcfs_loop_list:
  "fcfs_loop mx mn k i s a = Inr (fcfs_list mx mn (take k (drop i (readyQ s))) s a)"
proof (induction k arbitrary: i s a)
  case (Suc k)
  show ?case
  proof (cases "i < length (readyQ s)")
    case True
    obtain rs s' where al: "allocate (mx (job_at s (readyQ s ! i))) (mn (job_at s (readyQ s ! i))) s = (rs, s')"
      by (cases "allocate (mx (job_at s (readyQ s ! i))) (mn (job_at s (readyQ s ! i))) s")
    have s': "readyQ s' = readyQ s" using allocate_frame [OF al] by (metis scheduler.select_convs(4) scheduler.update_convs(1) scheduler.surjective)
    have "take (Suc k) (drop i (readyQ s)) = readyQ s ! i # take k (drop (Suc i) (readyQ s))"
      using True by (simp add: Cons_nth_drop_Suc [symmetric])
    with True al s' show ?thesis
      by (simp add: copyJobFromQ_def deque_at_def deque_size_def Suc.IH)
  qed (simp add: deque_size_def)
qed simp

lemma fcfs_list_frame: "fcfs_list mx mn js s a = (a', s') \<Longrightarrow> s' = s\<lparr>resPool := resPool s'\<rparr>"
proof (induction js arbitrary: s a)
  case (Cons j js)
  obtain rs s1 where al: "allocate (mx (job_at s j)) (mn (job_at s j)) s = (rs, s1)" by fastforce
  show ?case
  proof (cases "rs = []")
    case True
    with Cons.prems al allocate_frame [OF al] show ?thesis by simp
  next
    case False
    with Cons.prems al have "s' = s1\<lparr>resPool := resPool s'\<rparr>" by (auto dest: Cons.IH)
    then show ?thesis by (subst (asm) allocate_frame [OF al]) simp
  qed
qed simp

text \<open>
  What an FCFS run adds to the allocation: a prefix of the window, each job with a
  non-empty share of at most its \<open>mx\<close> resources.
\<close>

lemma fcfs_list_spec:
  assumes "fcfs_list mx mn js s a = (a', s')"
  shows "\<exists>ps. ajobs a' = ajobs a @ ps \<and> score_of a' = score_of a \<and>
     map fst ps = take (length ps) js \<and>
     mset (held ps) + mset (resPool s') = mset (resPool s) \<and>
     (\<forall>p\<in>set ps. snd p \<noteq> [] \<and> length (snd p) \<le> mx (job_at s (fst p)))"
  using assms
proof (induction js arbitrary: s a)
  case (Cons j js)
  obtain rs s1 where al: "allocate (mx (job_at s j)) (mn (job_at s j)) s = (rs, s1)" by fastforce
  note pool = allocate_contents [OF al]
  have jobs: "jobs s1 = jobs s" by (subst allocate_frame [OF al]) simp
  show ?case
  proof (cases "rs = []")
    case True
    with Cons.prems al pool show ?thesis by (intro exI [of _ "[]"]) simp
  next
    case False
    with Cons.prems al have "fcfs_list mx mn js s1 (addJobResourcePair j rs a) = (a', s')" by simp
    from Cons.IH [OF this] obtain ps where ps:
      "ajobs a' = ajobs a @ (j, rs) # ps" "score_of a' = score_of a"
      "map fst ps = take (length ps) js"
      "mset (held ps) + mset (resPool s') = mset (resPool s1)"
      "\<forall>p\<in>set ps. snd p \<noteq> [] \<and> length (snd p) \<le> mx (job_at s (fst p))"
      by (auto simp: jobs)
    moreover have "length rs \<le> mx (job_at s j)"
      using allocate_length [OF al] by (simp split: if_splits)
    moreover have "mset (held ((j, rs) # ps)) + mset (resPool s') = mset (resPool s)"
      using ps(4) pool by (simp add: union_assoc)
    ultimately show ?thesis using False
      by (intro exI [of _ "(j, rs) # ps"]) simp
  qed
qed simp

lemma fcfs_run_spec:
  assumes "fcfs_loop mx mn (window s) 0 s Allocations_new = Inr (a, s')"
  shows "s' = s\<lparr>resPool := resPool s'\<rparr>"
    and "mset (held (ajobs a)) + mset (resPool s') = mset (resPool s)"
    and "map fst (ajobs a) = take (length (ajobs a)) (take (window s) (readyQ s))"
    and "\<forall>p\<in>set (ajobs a). snd p \<noteq> [] \<and> length (snd p) \<le> mx (job_at s (fst p))"
proof -
  from assms have l: "fcfs_list mx mn (take (window s) (readyQ s)) s Allocations_new = (a, s')"
    by (simp add: fcfs_loop_list)
  from fcfs_list_frame [OF l] show "s' = s\<lparr>resPool := resPool s'\<rparr>" .
  from fcfs_list_spec [OF l] obtain ps where
    "ajobs a = ps" "map fst ps = take (length ps) (take (window s) (readyQ s))"
    "mset (held ps) + mset (resPool s') = mset (resPool s)"
    "\<forall>p\<in>set ps. snd p \<noteq> [] \<and> length (snd p) \<le> mx (job_at s (fst p))"
    by auto
  then show "mset (held (ajobs a)) + mset (resPool s') = mset (resPool s)"
    and "map fst (ajobs a) = take (length (ajobs a)) (take (window s) (readyQ s))"
    and "\<forall>p\<in>set (ajobs a). snd p \<noteq> [] \<and> length (snd p) \<le> mx (job_at s (fst p))"
    by simp_all
qed

lemma fcfs_sched_alg:
  assumes mx: "\<And>j. jmin j \<le> jmax j \<Longrightarrow> mx j \<le> jmax j"
  shows "sched_alg (\<lambda>s. fcfs_loop mx mn (window s) 0 s Allocations_new)"
proof (unfold_locales, goal_cases)
  case (1 s)
  then show ?case by (metis fcfs_loop_list prod.exhaust)
next
  case (2 s a s')
  then show ?case by (rule fcfs_run_spec(2))
next
  case (3 s a s')
  then show ?case by (rule fcfs_run_spec(1))
next
  case (4 s a s')
  from fcfs_run_spec(3) [OF 4(2)] 4(1) show ?case
    unfolding wf_jobs_def by (metis distinct_take set_take_subset)
next
  case (5 s a s')
  have "fst p \<in> set (readyQ s)" if "p \<in> set (ajobs a)" for p
    using that fcfs_run_spec(3) [OF 5(2)] by (metis image_eqI in_set_takeD list.set_map)
  with fcfs_run_spec(4) [OF 5(2)] 5(1) mx show ?case
    unfolding wf_jobs_def by (meson order_trans)
qed

interpretation fcfs_min: sched_alg FCFSMin
  unfolding FCFSMin_def [abs_def] by (rule fcfs_sched_alg) simp

interpretation fcfs_max: sched_alg FCFSMax
  unfolding FCFSMax_def [abs_def] by (rule fcfs_sched_alg) simp

interpretation fcfs_amap: sched_alg FCFSAsManyAsPos
  unfolding FCFSAsManyAsPos_def [abs_def] by (rule fcfs_sched_alg) simp

section \<open>Priority and SJTF meet the contract\<close>

lemma greedy_loop_spec:
  assumes "greedy_loop pick need live s a = (a', s')"
  shows "s' = s\<lparr>resPool := resPool s'\<rparr> \<and> (\<exists>ps. ajobs a' = ajobs a @ ps \<and> score_of a' = score_of a \<and>
     mset (held ps) + mset (resPool s') = mset (resPool s) \<and>
     distinct (map fst ps) \<and> set (map fst ps) \<subseteq> set live \<and>
     (\<forall>p\<in>set ps. length (snd p) = jmax (job_at s (fst p)) \<or> snd p = []))"
  using assms
proof (induction pick need live s a rule: greedy_loop.induct)
  case (1 pick need live s a)
  let ?e = "live ! pick live"
  show ?case
  proof (cases "pick live < length live \<and> need (job_at s ?e) < deque_size (resPool s)")
    case False
    with "1.prems" have "a' = a" "s' = s" by (auto simp: greedy_loop.simps [of _ _ live])
    then show ?thesis by simp
  next
    case True
    obtain rs s1 where al: "allocate (jmax (job_at s ?e)) (jmax (job_at s ?e)) s = (rs, s1)" by fastforce
    note fr = allocate_frame [OF al] and pool = allocate_contents [OF al]
    have jobs: "jobs s1 = jobs s" by (subst fr) simp
    from "1.prems" True al have
      "greedy_loop pick need (removeAll ?e live) s1 (addJobResourcePair ?e rs a) = (a', s')"
      by (simp add: greedy_loop.simps [of _ _ live] Let_def)
    from "1.IH" [OF refl refl True al [symmetric] refl this] obtain ps where ps:
      "s' = s1\<lparr>resPool := resPool s'\<rparr>"
      "ajobs a' = ajobs a @ (?e, rs) # ps" "score_of a' = score_of a"
      "mset (held ps) + mset (resPool s') = mset (resPool s1)" "distinct (map fst ps)"
      "set (map fst ps) \<subseteq> set live - {?e}"
      "\<forall>p\<in>set ps. length (snd p) = jmax (job_at s (fst p)) \<or> snd p = []"
      by (auto simp: jobs)
    have "s' = s\<lparr>resPool := resPool s'\<rparr>" using ps(1) by (subst (asm) fr) simp
    moreover have "length rs = jmax (job_at s ?e) \<or> rs = []"
      using allocate_length [OF al] by (simp split: if_splits)
    moreover have "mset (held ((?e, rs) # ps)) + mset (resPool s') = mset (resPool s)"
      using ps(4) pool by (simp add: union_assoc)
    moreover have "?e \<in> set live" using True by simp
    ultimately show ?thesis using ps
      by (intro conjI exI [of _ "(?e, rs) # ps"]) auto
  qed
qed

lemma job_window_eq: "job_window s = take (window s) (readyQ s)"
  by (rule nth_equalityI) (simp_all add: job_window_def deque_size_def)

lemma job_window_nonempty: "0 < window s \<Longrightarrow> readyQ s \<noteq> [] \<Longrightarrow> job_window s \<noteq> []"
  by (simp add: job_window_eq)

lemma std_sort_eq_Nil [simp]: "std_sort lt xs = [] \<longleftrightarrow> xs = []"
  by (metis length_0_conv length_std_sort)

text \<open>What a run of either algorithm hands out.\<close>

lemma greedy_run_spec:
  assumes "greedy_loop pick need (std_sort lt (job_window s)) s Allocations_new = (a, s')"
  shows "s' = s\<lparr>resPool := resPool s'\<rparr>"
    and "mset (held (ajobs a)) + mset (resPool s') = mset (resPool s)"
    and "distinct (map fst (ajobs a))"
    and "set (map fst (ajobs a)) \<subseteq> set (take (window s) (readyQ s))"
    and "\<forall>p\<in>set (ajobs a). length (snd p) = jmax (job_at s (fst p)) \<or> snd p = []"
  using greedy_loop_spec [OF assms] by (auto simp: job_window_eq)

lemma Priority_greedy:
  "Priority s = Inr (a, s') \<Longrightarrow>
     greedy_loop (max_element (sortByPriority s)) jmax (std_sort (sortByPriority s) (job_window s))
       s Allocations_new = (a, s')"
  by (simp add: Priority_def Let_def split: if_splits)

lemma SJTF_greedy:
  "SJTF s = Inr (a, s') \<Longrightarrow> readyQ s \<noteq> [] \<Longrightarrow>
     greedy_loop (min_element (sortByMin s)) jmin (std_sort (sortByTime s) (job_window s))
       s Allocations_new = (a, s')"
  by (simp add: SJTF_def Let_def deque_size_def split: if_splits)

lemma SJTF_empty: "SJTF s = Inr (a, s') \<Longrightarrow> readyQ s = [] \<Longrightarrow> a = Allocations_new \<and> s' = s"
  by (simp add: SJTF_def deque_size_def)

interpretation priority: sched_alg Priority
proof (unfold_locales, goal_cases)
  case (1 s)
  then show ?case
    by (simp add: Priority_def Let_def wf_jobs_def job_window_nonempty)
next
  case (2 s a s')
  then show ?case by (rule greedy_run_spec(2) [OF Priority_greedy])
next
  case (3 s a s')
  then show ?case by (rule greedy_run_spec(1) [OF Priority_greedy])
next
  case (4 s a s')
  then show ?case using greedy_run_spec(3,4) [OF Priority_greedy] by blast
next
  case (5 s a s')
  then show ?case using greedy_run_spec(5) [OF Priority_greedy] by fastforce
qed

interpretation sjtf: sched_alg SJTF
proof (unfold_locales, goal_cases)
  case (1 s)
  then show ?case
    by (simp add: SJTF_def Let_def wf_jobs_def job_window_nonempty)
next
  case (2 s a s')
  then show ?case using greedy_run_spec(2) [OF SJTF_greedy] SJTF_empty [OF 2] by fastforce
next
  case (3 s a s')
  then show ?case using greedy_run_spec(1) [OF SJTF_greedy] SJTF_empty [OF 3] by fastforce
next
  case (4 s a s')
  then show ?case using greedy_run_spec(3,4) [OF SJTF_greedy [OF 4(2)]] SJTF_empty [OF 4(2)] by fastforce
next
  case (5 s a s')
  then show ?case using greedy_run_spec(5) [OF SJTF_greedy [OF 5(2)]] SJTF_empty [OF 5(2)] by fastforce
qed

text \<open>Every algorithm that \<open>run_alg\<close> can run without recursing meets the contract.\<close>

lemma run_alg_sched_alg: "g \<noteq> ManagedMode_alg \<Longrightarrow> sched_alg (run_alg g)"
  by (cases g)
    (simp_all add: fcfs_min.sched_alg_axioms fcfs_max.sched_alg_axioms
      fcfs_amap.sched_alg_axioms sjtf.sched_alg_axioms priority.sched_alg_axioms
      run_alg.simps [abs_def])

end
