(* ===== verification/Managed_Mode.thy ===== *)
theory Managed_Mode
  imports Algs
begin

text \<open>
  What the managed mode guarantees: it always finds a schedule when there is a job and a
  resource, the schedule is sound, the pool keeps its content, the schedule has the best
  score, and, with positive predicted times, it serves at least one job.
\<close>

section \<open>schedule and the loop over the algorithms\<close>

lemma wf_jobs_pool [simp]: "wf_jobs (s\<lparr>resPool := pool\<rparr>) = wf_jobs s"
  by (simp add: wf_jobs_def)

lemma sound_allocation_pool:
  "mset pool = mset (resPool s) \<Longrightarrow> sound_allocation (s\<lparr>resPool := pool\<rparr>) a = sound_allocation s a"
  by (simp add: sound_allocation_def)

lemma mset_eq_Nil: "mset xs = mset ys \<Longrightarrow> xs = [] \<longleftrightarrow> ys = []"
  by auto

text \<open>
  \<open>ran_as s i a\<close>: the allocation \<open>a\<close> is what the \<open>i\<close>-th algorithm returns on \<open>s\<close>, up
  to the order of the pool.
\<close>

definition ran_as :: "scheduler \<Rightarrow> nat \<Rightarrow> allocations \<Rightarrow> bool" where
  "ran_as s i a \<longleftrightarrow> (\<exists>pool s'. mset pool = mset (resPool s) \<and>
     run_alg (algVec s ! i) (s\<lparr>resPool := pool\<rparr>) = Inr (a, s'))"

lemma ran_as_sound:
  assumes "ran_as s i a" and "wf_jobs s" and "algVec s ! i \<noteq> ManagedMode_alg"
  shows "sound_allocation s a"
  using assms sched_alg.sound [OF run_alg_sched_alg [OF assms(3)]] sound_allocation_pool
  unfolding ran_as_def by (metis wf_jobs_pool)

definition ready_to_schedule :: "scheduler \<Rightarrow> bool" where
  "ready_to_schedule s \<longleftrightarrow> wf_jobs s \<and> readyQ s \<noteq> [] \<and> resPool s \<noteq> [] \<and>
     2 \<le> length (algVec s) \<and> ManagedMode_alg \<notin> set (butlast (algVec s))"

lemma schedule_ok:
  assumes "wf_jobs s" "readyQ s \<noteq> []" "resPool s \<noteq> []" "i < length (algVec s)"
    and "algVec s ! i \<noteq> ManagedMode_alg"
  obtains a s' where "schedule i s = Inr (Some a, s')" "run_alg (algVec s ! i) s = Inr (a, s')"
  using sched_alg.total [OF run_alg_sched_alg [OF assms(5)] assms(1,2)] assms
  by (auto simp: schedule_def deque_size_def)

lemma managed_loop_ok:
  assumes "wf_jobs s" "readyQ s \<noteq> []" "resPool s \<noteq> []"
    and "\<forall>i\<in>set is. i < length (algVec s) \<and> algVec s ! i \<noteq> ManagedMode_alg"
  shows "\<exists>bs pool. managed_loop is s as = Inr (as @ bs, s\<lparr>resPool := pool\<rparr>) \<and>
     mset pool = mset (resPool s) \<and> list_all2 (ran_as s) is bs"
  using assms
proof (induction "is" arbitrary: s as)
  case Nil
  then show ?case by (intro exI [of _ "[]"] exI [of _ "resPool s"]) simp
next
  case (Cons i "is")
  have i: "i < length (algVec s)" "algVec s ! i \<noteq> ManagedMode_alg" using Cons.prems(4) by auto
  obtain a s1 where sch: "schedule i s = Inr (Some a, s1)" and run: "run_alg (algVec s ! i) s = Inr (a, s1)"
    using schedule_ok [OF Cons.prems(1-3) i] by blast
  obtain p1 where p1: "returnAllocation a s1 = s\<lparr>resPool := p1\<rparr>" "mset p1 = mset (resPool s)"
    using sched_alg.tentative [OF run_alg_sched_alg [OF i(2)] run] by blast
  let ?s = "s\<lparr>resPool := p1\<rparr>"
  have ran: "ran_as ?s = ran_as s" using p1(2) by (simp add: ran_as_def fun_eq_iff)
  have "p1 \<noteq> []" using mset_eq_Nil [OF p1(2)] Cons.prems(3) by simp
  then obtain bs pool where bs: "managed_loop is ?s (as @ [a]) = Inr ((as @ [a]) @ bs, ?s\<lparr>resPool := pool\<rparr>)"
    "mset pool = mset (resPool ?s)" "list_all2 (ran_as ?s) is bs"
    using Cons.IH [of ?s "as @ [a]"] Cons.prems by auto
  have "ran_as s i a" using run unfolding ran_as_def by (metis scheduler.surjective scheduler.update_convs(1))
  with bs sch p1 ran show ?case by (intro exI [of _ "a # bs"] exI [of _ pool]) simp
qed

lemma score_ajobs: "score a s = Inr a' \<Longrightarrow> ajobs a' = ajobs a"
  by (auto simp: score_def bindR_eq_Inr Let_def split: if_splits)

lemma score_pool: "score a (s\<lparr>resPool := pool\<rparr>) = score a s"
  by (simp add: score_def)

lemma score_all_Inr:
  "score_all as s = Inr as' \<longleftrightarrow> list_all2 (\<lambda>a a'. score a s = Inr a') as as'"
  by (induction as arbitrary: as') (auto simp: bindR_eq_Inr list_all2_Cons1)

lemma score_all_total:
  "\<forall>a\<in>set as. \<exists>a'. score a s = Inr a' \<Longrightarrow> \<exists>as'. score_all as s = Inr as'"
  by (induction as) fastforce+

section \<open>The choice of the best score\<close>

lemma select_loop_last_max:
  assumes "idx < length pre \<or> (pre = [] \<and> idx = 0 \<and> xs \<noteq> [] \<and> m = score_of (hd xs))"
    and "pre \<noteq> [] \<Longrightarrow> m = score_of (pre ! idx)"
    and "\<forall>x\<in>set pre. score_of x \<le> m"
    and "\<forall>j. idx < j \<longrightarrow> j < length pre \<longrightarrow> score_of (pre ! j) < m"
    and "r = select_loop m idx (length pre) xs"
  shows "r < length (pre @ xs) \<and> (\<forall>x\<in>set (pre @ xs). score_of x \<le> score_of ((pre @ xs) ! r)) \<and>
    (\<forall>j. r < j \<longrightarrow> j < length (pre @ xs) \<longrightarrow> score_of ((pre @ xs) ! j) < score_of ((pre @ xs) ! r))"
  using assms
proof (induction xs arbitrary: pre idx m)
  case Nil
  then have "pre \<noteq> []" by auto
  with Nil show ?case by auto
next
  case (Cons x xs)
  have app: "pre @ x # xs = (pre @ [x]) @ xs" by simp
  show ?case
  proof (cases "m \<le> score_of x")
    case True
    show ?thesis unfolding app
      by (rule Cons.IH [of "length pre" "pre @ [x]" "score_of x"])
        (use Cons.prems True in \<open>auto intro: order_trans\<close>)
  next
    case False
    then have ne: "pre \<noteq> []" using Cons.prems(1) by auto
    with False Cons.prems show ?thesis unfolding app
      by (intro Cons.IH [of idx "pre @ [x]" m]) (auto simp: nth_append less_Suc_eq)
  qed
qed

lemma selectMaxScore_spec:
  assumes "selectMaxScore as = Inr a"
  obtains r where "r < length as" "a = as ! r" "\<forall>x\<in>set as. score_of x \<le> score_of a"
    "\<forall>j. r < j \<longrightarrow> j < length as \<longrightarrow> score_of (as ! j) < score_of a"
proof -
  from assms have ne: "as \<noteq> []" and a: "a = as ! select_loop (score_of (as ! 0)) 0 0 as"
    by (auto simp: selectMaxScore_def split: if_splits)
  have "\<And>r. r = select_loop (score_of (as ! 0)) 0 0 as \<Longrightarrow> r < length as \<and>
    (\<forall>x\<in>set as. score_of x \<le> score_of (as ! r)) \<and>
    (\<forall>j. r < j \<longrightarrow> j < length as \<longrightarrow> score_of (as ! j) < score_of (as ! r))"
    using select_loop_last_max [of 0 "[]" as "score_of (as ! 0)"] ne by (simp add: hd_conv_nth)
  with a that show thesis by blast
qed

section \<open>ManagedMode\<close>

text \<open>The candidates of one round: one scored allocation per algorithm, in registration order.\<close>

definition candidates :: "scheduler \<Rightarrow> allocations list \<Rightarrow> bool" where
  "candidates s cs \<longleftrightarrow> length cs = length (algVec s) - 1 \<and>
     (\<forall>i<length cs. \<exists>b. ran_as s i b \<and> score b s = Inr (cs ! i))"

lemma not_managed_butlast:
  "ready_to_schedule s \<Longrightarrow> i < length (algVec s) - 1 \<Longrightarrow> algVec s ! i \<noteq> ManagedMode_alg"
  unfolding ready_to_schedule_def by (metis length_butlast nth_butlast nth_mem)

lemma managed_loop_run:
  assumes "ready_to_schedule s"
  obtains as pool where
    "managed_loop [0..<length (algVec s) - 1] s [] = Inr (as, s\<lparr>resPool := pool\<rparr>)"
    "mset pool = mset (resPool s)" "list_all2 (ran_as s) [0..<length (algVec s) - 1] as"
proof -
  have "\<forall>i\<in>set [0..<length (algVec s) - 1]. i < length (algVec s) \<and> algVec s ! i \<noteq> ManagedMode_alg"
    using not_managed_butlast [OF assms] by auto
  with assms managed_loop_ok [of s "[0..<length (algVec s) - 1]" "[]"] that show thesis
    unfolding ready_to_schedule_def by auto
qed

lemma ManagedMode_spec:
  assumes "ready_to_schedule s" and "ManagedMode s = Inr (a, s')"
  obtains cs r pool where "candidates s cs" "r < length cs" "a = cs ! r"
    "\<forall>c\<in>set cs. score_of c \<le> score_of a"
    "\<forall>j. r < j \<longrightarrow> j < length cs \<longrightarrow> score_of (cs ! j) < score_of a"
    "s' = s\<lparr>resPool := pool\<rparr>" "mset pool = mset (resPool s)"
proof -
  obtain as pool where run: "managed_loop [0..<length (algVec s) - 1] s [] = Inr (as, s\<lparr>resPool := pool\<rparr>)"
    and pool: "mset pool = mset (resPool s)" and as: "list_all2 (ran_as s) [0..<length (algVec s) - 1] as"
    using managed_loop_run [OF assms(1)] by blast
  have "algVec s \<noteq> []" using assms(1) by (auto simp: ready_to_schedule_def)
  with assms(2) run obtain cs where cs: "score_all as (s\<lparr>resPool := pool\<rparr>) = Inr cs"
    and sel: "selectMaxScore cs = Inr a" and s': "s' = s\<lparr>resPool := pool\<rparr>"
    by (auto simp: ManagedMode_def bindR_eq_Inr)
  from cs have sc: "list_all2 (\<lambda>a a'. score a s = Inr a') as cs"
    by (simp add: score_all_Inr score_pool)
  have "candidates s cs"
    using as sc unfolding candidates_def by (fastforce simp: list_all2_conv_all_nth)
  with sel s' pool that show thesis by (elim selectMaxScore_spec) blast
qed

lemma candidate_sound:
  assumes "ready_to_schedule s" "candidates s cs" "i < length cs"
  shows "sound_allocation s (cs ! i)"
proof -
  obtain b where b: "ran_as s i b" "score b s = Inr (cs ! i)"
    using assms(2,3) by (auto simp: candidates_def)
  have "algVec s ! i \<noteq> ManagedMode_alg"
    using not_managed_butlast [OF assms(1)] assms(2,3) by (simp add: candidates_def)
  then have "sound_allocation s b"
    using ran_as_sound [OF b(1)] assms(1) by (simp add: ready_to_schedule_def)
  with score_ajobs [OF b(2)] show ?thesis by (simp add: sound_allocation_def)
qed

section \<open>Scores\<close>

lemma foldl_cost_PInf:
  assumes "\<forall>p\<in>set ps. cost jh p = PInf \<or> (\<exists>x. cost jh p = Fin x)"
  shows "foldl (\<lambda>sum it. fp_add sum (cost jh it)) PInf ps = PInf"
  using assms by (induction ps) auto

lemma foldl_cost_reaches_PInf:
  assumes "\<forall>p\<in>set ps. cost jh p = PInf \<or> (\<exists>x. cost jh p = Fin x)" and "\<exists>p\<in>set ps. cost jh p = PInf"
  shows "foldl (\<lambda>sum it. fp_add sum (cost jh it)) (Fin x) ps = PInf"
  using assms
proof (induction ps arbitrary: x)
  case (Cons p ps)
  show ?case
  proof (cases "cost jh p = PInf")
    case True
    with Cons.prems(1) show ?thesis by (simp add: foldl_cost_PInf)
  next
    case False
    with Cons.prems(1) obtain y where "cost jh p = Fin y" by auto
    with False Cons show ?thesis by simp
  qed
qed simp

lemma cost_cases:
  assumes "0 < predictedTime (jh (fst p))"
  shows "cost jh p = (if snd p = [] then PInf else Fin (fin_cost jh p))"
  using assms cost_fin [of p jh]
  by (cases "cost_func (jh (fst p))") (auto simp: cost_def getDefaultJobTime_def)

text \<open>
  With positive predicted times the makespan is the finite sum of the jobs' times, or
  infinite when some job was given no resource.
\<close>

lemma makespan_cases:
  assumes "\<forall>p\<in>set (ajobs a). 0 < predictedTime (jh (fst p))"
  shows "makespan jh a = PInf \<or>
    (\<forall>p\<in>set (ajobs a). snd p \<noteq> []) \<and> makespan jh a = Fin (\<Sum>p\<leftarrow>ajobs a. fin_cost jh p)"
proof (cases "\<forall>p\<in>set (ajobs a). snd p \<noteq> []")
  case True
  then show ?thesis by (simp add: makespan_fin)
next
  case False
  then obtain p where "p \<in> set (ajobs a)" "snd p = []" by blast
  with assms have "\<exists>p\<in>set (ajobs a). cost jh p = PInf" using cost_cases [of jh] by auto
  moreover have "\<forall>p\<in>set (ajobs a). cost jh p = PInf \<or> (\<exists>x. cost jh p = Fin x)"
    using assms cost_cases [of jh] by auto
  ultimately show ?thesis
    unfolding makespan_def by (simp add: foldl_cost_reaches_PInf)
qed

lemma sum_list_lower:
  fixes f :: "'a \<Rightarrow> rat"
  assumes "\<forall>x\<in>set xs. c \<le> f x"
  shows "of_nat (length xs) * c \<le> (\<Sum>x\<leftarrow>xs. f x)"
  using assms by (induction xs) (auto simp: algebra_simps intro: add_mono)

text \<open>
  The assumption under which scores stay small: predicted times of at least a
  millisecond (the unit of the request field), the limits of \<open>Job::Job\<close>, and a ready
  queue of at most a million jobs. Scores are then integers below \<open>2 ^ 24\<close>, which fit an
  \<open>int\<close> and are exact in a \<open>float\<close>.
\<close>

definition scorable :: "scheduler \<Rightarrow> bool" where
  "scorable s \<longleftrightarrow> strat s = ''Completion Time'' \<and> window s \<le> 5 \<and>
     length (readyQ s) \<le> 10 ^ 6 \<and>
     (\<forall>p\<in>set (readyQ s). 1 / 1000 \<le> predictedTime (job_at s p) \<and> jmin (job_at s p) = 1 \<and>
        jmax (job_at s p) = 4)"

lemma ratio_bounds:
  assumes "0 < (n :: nat)" and "of_nat n * (1 / 4000) \<le> (M :: rat)"
  shows "0 \<le> of_nat n / M" and "of_nat n / M \<le> 4000"
proof -
  have "0 < of_nat n * (1 / 4000 :: rat)" using assms(1) by simp
  then have M: "0 < M" using assms(2) by (rule less_le_trans)
  then show "0 \<le> of_nat n / M" by simp
  from M assms(2) show "of_nat n / M \<le> 4000" by (simp add: field_simps)
qed

lemma fp_to_int_score:
  assumes "0 \<le> x" and "x \<le> 4000" and "k \<le> 5 * 10 ^ 6"
  shows "fp_to_int (Fin (of_nat k + x)) = Inr (int k + \<lfloor>x\<rfloor>)"
proof -
  have t: "rat_trunc (of_nat k + x) = int k + \<lfloor>x\<rfloor>"
    using rat_trunc_of_int_add [of "int k" x] assms(1) by simp
  have "0 \<le> \<lfloor>x\<rfloor>" "\<lfloor>x\<rfloor> \<le> 4000" using assms by (simp_all add: floor_le_iff)
  moreover have "int k \<le> 500000000" using assms(3) by simp
  ultimately have "- 2147483648 \<le> int k + \<lfloor>x\<rfloor> \<and> int k + \<lfloor>x\<rfloor> < 2147483648" by linarith
  with t show ?thesis by simp
qed

lemma score_value:
  assumes "scorable s" and "readyQ s \<noteq> []" and "sound_allocation s a"
  obtains x :: rat where "0 \<le> x"
    "score a s = Inr (setScore (if noJobs a = 0 then 0 else int (length (readyQ s) * noJobs a) + \<lfloor>x\<rfloor>) a)"
proof (cases "noJobs a = 0")
  case True
  with assms(1) show thesis by (intro that [of 0]) (simp_all add: score_def scorable_def)
next
  case False
  let ?n = "noJobs a" and ?q = "length (readyQ s)" and ?M = "makespan (job_at s) a"
  have ready: "\<forall>p\<in>set (ajobs a). fst p \<in> set (readyQ s)"
    using assms(3) set_take_subset [of "window s" "readyQ s"] by (auto simp: sound_allocation_def)
  have pred: "\<forall>p\<in>set (ajobs a). 1 / 1000 \<le> predictedTime (job_at s (fst p))"
    and four: "\<forall>p\<in>set (ajobs a). length (snd p) \<le> 4"
    using ready assms(1,3) by (auto simp: scorable_def sound_allocation_def)
  have len: "length (ajobs a) \<le> 5"
  proof -
    have "length (ajobs a) = card (set (map fst (ajobs a)))"
      using assms(3) distinct_card [of "map fst (ajobs a)"] by (simp add: sound_allocation_def)
    also have "\<dots> \<le> card (set (take (window s) (readyQ s)))"
      using assms(3) by (intro card_mono) (simp_all add: sound_allocation_def)
    also have "\<dots> \<le> length (take (window s) (readyQ s))" by (rule card_length)
    also have "\<dots> \<le> 5" using assms(1) by (auto simp: scorable_def min_def)
    finally show ?thesis .
  qed
  have n5: "?n \<le> 5" using len by (simp add: noJobs_eq) (meson length_filter_le order_trans)
  have k: "?q * ?n \<le> 5 * 10 ^ 6"
    using mult_le_mono [of ?q "10 ^ 6" ?n 5] n5 assms(1) by (simp add: scorable_def)
  have "0 < predictedTime (job_at s (fst p))" if "p \<in> set (ajobs a)" for p
    by (rule less_le_trans [of 0 "1 / 1000"]) (use pred that in simp_all)
  then consider (inf) "?M = PInf"
    | (fin) "\<forall>p\<in>set (ajobs a). snd p \<noteq> []" "?M = Fin (\<Sum>p\<leftarrow>ajobs a. fin_cost (job_at s) p)"
    using makespan_cases [of a "job_at s"] by blast
  then show thesis
  proof cases
    case inf
    have "fp_to_int (Fin (of_nat (?q * ?n) + 0)) = Inr (int (?q * ?n) + \<lfloor>0 :: rat\<rfloor>)"
      by (rule fp_to_int_score) (use k in simp_all)
    with inf False assms(1,2) show thesis
      by (intro that [of 0]) (simp_all add: score_def scorable_def deque_size_def)
  next
    case fin
    let ?S = "\<Sum>p\<leftarrow>ajobs a. fin_cost (job_at s) p"
    have "1 / 4000 \<le> fin_cost (job_at s) p" if "p \<in> set (ajobs a)" for p
    proof -
      have l: "0 < length (snd p)" "length (snd p) \<le> 4" using fin(1) four that by auto
      have "(1 / 1000) / 4 \<le> predictedTime (job_at s (fst p)) / of_nat (length (snd p))"
        using pred that l by (intro frac_le) (auto intro: order_trans [of _ "1 / 1000"])
      then show ?thesis by (simp add: fin_cost_def)
    qed
    then have S: "of_nat (length (ajobs a)) * (1 / 4000) \<le> ?S" by (intro sum_list_lower) blast
    have nl: "?n = length (ajobs a)" using fin(1) by (simp add: noJobs_eq filter_id_conv)
    note r = ratio_bounds [OF _ S [folded nl]]
    have "0 < of_nat (length (ajobs a)) * (1 / 4000 :: rat)" using False nl by simp
    then have pos: "0 < ?S" using S by (rule less_le_trans)
    have "fp_to_int (Fin (of_nat (?q * ?n) + of_nat ?n / ?S)) = Inr (int (?q * ?n) + \<lfloor>of_nat ?n / ?S\<rfloor>)"
      by (rule fp_to_int_score) (use r False k in simp_all)
    with fin False assms(1,2) pos r show thesis
      by (intro that [of "of_nat ?n / ?S"]) (simp_all add: score_def scorable_def deque_size_def)
  qed
qed

section \<open>Totality and progress\<close>

lemma ManagedMode_total:
  assumes "ready_to_schedule s" and "scorable s"
  shows "\<exists>a s'. ManagedMode s = Inr (a, s')"
proof -
  obtain as pool where run: "managed_loop [0..<length (algVec s) - 1] s [] = Inr (as, s\<lparr>resPool := pool\<rparr>)"
    and as: "list_all2 (ran_as s) [0..<length (algVec s) - 1] as"
    using managed_loop_run [OF assms(1)] by blast
  have ne: "readyQ s \<noteq> []" "algVec s \<noteq> []" and len: "2 \<le> length (algVec s)"
    using assms(1) by (auto simp: ready_to_schedule_def)
  have "\<exists>a'. score a s = Inr a'" if "a \<in> set as" for a
  proof -
    from that as obtain i where "i < length (algVec s) - 1" "ran_as s i a"
      by (auto simp: list_all2_conv_all_nth in_set_conv_nth)
    then have "sound_allocation s a"
      using ran_as_sound not_managed_butlast [OF assms(1)] assms(1) by (auto simp: ready_to_schedule_def)
    then show ?thesis using score_value [OF assms(2) ne(1)] by metis
  qed
  then obtain cs where cs: "score_all as s = Inr cs" using score_all_total by blast
  have "length cs = length as" using cs by (auto simp: score_all_Inr dest: list_all2_lengthD)
  then have "cs \<noteq> []" using as len by (auto dest: list_all2_lengthD)
  then obtain a where "selectMaxScore cs = Inr a" by (auto simp: selectMaxScore_def)
  moreover have "score_all as (s\<lparr>resPool := pool\<rparr>) = Inr cs"
    using cs by (simp add: score_all_Inr score_pool)
  ultimately show ?thesis using run ne by (simp add: ManagedMode_def)
qed

text \<open>The minimal FCFS serves the head of the ready queue whenever its minimum is in the pool.\<close>

lemma FCFSMin_serves_head:
  assumes "FCFSMin s = Inr (a, s')" and "0 < window s" and "readyQ s = j # js"
    and "0 < jmin (job_at s j)" and "jmin (job_at s j) \<le> length (resPool s)"
  shows "0 < noJobs a"
proof -
  let ?m = "jmin (job_at s j)"
  obtain rs s1 where al: "allocate ?m ?m s = (rs, s1)" by fastforce
  have rs: "rs \<noteq> []" using allocate_length [OF al] assms(4,5) by auto
  obtain w where w: "window s = Suc w" using assms(2) gr0_implies_Suc by blast
  have "fcfs_list jmin jmin (take w js) s1 (addJobResourcePair j rs Allocations_new) = (a, s')"
    using assms(1,3) w al rs by (simp add: FCFSMin_def fcfs_loop_list)
  from fcfs_list_spec [OF this] have "(j, rs) \<in> set (ajobs a)" by auto
  with rs show ?thesis by (force simp: noJobs_eq filter_empty_conv)
qed

lemma ran_as_FCFSMin_serves:
  assumes "ran_as s i b" "algVec s ! i = FCFSMin_alg" "ready_to_schedule s" "scorable s"
  shows "0 < noJobs b"
proof -
  obtain pool s' where p: "mset pool = mset (resPool s)" "FCFSMin (s\<lparr>resPool := pool\<rparr>) = Inr (b, s')"
    using assms(1,2) by (auto simp: ran_as_def)
  obtain j js where j: "readyQ s = j # js"
    using assms(3) by (auto simp: ready_to_schedule_def neq_Nil_conv)
  have "pool \<noteq> []" using mset_eq_Nil [OF p(1)] assms(3) by (simp add: ready_to_schedule_def)
  moreover have "jmin (job_at s j) = 1" using assms(4) j by (simp add: scorable_def)
  moreover have "0 < window s" using assms(3) by (simp add: ready_to_schedule_def wf_jobs_def)
  ultimately show ?thesis
    using FCFSMin_serves_head [OF p(2), of j js] j by (simp add: Suc_le_eq)
qed

lemma ManagedMode_progress:
  assumes "ready_to_schedule s" "scorable s" "FCFSMin_alg \<in> set (butlast (algVec s))"
    and "ManagedMode s = Inr (a, s')"
  shows "0 < noJobs a"
proof -
  obtain cs r where cs: "candidates s cs" "r < length cs" "a = cs ! r"
    and best: "\<forall>c\<in>set cs. score_of c \<le> score_of a"
    using ManagedMode_spec [OF assms(1,4)] by metis
  have q: "0 < length (readyQ s)" using assms(1) by (simp add: ready_to_schedule_def)
  obtain i where i: "i < length (algVec s) - 1" "algVec s ! i = FCFSMin_alg"
    using assms(3) by (auto simp: in_set_conv_nth nth_butlast)
  then have il: "i < length cs" using cs(1) by (simp add: candidates_def)
  obtain b where b: "ran_as s i b" "score b s = Inr (cs ! i)"
    using cs(1) il by (auto simp: candidates_def)
  have nb: "0 < noJobs b" using ran_as_FCFSMin_serves [OF b(1) i(2) assms(1,2)] .
  have "sound_allocation s b"
    using ran_as_sound [OF b(1)] i(2) assms(1) by (simp add: ready_to_schedule_def)
  then obtain x :: rat where x: "0 \<le> x"
    "score b s = Inr (setScore (if noJobs b = 0 then 0 else int (length (readyQ s) * noJobs b) + \<lfloor>x\<rfloor>) b)"
    using score_value [OF assms(2)] q by (metis length_greater_0_conv)
  have "0 < int (length (readyQ s) * noJobs b)" using q nb by simp
  moreover have "0 \<le> \<lfloor>x\<rfloor>" using x(1) by simp
  moreover have "cs ! i = setScore (int (length (readyQ s) * noJobs b) + \<lfloor>x\<rfloor>) b"
    using b(2) x(2) nb by simp
  ultimately have "0 < score_of (cs ! i)" by (simp only: setScore_simps)
  then have pos: "0 < score_of a" using best il nth_mem by fastforce
  obtain c where c: "ran_as s r c" "score c s = Inr a" using cs by (auto simp: candidates_def)
  show ?thesis
  proof (rule ccontr)
    assume "\<not> 0 < noJobs a"
    then have "noJobs c = 0" using score_ajobs [OF c(2)] by (simp add: noJobs_eq)
    then have "score_of a = 0" using c(2) assms(2) by (auto simp: score_def scorable_def)
    with pos show False by simp
  qed
qed

section \<open>Starvation of jobs with no predicted time\<close>

text \<open>
  A request that carries \<open>predictedTimeMillis = 0\<close> makes every makespan zero, every score
  zero, and the last registered algorithm wins the tie.
\<close>

lemma score_zero_time:
  assumes "strat s = ''Completion Time''" and "\<forall>p\<in>set (ajobs a). predictedTime (job_at s (fst p)) = 0"
    and "noJobs a = 0 \<or> (\<forall>p\<in>set (ajobs a). snd p \<noteq> [])"
  shows "score a s = Inr (setScore 0 a)"
proof (cases "noJobs a = 0")
  case True
  with assms(1) show ?thesis by (simp add: score_def)
next
  case False
  with assms(3) have "makespan (job_at s) a = Fin (\<Sum>p\<leftarrow>ajobs a. fin_cost (job_at s) p)"
    by (simp add: makespan_fin)
  also have "(\<Sum>p\<leftarrow>ajobs a. fin_cost (job_at s) p) = (\<Sum>p\<leftarrow>ajobs a. 0)"
    using assms(2) by (intro arg_cong [where f = sum_list] map_cong) (simp_all add: fin_cost_def)
  finally show ?thesis using assms(1) by (simp add: score_def)
qed

text \<open>The strict comparison in \<open>Priority\<close>: with at most the maximum in the pool nothing is served.\<close>

lemma greedy_loop_stops:
  "\<forall>j\<in>set live. \<not> need (job_at s j) < length (resPool s) \<Longrightarrow> greedy_loop pick need live s a = (a, s)"
  by (subst greedy_loop.simps) (auto simp: Let_def deque_size_def)

lemma Priority_stuck:
  assumes "\<forall>p\<in>set (readyQ s). length (resPool s) \<le> jmax (job_at s p)" and "job_window s \<noteq> []"
  shows "Priority s = Inr (Allocations_new, s)"
proof -
  have "\<forall>j\<in>set (std_sort (sortByPriority s) (job_window s)). \<not> jmax (job_at s j) < length (resPool s)"
    using assms(1) by (auto simp: job_window_eq not_less dest: in_set_takeD)
  with assms(2) show ?thesis by (simp add: Priority_def greedy_loop_stops)
qed

text \<open>
  With a pool smaller than every maximum, SJTF lists jobs but gives none of them a
  resource.
\<close>

lemma greedy_loop_no_resources:
  assumes "\<forall>j\<in>set live. length (resPool s) < jmax (job_at s j)" and "held (ajobs a) = []"
    and "greedy_loop pick need live s a = (a', s')"
  shows "held (ajobs a') = []"
  using assms
proof (induction pick need live s a rule: greedy_loop.induct)
  case (1 pick need live s a)
  let ?e = "live ! pick live"
  show ?case
  proof (cases "pick live < length live \<and> need (job_at s ?e) < deque_size (resPool s)")
    case True
    then have "?e \<in> set live" by simp
    with "1.prems"(1) have al: "allocate (jmax (job_at s ?e)) (jmax (job_at s ?e)) s = ([], s)"
      by (auto simp: allocate_eq)
    have "greedy_loop pick need (removeAll ?e live) s (addJobResourcePair ?e [] a) = (a', s')"
      using "1.prems"(3) True al by (simp add: greedy_loop.simps [of _ _ live] Let_def)
    with "1.IH" [OF refl refl True al [symmetric] refl] "1.prems"(1,2) show ?thesis by simp
  next
    case False
    with "1.prems" show ?thesis by (auto simp: greedy_loop.simps [of _ _ live])
  qed
qed

text \<open>The ready jobs of a queue of unpredicted requests, as \<open>Job::Job\<close> builds them.\<close>

definition unpredicted :: "scheduler \<Rightarrow> bool" where
  "unpredicted s \<longleftrightarrow> strat s = ''Completion Time'' \<and>
     (\<forall>p\<in>set (readyQ s). predictedTime (job_at s p) = 0 \<and> jmin (job_at s p) = 1 \<and> jmax (job_at s p) = 4)"

lemma SJTF_small_pool:
  assumes "unpredicted s" "length (resPool s) \<le> 4" "readyQ s \<noteq> []" "SJTF s = Inr (a, s')"
  shows "noJobs a = 0 \<or> (\<forall>p\<in>set (ajobs a). snd p \<noteq> [])"
proof -
  let ?live = "std_sort (sortByTime s) (job_window s)" and ?pick = "min_element (sortByMin s)"
  let ?e = "?live ! ?pick ?live"
  note run = SJTF_greedy [OF assms(4,3)]
  have jobs: "\<forall>j\<in>set ?live. jmin (job_at s j) = 1 \<and> jmax (job_at s j) = 4"
    using assms(1) by (auto simp: job_window_eq unpredicted_def dest: in_set_takeD)
  show ?thesis
  proof (cases "length (resPool s) = 4 \<and> ?live \<noteq> []")
    case True
    then have i: "?pick ?live < length ?live" using min_element_less by blast
    then have e: "jmin (job_at s ?e) = 1" "jmax (job_at s ?e) = 4" using jobs nth_mem by blast+
    obtain rs s1 where al: "allocate 4 4 s = (rs, s1)" by fastforce
    have rs: "rs \<noteq> []" "resPool s1 = []"
      using al True by (auto simp: allocate_eq)
    have "greedy_loop ?pick jmin (removeAll ?e ?live) s1 (addJobResourcePair ?e rs Allocations_new)
        = (a, s')"
      using run i e al True by (simp add: greedy_loop.simps [of _ _ ?live] Let_def deque_size_def)
    then have "ajobs a = [(?e, rs)]" using rs by (auto simp: greedy_loop_stops)
    with rs show ?thesis by simp
  next
    case False
    then have "held (ajobs a) = []"
      using assms(2) jobs by (intro greedy_loop_no_resources [OF _ _ run]) auto
    then show ?thesis using noJobs_pos [of a] by simp
  qed
qed

lemma fcfs_nonempty_shares:
  assumes "fcfs_loop mx mn (window s) 0 s Allocations_new = Inr (a, s')"
  shows "\<forall>p\<in>set (ajobs a). snd p \<noteq> []"
  using fcfs_run_spec(4) [OF assms] by simp

text \<open>Every algorithm scores zero on unpredicted jobs.\<close>

lemma unpredicted_score:
  assumes "unpredicted s" "length (resPool s) \<le> 4" "ready_to_schedule s" "ran_as s i a"
    and "algVec s ! i \<noteq> ManagedMode_alg"
  shows "score a s = Inr (setScore 0 a)"
proof (rule score_zero_time)
  obtain pool s' where p: "mset pool = mset (resPool s)"
    "run_alg (algVec s ! i) (s\<lparr>resPool := pool\<rparr>) = Inr (a, s')"
    using assms(4) by (auto simp: ran_as_def)
  let ?s = "s\<lparr>resPool := pool\<rparr>"
  show "strat s = ''Completion Time''" using assms(1) by (simp add: unpredicted_def)
  have "sound_allocation s a"
    using ran_as_sound [OF assms(4)] assms(3,5) by (simp add: ready_to_schedule_def)
  then have "\<forall>p\<in>set (ajobs a). fst p \<in> set (readyQ s)"
    using set_take_subset [of "window s" "readyQ s"] by (auto simp: sound_allocation_def)
  then show "\<forall>p\<in>set (ajobs a). predictedTime (job_at s (fst p)) = 0"
    using assms(1) by (simp add: unpredicted_def)
  have len: "length pool \<le> 4" using p(1) assms(2) by (metis size_mset)
  have un: "unpredicted ?s" "readyQ ?s \<noteq> []"
    using assms(1,3) by (simp_all add: unpredicted_def ready_to_schedule_def)
  show "noJobs a = 0 \<or> (\<forall>p\<in>set (ajobs a). snd p \<noteq> [])"
  proof (cases "algVec s ! i")
    case SJTF_alg
    with p(2) SJTF_small_pool [OF un(1) _ un(2)] len show ?thesis by simp
  next
    case Priority_alg
    have "\<forall>q\<in>set (readyQ ?s). length (resPool ?s) \<le> jmax (job_at ?s q)"
      using len un(1) by (simp add: unpredicted_def)
    then have "Priority ?s = Inr (Allocations_new, ?s)"
      using assms(3) by (intro Priority_stuck)
        (simp_all add: job_window_eq ready_to_schedule_def wf_jobs_def)
    with p(2) Priority_alg show ?thesis by (simp add: noJobs_eq)
  qed (use p(2) assms(5) fcfs_nonempty_shares [of _ _ ?s] in
      \<open>auto simp: FCFSMin_def FCFSMax_def FCFSAsManyAsPos_def\<close>)
qed

section \<open>Properties\<close>

text \<open>
  C10. The managed mode returns a sound allocation (resources from the pool, each job of the
  window at most once and with at most its maximum), leaves the scheduler as it was up to the
  order of the pool, and no registered algorithm scored higher.
\<close>

theorem managed_mode_best:
  assumes "ready_to_schedule s" "ManagedMode s = Inr (a, s')"
  shows "sound_allocation s a \<and>
    (\<exists>pool cs. s' = s\<lparr>resPool := pool\<rparr> \<and> mset pool = mset (resPool s) \<and> candidates s cs \<and>
       a \<in> set cs \<and> (\<forall>c\<in>set cs. score_of c \<le> score_of a))"
proof -
  obtain cs r pool where "candidates s cs" "r < length cs" "a = cs ! r" "\<forall>c\<in>set cs. score_of c \<le> score_of a"
    "s' = s\<lparr>resPool := pool\<rparr>" "mset pool = mset (resPool s)"
    using ManagedMode_spec [OF assms] by metis
  moreover from this have "sound_allocation s a" using candidate_sound [OF assms(1)] by blast
  ultimately show ?thesis by (metis nth_mem)
qed

text \<open>
  \<open>Priority\<close> serves the most important job first: the first pair of its allocation has the
  largest client id of the whole window.
\<close>

theorem priority_first:
  assumes "Priority s = Inr (a, s')" "ajobs a = e # ps" "q \<in> set (take (window s) (readyQ s))"
  shows "jpriority (job_at s q) \<le> jpriority (job_at s (fst e))"
proof -
  let ?w = "std_sort (sortByPriority s) (job_window s)" and ?pick = "max_element (sortByPriority s)"
  let ?e = "?w ! ?pick ?w"
  have q: "q \<in> set ?w" using assms(3) by (simp add: job_window_eq)
  have "?pick ?w < length ?w \<and> jmax (job_at s ?e) < deque_size (resPool s)"
  proof (rule ccontr)
    assume n: "\<not> ?thesis"
    have "greedy_loop ?pick jmax ?w s Allocations_new = (Allocations_new, s)"
      using n by (subst greedy_loop.simps) (auto simp: Let_def)
    then show False using Priority_greedy [OF assms(1)] assms(2) by auto
  qed
  then obtain rs s1 where "greedy_loop ?pick jmax (removeAll ?e ?w) s1 (addJobResourcePair ?e rs Allocations_new) = (a, s')"
    using Priority_greedy [OF assms(1)] by (subst (asm) greedy_loop.simps) (auto simp: Let_def split: prod.splits)
  from greedy_loop_spec [OF this] have "fst e = ?e" using assms(2) by auto
  moreover have "jpriority (job_at s q) \<le> jpriority (job_at s ?e)"
    using max_element_first_max [of ?w _ "\<lambda>j. jpriority (job_at s j)"] q
    unfolding sortByPriority_def [abs_def] by (metis length_pos_if_in_set length_greater_0_conv)
  ultimately show ?thesis by simp
qed

definition demo_tuple :: "i32 \<Rightarrow> job_tuple" where
  "demo_tuple c = \<lparr>tjob = Job_new ((zero_msg 0)\<lparr>clientId := c, predictedTimeMillis := 1000,
     targetExecutionTimeMillis := 1500\<rparr>) 1 0, tinfo = \<lparr>finished = False, started = False\<rparr>\<rparr>"

definition demo_scheduler :: "nat \<Rightarrow> scheduler" where
  "demo_scheduler n = (scheduler_main 8112 (\<lambda>p. demo_tuple (of_nat p)) 0 0)
     \<lparr>resPool := map (\<lambda>i. Resource_new (int i) 8112 ''localhost'' ''DFE'') [1..<Suc n],
      readyQ := [0, 1], nextRef := 2\<rparr>"

lemma demo_scheduler_simps [simp]:
  "readyQ (demo_scheduler n) = [0, 1]" "window (demo_scheduler n) = 5" "length (resPool (demo_scheduler n)) = n"
  "resPool (demo_scheduler n) = map (\<lambda>i. Resource_new (int i) 8112 ''localhost'' ''DFE'') [1..<Suc n]"
  "job_at (demo_scheduler n) p = tjob (demo_tuple (of_nat p))" "strat (demo_scheduler n) = ''Completion Time''"
  "algVec (demo_scheduler n) =
     [FCFSMax_alg, FCFSMin_alg, FCFSAsManyAsPos_alg, SJTF_alg, Priority_alg, ManagedMode_alg]"
  by (simp_all add: demo_scheduler_def scheduler_main_def Scheduler_new_def addSchedAlg_def
      provisionResource_def addResource_new_def del: upt_Suc)

lemma demo_ready: "0 < n \<Longrightarrow> ready_to_schedule (demo_scheduler n) \<and> scorable (demo_scheduler n)"
  by (auto simp: ready_to_schedule_def wf_jobs_def scorable_def demo_tuple_def millis_def Job_new_def
      simp flip: length_greater_0_conv)

theorem managed_mode_best_witness:
  "\<exists>a s'. ManagedMode (demo_scheduler 2) = Inr (a, s') \<and> sound_allocation (demo_scheduler 2) a"
  using ManagedMode_total managed_mode_best demo_ready by (metis zero_less_numeral)

theorem priority_first_witness:
  "\<exists>a s' e ps. Priority (demo_scheduler 9) = Inr (a, s') \<and> ajobs a = e # ps \<and>
    jpriority (job_at (demo_scheduler 9) 1) \<le> jpriority (job_at (demo_scheduler 9) (fst e))"
proof -
  let ?s = "demo_scheduler 9"
  let ?w = "std_sort (sortByPriority ?s) (job_window ?s)" and ?pick = "max_element (sortByPriority ?s)"
  let ?e = "?w ! ?pick ?w"
  obtain a s' where p: "Priority ?s = Inr (a, s')"
    using priority.total [of ?s] demo_ready [of 9] by (auto simp: ready_to_schedule_def)
  have "?w \<noteq> []" by (simp add: job_window_eq)
  then have "?pick ?w < length ?w" by (rule max_element_less)
  moreover have "jmax (job_at ?s ?e) = 4" by (simp add: demo_tuple_def)
  ultimately obtain rs s1 where "greedy_loop ?pick jmax (removeAll ?e ?w) s1 (addJobResourcePair ?e rs Allocations_new) = (a, s')"
    using Priority_greedy [OF p] by (subst (asm) greedy_loop.simps) (auto simp: Let_def deque_size_def split: prod.splits)
  from greedy_loop_spec [OF this] obtain e ps where "ajobs a = e # ps" by auto
  with priority_first [OF p, of e ps 1] p show ?thesis by (intro exI conjI) simp_all
qed

text \<open>
  C11. With predicted times of at least a millisecond and the limits of \<open>Job::Job\<close>, the managed
  mode never fails and serves at least one job whenever a job is ready and a resource is free.
\<close>

theorem managed_mode_serves:
  assumes "ready_to_schedule s" "scorable s" "FCFSMin_alg \<in> set (butlast (algVec s))"
  shows "\<exists>a s'. ManagedMode s = Inr (a, s') \<and> 0 < noJobs a"
  using ManagedMode_total [OF assms(1,2)] ManagedMode_progress [OF assms] by blast

theorem managed_mode_serves_witness:
  "\<exists>a s'. ManagedMode (demo_scheduler 3) = Inr (a, s') \<and> 0 < noJobs a"
  by (rule managed_mode_serves) (simp_all add: demo_ready)

end
