(* ===== verification/Scheduler_Loops.thy ===== *)
theory Scheduler_Loops
  imports Managed_Mode
begin

unbundle bit_operations_syntax

text \<open>
  The threads of the scheduler (\<open>src/scheduler/Scheduler.cpp\<close>) and the elasticity
  manager: one iteration of \<open>schedLoop\<close>, \<open>dispatcherLoop\<close> and \<open>finishedLoop\<close>, the
  two halves of \<open>runJob\<close> around the exchange with the dispatcher, the two halves of
  \<open>concurrentHandler\<close> around the wait for the job, and the request dispatch
  \<open>handle_request\<close>. Clock readings and the dispatcher's reply are arguments.
\<close>

section \<open>Elasticity manager\<close>

definition updateResourcePool :: "allocations \<Rightarrow> scheduler \<Rightarrow> scheduler result" where
  "updateResourcePool a s =
     (let jloMetric = getJLOMetric (job_at s) a; beta = Fin 1
      in if fp_less jloMetric (Fin 0) then Inr (provisionResource s)
         else if fp_less beta jloMetric then deprovisionResource s
         else Inr s)"

section \<open>The scheduling thread\<close>

definition MODE_MANAGED :: nat where "MODE_MANAGED = 5"

definition call_alg :: "alg \<Rightarrow> scheduler \<Rightarrow> (allocations \<times> scheduler) result" where
  "call_alg g s = (if g = ManagedMode_alg then ManagedMode s else run_alg g s)"

definition count_schedule :: "rat \<Rightarrow> rat \<Rightarrow> scheduler \<Rightarrow> scheduler" where
  "count_schedule t0 t1 s =
     s\<lparr>stats := (stats s)
        \<lparr>totalSchedTime := totalSchedTime (stats s) +
            of_int (duration_trunc (1000000 * (t1 - t0))) / 1000000,
         numSchedules := numSchedules (stats s) + 1\<rparr>\<rparr>"

definition count_jobs :: "nat \<Rightarrow> scheduler \<Rightarrow> scheduler" where
  "count_jobs n s =
     s\<lparr>stats := (stats s)\<lparr>totalJobsScheduled := totalJobsScheduled (stats s) + n\<rparr>\<rparr>"

text \<open>
  One iteration of \<open>schedLoop\<close>. \<open>t0\<close> and \<open>t1\<close> are the clock readings around it, \<open>t1\<close>
  is also the dispatch time the jobs get.
\<close>

definition schedLoop_iter :: "rat \<Rightarrow> rat \<Rightarrow> scheduler \<Rightarrow> scheduler result" where
  "schedLoop_iter t0 t1 s =
     bindR (wait_not_empty (readyQ s)) (\<lambda>_.
       if 0 < deque_size (resPool s)
       then if MODE_MANAGED < length (algVec s)
            then bindR (call_alg (algVec s ! MODE_MANAGED) s) (\<lambda>(a, s1).
                   let numJobsScheduled = noJobs a in
                   bindR (if 0 < numJobsScheduled
                          then bindR (updateResourcePool a s1) (\<lambda>s2.
                                 bindR (serviceAllocations a t1 s2) (\<lambda>s3.
                                   Inr (count_schedule t0 t1 s3)))
                          else Inr s1)
                     (\<lambda>s4. Inr (count_jobs numJobsScheduled s4)))
            else Inl Out_Of_Bounds
       else Inr s)"

section \<open>The dispatcher thread and the job threads\<close>

text \<open>The pair is taken off the run queue; a job that is not started yet gets a thread.\<close>

definition dispatcherLoop_iter :: "scheduler \<Rightarrow> (job_res_pair option \<times> scheduler) result" where
  "dispatcherLoop_iter s =
     bindR (wait_pop_front (runQ s)) (\<lambda>(pr, q).
       let s' = s\<lparr>runQ := q\<rparr> in
       if \<not> started (tinfo (jobs s' (fst pr)))
       then Inr (Some pr, update_info (fst pr) (\<lambda>i. i\<lparr>started := True\<rparr>) s')
       else Inr (None, s'))"

text \<open>The bit of a resource id in the packed mask; ids outside \<open>1..4\<close> set no bit.\<close>

definition rid_bit :: "int \<Rightarrow> byte" where
  "rid_bit i = (if i = 1 then 0x1 else if i = 2 then 0x2 else if i = 3 then 0x4
     else if i = 4 then 0x8 else 0)"

definition packed_rids :: "resource list \<Rightarrow> byte" where
  "packed_rids rs = foldl (\<lambda>acc r. acc OR rid_bit (rid r)) 0 rs"

text \<open>
  First half of \<open>runJob\<close>: where to connect and what to send. The address comes from the
  front of the resource list, which must not be empty.
\<close>

definition runJob_request :: "job_res_pair \<Rightarrow> scheduler \<Rightarrow> (int \<times> string \<times> msg) result" where
  "runJob_request pr s =
     bindR (deque_front (snd pr)) (\<lambda>r.
       Inr (port r, url r, (req (job_at s (fst pr)))\<lparr>rids := packed_rids (snd pr)\<rparr>))"

text \<open>
  Second half, once a message with \<open>msgId = MSG_RESULT\<close> was read: record the times and
  the response, give the resources back, queue the job as finished.
\<close>

definition runJob_complete ::
  "job_res_pair \<Rightarrow> msg \<Rightarrow> rat \<Rightarrow> rat \<Rightarrow> rat \<Rightarrow> scheduler \<Rightarrow> scheduler" where
  "runJob_complete pr reply start stop now s =
     (let p = fst pr;
          s1 = update_job p (\<lambda>j. j\<lparr>measuredExecutionTime := stop - start,
                 actualExecutionTime := millis (predictedTimeMillis reply), rsp := Some reply\<rparr>) s;
          s2 = returnResources (snd pr) s1;
          s3 = update_job p (\<lambda>j. j\<lparr>finishTime := now\<rparr>) s2;
          s4 = s3\<lparr>finishedQ := push_front p (finishedQ s3)\<rparr>
      in removeJobFromRunQ (jid (job_at s4 p)) s4)"

section \<open>The finished-queue thread\<close>

definition finishedLoop_iter :: "rat \<Rightarrow> scheduler \<Rightarrow> (jref \<times> scheduler) result" where
  "finishedLoop_iter now s =
     bindR (wait_pop_front (finishedQ s)) (\<lambda>(p, q).
       let s1 = s\<lparr>finishedQ := q\<rparr>;
           s2 = s1\<lparr>stats := updateStatistics (job_at s1 p) now (stats s1)\<rparr>
       in Inr (p, update_info p (\<lambda>i. i\<lparr>finished := True\<rparr>) s2))"

section \<open>The connection handler\<close>

text \<open>
  \<open>concurrentHandler\<close> up to the wait: a fresh job tuple with both flags cleared, stamped
  and pushed to the front of the ready queue.
\<close>

definition concurrentHandler_submit :: "msg \<Rightarrow> rat \<Rightarrow> scheduler \<Rightarrow> jref \<times> scheduler" where
  "concurrentHandler_submit request now s =
     (let (i, s1) = getNextId s;
          p = nextRef s1;
          t = \<lparr>tjob = (Job_new request i now)\<lparr>issueTime := now\<rparr>,
               tinfo = \<lparr>finished = False, started = False\<rparr>\<rparr>
      in (p, s1\<lparr>jobs := (jobs s1)(p := t), nextRef := p + 1, readyQ := push_front p (readyQ s1)\<rparr>))"

text \<open>
  \<open>concurrentHandler\<close> after the wait: the response buffer was allocated for the expected
  size; the payload of the job's response is copied into it.
\<close>

definition concurrentHandler_reply :: "jref \<Rightarrow> msg \<Rightarrow> scheduler \<Rightarrow> msg result" where
  "concurrentHandler_reply p response s =
     (case rsp (job_at s p) of
        None \<Rightarrow> Inr response
      | Some r \<Rightarrow>
          (let n = unat (dataBytes r)
           in if length (data r) < n then Inl Out_Of_Bounds
              else bindR (memcpy_at 0 (take n (data r)) (data response)) (\<lambda>d.
                     Inr (response\<lparr>msgId := msgId r, dataSize := dataSize r, paramsSize := 0,
                       totalBytes := totalBytes r, dataBytes := dataBytes r, data := d\<rparr>))))"

text \<open>
  \<open>handle_request\<close>, by what it asks for: stop the server (\<open>scheduler_stop\<close>) and no reply, an
  immediate reply, or a job whose reply buffer has the given size.
\<close>

datatype request_action =
    Stop_Server
  | Reply_Now msg
  | Run_Job size_t bool

definition scheduler_handle_request :: "msg \<Rightarrow> request_action" where
  "scheduler_handle_request request =
     (if msgId request = MSG_TERM then Stop_Server
      else if msgId request = MSG_OPTION_PRICE
        then Run_Job (of_nat sizeof_msg + expDataSizeBytes request) False
      else if msgId request = MSG_MOVING_AVG
        then Run_Job (of_nat sizeof_msg + expDataSizeBytes request) True
      else Reply_Now msg_ack)"

text \<open>The end of a job request: the reply, with \<open>avg_wt\<close> filled in for moving averages.\<close>

definition scheduler_finish_request :: "size_t \<Rightarrow> bool \<Rightarrow> jref \<Rightarrow> scheduler \<Rightarrow> msg result" where
  "scheduler_finish_request sz with_wt p s =
     bindR (calloc_msg sz) (\<lambda>response.
       bindR (concurrentHandler_reply p response s) (\<lambda>m.
         Inr (if with_wt
              then m\<lparr>avg_wt := of_int (duration_trunc (1000 * meanWaitTime (stats s)))\<rparr>
              else m)))"

section \<open>Facts: elasticity and service\<close>

lemma provisionResource_simps [simp]:
  "readyQ (provisionResource s) = readyQ s" "runQ (provisionResource s) = runQ s"
  "finishedQ (provisionResource s) = finishedQ s" "jobs (provisionResource s) = jobs s"
  "nextRef (provisionResource s) = nextRef s" "nextJid (provisionResource s) = nextJid s"
  "algVec (provisionResource s) = algVec s" "window (provisionResource s) = window s"
  "strat (provisionResource s) = strat s"
  "resourceId (provisionResource s) = resourceId s + 1"
  "provisionedResources (provisionResource s) = provisionedResources s + 1"
  "resPool (provisionResource s) = resPool s @
     [Resource_new (resourceId s) (dispatcherPortNumber s) (dispatcherHostname s) ''DFE'']"
  by (simp_all add: provisionResource_def addResource_new_def push_back_def Let_def)

lemma deprovisionResource_cases:
  assumes "deprovisionResource s = Inr s'"
  obtains "s' = s" "provisionedResources s \<le> 0"
  | r pool where "resPool s = pool @ [r]"
      "s' = s\<lparr>resPool := pool, provisionedResources := provisionedResources s - 1\<rparr>"
proof (cases "0 < provisionedResources s")
  case True
  with assms obtain r pool where "wait_pop_back (resPool s) = Inr (r, pool)"
    "s' = s\<lparr>resPool := pool, provisionedResources := provisionedResources s - 1\<rparr>"
    unfolding deprovisionResource_def Let_def by (auto simp: bindR_eq_Inr)
  with that(2) show ?thesis by (simp add: wait_pop_back_Inr)
next
  case False
  with assms that(1) show ?thesis by (simp add: deprovisionResource_def)
qed

lemma claimResources_Inr:
  "claimResources j s = Inr s' \<longleftrightarrow>
     (\<exists>pool. claim_loop (snd j) (resPool s) = Inr pool \<and> s' = s\<lparr>resPool := pool\<rparr>)"
  by (auto simp: claimResources_def bindR_eq_Inr)

lemma addToRunQ_simps [simp]:
  "resPool (addToRunQ j t s) = resPool s" "readyQ (addToRunQ j t s) = readyQ s"
  "runQ (addToRunQ j t s) = j # runQ s" "finishedQ (addToRunQ j t s) = finishedQ s"
  "nextRef (addToRunQ j t s) = nextRef s" "nextJid (addToRunQ j t s) = nextJid s"
  "algVec (addToRunQ j t s) = algVec s" "window (addToRunQ j t s) = window s"
  "strat (addToRunQ j t s) = strat s" "resourceId (addToRunQ j t s) = resourceId s"
  "provisionedResources (addToRunQ j t s) = provisionedResources s"
  "job_at (addToRunQ j t s) q =
     (if q = fst j then (job_at s q)\<lparr>dispatchTime := t\<rparr> else job_at s q)"
  "tinfo (jobs (addToRunQ j t s) q) = tinfo (jobs s q)"
  by (simp_all add: addToRunQ_def push_front_def Let_def)

text \<open>Everything of a job that scheduling decisions read, which no thread changes.\<close>

definition same_job :: "job \<Rightarrow> job \<Rightarrow> bool" where
  "same_job j k \<longleftrightarrow> jid k = jid j \<and> jmin k = jmin j \<and> jmax k = jmax j \<and>
     predictedTime k = predictedTime j \<and> targetExecutionTime k = targetExecutionTime j \<and>
     jpriority k = jpriority j \<and> req k = req j"

lemma same_job_refl [simp]: "same_job j j"
  by (simp add: same_job_def)

lemma same_job_trans: "same_job i j \<Longrightarrow> same_job j k \<Longrightarrow> same_job i k"
  by (simp add: same_job_def)

text \<open>
  What servicing an allocation does when it succeeds: its jobs leave the ready queue,
  its pairs enter the run queue (last one first), the claimed ids leave the pool, and
  nothing else that matters to scheduling changes.
\<close>

lemma serviceAllocations_loop_spec:
  assumes "serviceAllocations_loop ps t s = Inr s'"
    and "distinct (map fst ps)" and "set (map fst ps) \<subseteq> set (readyQ s)"
    and "distinct (map (\<lambda>p. jid (job_at s p)) (readyQ s))"
  shows "readyQ s' = filter (\<lambda>q. q \<notin> set (map fst ps)) (readyQ s) \<and> runQ s' = rev ps @ runQ s \<and>
     mset (map rid (resPool s)) = mset (map rid (held ps)) + mset (map rid (resPool s')) \<and>
     finishedQ s' = finishedQ s \<and> nextRef s' = nextRef s \<and> nextJid s' = nextJid s \<and>
     algVec s' = algVec s \<and> window s' = window s \<and> strat s' = strat s \<and>
     resourceId s' = resourceId s \<and> provisionedResources s' = provisionedResources s \<and>
     (\<forall>q. same_job (job_at s q) (job_at s' q) \<and> tinfo (jobs s' q) = tinfo (jobs s q) \<and>
        rsp (job_at s' q) = rsp (job_at s q))"
  using assms
proof (induction ps arbitrary: s)
  case (Cons j ps)
  obtain p rs where j: "j = (p, rs)" by (cases j)
  have p: "p \<in> set (readyQ s)" using Cons.prems(3) j by simp
  let ?r = "s\<lparr>readyQ := remove1 p (readyQ s)\<rparr>"
  have rem: "removeJobFromReadyQ j s = ?r"
    using removeJobFromReadyQ_eq [OF Cons.prems(4) p] j by simp
  have dq: "distinct (readyQ s)" using Cons.prems(4) by (simp add: distinct_map)
  from Cons.prems(1) rem obtain pool where
    claim: "claim_loop rs (resPool s) = Inr pool"
    and rest: "serviceAllocations_loop ps t (addToRunQ j t (?r\<lparr>resPool := pool\<rparr>)) = Inr s'"
    by (auto simp: bindR_eq_Inr claimResources_Inr j)
  let ?s = "addToRunQ j t (?r\<lparr>resPool := pool\<rparr>)"
  have jids: "map (\<lambda>p. jid (job_at ?s p)) (readyQ ?s) = map (\<lambda>p. jid (job_at s p)) (remove1 p (readyQ s))"
    by (simp add: j)
  have "distinct (map fst ps)" "set (map fst ps) \<subseteq> set (readyQ ?s)"
    using Cons.prems(2,3) j dq by auto
  moreover have "distinct (map (\<lambda>p. jid (job_at ?s p)) (readyQ ?s))"
    unfolding jids using Cons.prems(4) by (metis distinct_map distinct_remove1 inj_on_subset set_remove1_subset)
  ultimately have ih: "readyQ s' = filter (\<lambda>q. q \<notin> set (map fst ps)) (readyQ ?s) \<and> runQ s' = rev ps @ runQ ?s \<and>
     mset (map rid (resPool ?s)) = mset (map rid (held ps)) + mset (map rid (resPool s')) \<and>
     finishedQ s' = finishedQ ?s \<and> nextRef s' = nextRef ?s \<and> nextJid s' = nextJid ?s \<and>
     algVec s' = algVec ?s \<and> window s' = window ?s \<and> strat s' = strat ?s \<and>
     resourceId s' = resourceId ?s \<and> provisionedResources s' = provisionedResources ?s \<and>
     (\<forall>q. same_job (job_at ?s q) (job_at s' q) \<and> tinfo (jobs s' q) = tinfo (jobs ?s q) \<and>
        rsp (job_at s' q) = rsp (job_at ?s q))"
    using Cons.IH [OF rest] by blast
  have "same_job (job_at s q) (job_at ?s q)" for q by (simp add: same_job_def)
  then have same: "\<forall>q. same_job (job_at s q) (job_at s' q)" using ih same_job_trans by blast
  have "remove1 p (readyQ s) = filter (\<lambda>q. q \<noteq> p) (readyQ s)"
    using dq by (simp add: distinct_remove1_removeAll removeAll_filter_not_eq) (metis)
  then have rq: "readyQ s' = filter (\<lambda>q. q \<notin> set (map fst (j # ps))) (readyQ s)"
    using ih by (auto simp: j intro!: filter_cong)
  have "mset (map rid (resPool s)) = mset (map rid (held (j # ps))) + mset (map rid (resPool s'))"
    using claim_loop_ids [OF claim] ih by (simp add: j union_assoc)
  moreover have "rsp (job_at ?s q) = rsp (job_at s q)" for q by simp
  ultimately show ?case using ih rq same by (simp add: j)
qed simp

section \<open>The resource mask\<close>

lemma bit_rid_bit: "i < 4 \<Longrightarrow> bit (rid_bit r) i \<longleftrightarrow> r = int i + 1"
proof -
  assume "i < 4"
  then have "i = 0 \<or> i = 1 \<or> i = 2 \<or> i = 3" by linarith
  moreover have "bit (1 :: byte) 0 \<and> \<not> bit (1 :: byte) 1 \<and> \<not> bit (1 :: byte) 2 \<and> \<not> bit (1 :: byte) 3"
    "\<not> bit (2 :: byte) 0 \<and> bit (2 :: byte) 1 \<and> \<not> bit (2 :: byte) 2 \<and> \<not> bit (2 :: byte) 3"
    "\<not> bit (4 :: byte) 0 \<and> \<not> bit (4 :: byte) 1 \<and> bit (4 :: byte) 2 \<and> \<not> bit (4 :: byte) 3"
    "\<not> bit (8 :: byte) 0 \<and> \<not> bit (8 :: byte) 1 \<and> \<not> bit (8 :: byte) 2 \<and> bit (8 :: byte) 3"
    by code_simp+
  ultimately show ?thesis by (auto simp: rid_bit_def)
qed

lemma bit_packed_rids:
  assumes "i < 4"
  shows "bit (packed_rids rs) i \<longleftrightarrow> int i + 1 \<in> rid ` set rs"
proof -
  have "bit (foldl (\<lambda>acc r. acc OR rid_bit (rid r)) a rs) i \<longleftrightarrow> bit a i \<or> int i + 1 \<in> rid ` set rs" for a
    using assms by (induction rs arbitrary: a) (auto simp: bit_or_iff bit_rid_bit)
  then show ?thesis by (simp add: packed_rids_def)
qed

section \<open>Properties\<close>

text \<open>
  C36. The resource mask of a dispatched job tells the dispatcher how many of its resources have
  one of the ids 1 to 4; resources with a higher id do not count.
\<close>

theorem mask_counts_resources:
  "nDfes (m\<lparr>rids := packed_rids rs\<rparr>) = card (rid ` set rs \<inter> {1..4})"
proof -
  let ?P = "\<lambda>i. int i + 1 \<in> rid ` set rs"
  have "filter (bit (packed_rids rs)) [0..<4] = filter ?P [0..<4]"
    by (rule filter_cong) (auto simp: bit_packed_rids)
  then have "nDfes (m\<lparr>rids := packed_rids rs\<rparr>) = length (filter ?P [0..<4])" by (simp add: nDfes_eq)
  also have "\<dots> = card {i \<in> {..<4}. ?P i}"
    using distinct_card [of "filter ?P [0..<4]"] by (simp add: lessThan_atLeast0)
  also have "\<dots> = card ((\<lambda>i. int i + 1) ` {i \<in> {..<4}. ?P i})"
    by (intro card_image [symmetric]) (auto intro: inj_onI)
  also have "(\<lambda>i. int i + 1) ` {i \<in> {..<4}. ?P i} = rid ` set rs \<inter> {1..4}"
  proof (intro equalityI subsetI)
    fix x assume x: "x \<in> rid ` set rs \<inter> {1..4}"
    then have "x = int (nat (x - 1)) + 1" "nat (x - 1) \<in> {i \<in> {..<4}. ?P i}" by auto
    then show "x \<in> (\<lambda>i. int i + 1) ` {i \<in> {..<4}. ?P i}" by blast
  qed auto
  finally show ?thesis .
qed

text \<open>
  The reply to the client: when the job's response fits the buffer the request asked for, the
  handler returns the response's payload and byte counts in it.
\<close>

theorem scheduler_reply_payload:
  assumes "rsp (job_at s p) = Some r" "wf_msg r" "sizeof_msg + length (data r) \<le> unat sz" "unat sz < 2 ^ 63"
  shows "\<exists>m. scheduler_finish_request sz wt p s = Inr m \<and> msgId m = msgId r \<and>
    totalBytes m = totalBytes r \<and> dataBytes m = dataBytes r \<and>
    take (length (data r)) (data m) = data r \<and> length (data m) = unat sz - sizeof_msg"
proof -
  have "calloc_msg sz = Inr (zero_msg (unat sz - sizeof_msg))" using assms(3,4) by (simp add: calloc_msg_def)
  with assms show ?thesis
    by (simp add: scheduler_finish_request_def concurrentHandler_reply_def memcpy_at_def wf_msg_def zero_msg_def Let_def)
qed

theorem scheduler_reply_payload_witness:
  "\<exists>m. scheduler_finish_request 71 False 0
     (update_job 0 (\<lambda>j. j\<lparr>rsp := Some ((zero_msg 2)\<lparr>msgId := MSG_RESULT, totalBytes := 71, dataBytes := 2, data := [5, 6]\<rparr>)\<rparr>)
        (demo_scheduler 1)) = Inr m \<and> msgId m = MSG_RESULT \<and> totalBytes m = 71 \<and> dataBytes m = 2 \<and>
    take (length [5, 6 :: byte]) (data m) = [5, 6] \<and> length (data m) = 2"
proof -
  let ?r = "(zero_msg 2)\<lparr>msgId := MSG_RESULT, totalBytes := 71, dataBytes := 2, data := [5, 6]\<rparr>"
  let ?s = "update_job 0 (\<lambda>j. j\<lparr>rsp := Some ?r\<rparr>) (demo_scheduler 1)"
  have "rsp (job_at ?s 0) = Some ?r" "wf_msg ?r" by (simp_all add: wf_msg_def sizeof_msg_def)
  from scheduler_reply_payload [OF this, of 71 False] show ?thesis by (simp add: sizeof_msg_def)
qed

end
