(* ===== verification/Transition_Runs.thy ===== *)
theory Transition_Runs
  imports Main
begin

text \<open>
  Runs of a labelled step relation and the three contracts the threads of the program are shown to
  keep: a predicate that every step preserves (\<open>preserved\<close>), a measure that every step lowers
  (\<open>descent\<close>), so that no run is longer than the measure and some run goes on until no step is left
  (also when steps that change nothing come in between: \<open>fair_descent\<close>), and an abstraction under which every step is a step of a simpler machine (\<open>simulation\<close>).
\<close>

section \<open>Runs\<close>

inductive runs :: "('l \<Rightarrow> 's \<Rightarrow> 's \<Rightarrow> bool) \<Rightarrow> 's \<Rightarrow> 'l list \<Rightarrow> 's \<Rightarrow> bool" for step where
  nil: "runs step x [] x"
| snoc: "runs step x ls y \<Longrightarrow> step l y z \<Longrightarrow> runs step x (ls @ [l]) z"

lemma runs_append: "runs step y ls z \<Longrightarrow> runs step x ks y \<Longrightarrow> runs step x (ks @ ls) z"
  by (induction rule: runs.induct) (auto simp: runs.snoc simp flip: append_assoc)

lemma runs_step: "step l x y \<Longrightarrow> runs step x [l] y"
  using runs.snoc [OF runs.nil] by fastforce

lemma runs_mono:
  "runs step x ls y \<Longrightarrow> (\<And>l a b. l \<in> set ls \<Longrightarrow> step l a b \<Longrightarrow> step' l a b) \<Longrightarrow> runs step' x ls y"
  by (induction rule: runs.induct) (auto intro: runs.intros)

text \<open>Steps that change nothing can be taken out of a run.\<close>

lemma runs_unstutter:
  assumes "\<And>l a b. step l a b \<Longrightarrow> \<not> P l \<Longrightarrow> b = a"
  shows "runs step x ls y \<Longrightarrow> runs (\<lambda>l a b. P l \<and> step l a b) x (filter P ls) y"
proof (induction rule: runs.induct)
  case (snoc x ls y l z)
  show ?case
  proof (cases "P l")
    case True
    then show ?thesis using runs.snoc [OF snoc.IH, of l z] snoc.hyps(2) by simp
  qed (use snoc assms in auto)
qed (simp add: runs.nil)

lemma runs_labels: "runs step x ls y \<Longrightarrow> (\<And>l a b. step l a b \<Longrightarrow> P l) \<Longrightarrow> \<forall>l\<in>set ls. P l"
  by (induction rule: runs.induct) auto

section \<open>What every step keeps\<close>

locale preserved =
  fixes step :: "'l \<Rightarrow> 's \<Rightarrow> 's \<Rightarrow> bool" and inv :: "'s \<Rightarrow> bool"
  assumes keeps: "step l x y \<Longrightarrow> inv x \<Longrightarrow> inv y"
begin

lemma along: "runs step x ls y \<Longrightarrow> inv x \<Longrightarrow> inv y"
  by (induction rule: runs.induct) (auto dest: keeps)

lemma labels:
  assumes "\<And>l a b. step l a b \<Longrightarrow> inv a \<Longrightarrow> P l"
  shows "runs step x ls y \<Longrightarrow> inv x \<Longrightarrow> \<forall>l\<in>set ls. P l"
  by (induction rule: runs.induct) (auto dest: along intro: assms)

end

section \<open>What every step lowers\<close>

locale descent = preserved step inv
  for step :: "'l \<Rightarrow> 's \<Rightarrow> 's \<Rightarrow> bool" and inv :: "'s \<Rightarrow> bool" +
  fixes rank :: "'s \<Rightarrow> nat"
  assumes lowers: "step l x y \<Longrightarrow> inv x \<Longrightarrow> rank y < rank x"
begin

lemma bounded: "runs step x ls y \<Longrightarrow> inv x \<Longrightarrow> length ls + rank y \<le> rank x"
proof (induction rule: runs.induct)
  case (snoc x ls y l z)
  from snoc.hyps(1) snoc.prems have "inv y" by (rule along)
  with snoc.IH [OF snoc.prems] lowers [OF snoc.hyps(2)] show ?case by simp
qed simp

lemma halts: "inv x \<Longrightarrow> \<exists>ls y. runs step x ls y \<and> inv y \<and> (\<forall>l z. \<not> step l y z)"
proof (induction "rank x" arbitrary: x rule: less_induct)
  case less
  show ?case
  proof (cases "\<exists>l z. step l x z")
    case True
    then obtain l z where l: "step l x z" by blast
    from less.hyps [OF lowers [OF l less.prems] keeps [OF l less.prems]]
    show ?thesis using runs_append [OF _ runs_step [where step = step, OF l]] by blast
  next
    case False
    with less.prems runs.nil [of step x] show ?thesis by blast
  qed
qed

end

section \<open>Fair behaviours\<close>

text \<open>
  An endless behaviour: at each point of time a step, or nothing. It is fair to the steps that are
  \<open>good\<close> if, whenever one of them is possible, a good step is taken then or later.
\<close>

definition behaviour :: "('l \<Rightarrow> 's \<Rightarrow> 's \<Rightarrow> bool) \<Rightarrow> (nat \<Rightarrow> 'l option) \<Rightarrow> (nat \<Rightarrow> 's) \<Rightarrow> bool" where
  "behaviour step lab st \<longleftrightarrow>
     (\<forall>i. case lab i of None \<Rightarrow> st (Suc i) = st i | Some l \<Rightarrow> step l (st i) (st (Suc i)))"

definition fair :: "('l \<Rightarrow> bool) \<Rightarrow> ('l \<Rightarrow> 's \<Rightarrow> 's \<Rightarrow> bool) \<Rightarrow> (nat \<Rightarrow> 'l option) \<Rightarrow> (nat \<Rightarrow> 's) \<Rightarrow> bool" where
  "fair good step lab st \<longleftrightarrow>
     (\<forall>i. (\<exists>l z. good l \<and> step l (st i) z) \<longrightarrow> (\<exists>j\<ge>i. \<exists>l. lab j = Some l \<and> good l))"

lemma behaviour_at:
  assumes "behaviour step lab st"
  shows "lab i = None \<Longrightarrow> st (Suc i) = st i" "lab i = Some l \<Longrightarrow> step l (st i) (st (Suc i))"
  using assms unfolding behaviour_def by (metis option.simps(4), metis option.simps(5))

lemma behaviour_run:
  assumes "behaviour step lab st"
  shows "\<exists>ls. runs step (st 0) ls (st i)"
proof (induction i)
  case (Suc i)
  then obtain ls where "runs step (st 0) ls (st i)" by blast
  then show ?case
    using behaviour_at [OF assms, of i] runs.snoc [of step "st 0" ls "st i"] by (cases "lab i") auto
qed (auto intro: runs.nil)

text \<open>A run of good steps after which none is left is a fair behaviour.\<close>

lemma run_behaviour:
  assumes "runs (\<lambda>l a b. good l \<and> step l a b) x ls y"
  shows "\<exists>lab st. behaviour step lab st \<and> st 0 = x \<and> (\<forall>i\<ge>length ls. lab i = None \<and> st i = y) \<and>
    (\<forall>i<length ls. \<exists>l. lab i = Some l \<and> good l)"
  using assms
proof (induction rule: runs.induct)
  case (nil x)
  show ?case by (intro exI [of _ "\<lambda>_. None"] exI [of _ "\<lambda>_. x"]) (simp add: behaviour_def)
next
  case (snoc x ls y l z)
  then obtain lab st where b: "behaviour step lab st" "st 0 = x"
    "\<And>i. length ls \<le> i \<Longrightarrow> lab i = None \<and> st i = y" "\<And>i. i < length ls \<Longrightarrow> \<exists>l. lab i = Some l \<and> good l" by blast
  let ?lab = "lab(length ls := Some l)" and ?st = "\<lambda>i. if i \<le> length ls then st i else z"
  have "case ?lab i of None \<Rightarrow> ?st (Suc i) = ?st i | Some l \<Rightarrow> step l (?st i) (?st (Suc i))" for i
    using b(1,3) snoc.hyps(2) by (cases "i < length ls") (auto simp: behaviour_def Suc_le_eq split: option.splits)
  then have "behaviour step ?lab ?st" by (simp add: behaviour_def)
  moreover have "?st 0 = x \<and> (\<forall>i\<ge>length (ls @ [l]). ?lab i = None \<and> ?st i = z) \<and>
      (\<forall>i<length (ls @ [l]). \<exists>l. ?lab i = Some l \<and> good l)"
    using b(2-4) snoc.hyps(2) by (auto simp: less_Suc_eq)
  ultimately show ?case by blast
qed

lemma run_fair:
  assumes "runs (\<lambda>l a b. good l \<and> step l a b) x ls y" "\<forall>l z. \<not> (good l \<and> step l y z)"
  shows "\<exists>lab st. behaviour step lab st \<and> fair good step lab st \<and> st 0 = x"
proof -
  obtain lab st where b: "behaviour step lab st" "st 0 = x" "\<And>i. length ls \<le> i \<Longrightarrow> st i = y"
    "\<And>i. i < length ls \<Longrightarrow> \<exists>l. lab i = Some l \<and> good l"
    using run_behaviour [OF assms(1)] by blast
  then have "fair good step lab st" using assms(2) unfolding fair_def by (metis not_le order_refl)
  with b show ?thesis by blast
qed

locale fair_descent = descent "\<lambda>l a b. good l \<and> step l a b" inv rank
  for good :: "'l \<Rightarrow> bool" and step :: "'l \<Rightarrow> 's \<Rightarrow> 's \<Rightarrow> bool" and inv :: "'s \<Rightarrow> bool" and rank :: "'s \<Rightarrow> nat" +
  assumes stutters: "step l x y \<Longrightarrow> \<not> good l \<Longrightarrow> y = x"
begin

lemma behaviour_step:
  assumes "behaviour step lab st" "inv (st i)"
  shows "inv (st (Suc i)) \<and> (st (Suc i) = st i \<and> (\<forall>l. lab i = Some l \<longrightarrow> \<not> good l) \<or> rank (st (Suc i)) < rank (st i))"
proof (cases "lab i")
  case None
  with assms(2) behaviour_at(1) [OF assms(1)] show ?thesis by simp
next
  case (Some l)
  then have "step l (st i) (st (Suc i))" by (rule behaviour_at(2) [OF assms(1)])
  with Some assms(2) keeps [of l "st i" "st (Suc i)"] lowers [of l "st i" "st (Suc i)"]
    stutters [of l "st i" "st (Suc i)"] show ?thesis
    by (cases "good l") auto
qed

text \<open>A fair behaviour settles in a state in which no good step is left.\<close>

lemma settles:
  assumes "behaviour step lab st" "fair good step lab st" "inv (st 0)"
  shows "\<exists>n. (\<forall>i\<ge>n. st i = st n) \<and> (\<forall>l z. good l \<longrightarrow> \<not> step l (st n) z)"
proof -
  have inv: "inv (st i)" for i using assms(3) behaviour_step [OF assms(1)] by (induction i) auto
  note after = behaviour_step [OF assms(1) inv]
  obtain n where n: "\<And>i. rank (st n) \<le> rank (st i)"
    using ex_has_least_nat [of "\<lambda>_. True" 0 "\<lambda>i. rank (st i)"] by auto
  have same: "st (n + k) = st n" for k
  proof (induction k)
    case (Suc k)
    then show ?case using after [of "n + k"] n [of "Suc (n + k)"] by auto
  qed simp
  have idle: "\<forall>l. lab (n + k) = Some l \<longrightarrow> \<not> good l" for k
    using after [of "n + k"] same [of k] same [of "Suc k"] by auto
  have "st i = st n" "\<forall>l. lab i = Some l \<longrightarrow> \<not> good l" if "n \<le> i" for i
    using same [of "i - n"] idle [of "i - n"] that by simp_all
  with assms(2) show ?thesis unfolding fair_def by blast
qed

end

section \<open>What every step means\<close>

locale simulation = preserved step inv
  for step :: "'l \<Rightarrow> 'c \<Rightarrow> 'c \<Rightarrow> bool" and inv :: "'c \<Rightarrow> bool" +
  fixes abs :: "'c \<Rightarrow> 'a" and astep :: "'a \<Rightarrow> 'a \<Rightarrow> bool"
  assumes abs_step: "step l y y' \<Longrightarrow> inv y \<Longrightarrow> astep (abs y) (abs y')"
begin

lemma abs_run: "runs step y ls z \<Longrightarrow> inv y \<Longrightarrow> astep\<^sup>*\<^sup>* (abs y) (abs z)"
proof (induction rule: runs.induct)
  case (snoc x ls y l z)
  from snoc.hyps(1) snoc.prems have "inv y" by (rule along)
  from abs_step [OF snoc.hyps(2) this] snoc.IH [OF snoc.prems] show ?case by simp
qed simp

end

end
