(* ===== verification/Scheduler_System.thy ===== *)
theory Scheduler_System
  imports Scheduler_Loops Transition_Runs
begin

text \<open>
  The scheduler as a whole: its threads run as interleaved atomic steps on the shared
  state. The scheduling thread is split where other threads can get in between: the
  decision (taken with the ready queue locked), the elasticity manager, the service of the
  allocation. Each connection handler tests the finished flag of its job, goes to wait on
  the job's condition variable, and tests again when it is woken.
\<close>

section \<open>States and steps\<close>

datatype sched_pc =
    Idle
  | Chosen rat allocations
  | Resized rat allocations

datatype handler_pc =
    Testing
  | Going_To_Wait
  | Waiting
  | Returned

record system =
  sch :: scheduler
  spc :: sched_pc
  threads :: "job_res_pair list"
  completed :: "jref list"
  notifying :: "jref option"
  handler :: "jref \<Rightarrow> handler_pc"

definition start_system :: "scheduler \<Rightarrow> system" where
  "start_system s = \<lparr>sch = s, spc = Idle, threads = [], completed = [], notifying = None,
     handler = (\<lambda>_. Returned)\<rparr>"

datatype label =
    Submit msg rat
  | Decide rat
  | Spin
  | Resize
  | Service rat
  | Dispatch
  | Complete job_res_pair msg rat rat rat
  | Finish rat
  | Notify
  | Test jref
  | Wait jref
  | Spurious jref

text \<open>
  \<open>completed\<close> is a ghost list of the jobs the finished-queue thread has handled. A handler
  that found its job finished is \<open>Returned\<close>. \<open>Spin\<close> is the iteration of the scheduling thread that
  finds jobs but no resource and goes straight back to the top of its loop: as long as the pool is
  empty the thread is busy waiting. \<open>Spurious\<close> is the wakeup without a
  notification that condition variables allow.
\<close>

inductive sys_step :: "label \<Rightarrow> system \<Rightarrow> system \<Rightarrow> bool" where
  submit: "concurrentHandler_submit m now (sch y) = (p, s') \<Longrightarrow>
     sys_step (Submit m now) y (y\<lparr>sch := s', handler := (handler y)(p := Testing)\<rparr>)"
| decide: "spc y = Idle \<Longrightarrow> readyQ (sch y) \<noteq> [] \<Longrightarrow> resPool (sch y) \<noteq> [] \<Longrightarrow>
     MODE_MANAGED < length (algVec (sch y)) \<Longrightarrow>
     call_alg (algVec (sch y) ! MODE_MANAGED) (sch y) = Inr (a, s') \<Longrightarrow>
     sys_step (Decide t0) y
       (if 0 < noJobs a then y\<lparr>sch := s', spc := Chosen t0 a\<rparr>
        else y\<lparr>sch := count_jobs 0 s', spc := Idle\<rparr>)"
| spin: "spc y = Idle \<Longrightarrow> readyQ (sch y) \<noteq> [] \<Longrightarrow> resPool (sch y) = [] \<Longrightarrow> sys_step Spin y y"
| resize: "spc y = Chosen t0 a \<Longrightarrow> updateResourcePool a (sch y) = Inr s' \<Longrightarrow>
     sys_step Resize y (y\<lparr>sch := s', spc := Resized t0 a\<rparr>)"
| service: "spc y = Resized t0 a \<Longrightarrow> serviceAllocations a t1 (sch y) = Inr s' \<Longrightarrow>
     sys_step (Service t1) y
       (y\<lparr>sch := count_jobs (noJobs a) (count_schedule t0 t1 s'), spc := Idle\<rparr>)"
| dispatch: "dispatcherLoop_iter (sch y) = Inr (pr, s') \<Longrightarrow>
     sys_step Dispatch y
       (y\<lparr>sch := s', threads := (case pr of None \<Rightarrow> threads y | Some t \<Rightarrow> threads y @ [t])\<rparr>)"
| complete: "pr \<in> set (threads y) \<Longrightarrow> runJob_request pr (sch y) = Inr rq \<Longrightarrow>
     msgId reply = MSG_RESULT \<Longrightarrow>
     sys_step (Complete pr reply start stop now) y
       (y\<lparr>sch := runJob_complete pr reply start stop now (sch y),
          threads := remove1 pr (threads y)\<rparr>)"
| finish: "notifying y = None \<Longrightarrow> finishedLoop_iter now (sch y) = Inr (p, s') \<Longrightarrow>
     sys_step (Finish now) y
       (y\<lparr>sch := s', completed := completed y @ [p], notifying := Some p\<rparr>)"
| notify: "notifying y = Some p \<Longrightarrow>
     sys_step Notify y
       (y\<lparr>notifying := None,
          handler := (if handler y p = Waiting then (handler y)(p := Testing) else handler y)\<rparr>)"
| test: "handler y p = Testing \<Longrightarrow>
     sys_step (Test p) y
       (y\<lparr>handler := (handler y)
          (p := if finished (tinfo (jobs (sch y) p)) then Returned else Going_To_Wait)\<rparr>)"
| wait: "handler y p = Going_To_Wait \<Longrightarrow>
     sys_step (Wait p) y (y\<lparr>handler := (handler y)(p := Waiting)\<rparr>)"
| spurious: "handler y p = Waiting \<Longrightarrow>
     sys_step (Spurious p) y (y\<lparr>handler := (handler y)(p := Testing)\<rparr>)"

lemma spin_same: "sys_step Spin y z \<Longrightarrow> z = y"
  by (erule sys_step.cases) simp_all

text \<open>Runs: a list of labels from one state to another.\<close>

abbreviation sys_run :: "system \<Rightarrow> label list \<Rightarrow> system \<Rightarrow> bool" where
  "sys_run \<equiv> runs sys_step"

lemmas sys_run_nil = runs.nil [where step = sys_step]
  and sys_run_snoc = runs.snoc [where step = sys_step]
  and sys_run_step = runs_step [where step = sys_step]
  and sys_run_append = runs_append [where step = sys_step]

definition init_system :: "int \<Rightarrow> (jref \<Rightarrow> job_tuple) \<Rightarrow> rat \<Rightarrow> rat \<Rightarrow> system" where
  "init_system dport store busy now = start_system (scheduler_main dport store busy now)"

definition reachable :: "system \<Rightarrow> bool" where
  "reachable y \<longleftrightarrow> (\<exists>dport store busy now ls. sys_run (init_system dport store busy now) ls y)"

section \<open>The invariant\<close>

text \<open>All places a job can be in, and all places a resource can be in.\<close>

definition job_places :: "system \<Rightarrow> jref list" where
  "job_places y = readyQ (sch y) @ map fst (runQ (sch y)) @ map fst (threads y) @
     finishedQ (sch y) @ completed y"

definition rid_places :: "system \<Rightarrow> int list" where
  "rid_places y = map rid (resPool (sch y)) @ map rid (held (runQ (sch y))) @
     map rid (held (threads y))"

definition inv_jobs :: "system \<Rightarrow> bool" where
  "inv_jobs y \<longleftrightarrow> distinct (job_places y) \<and> set (job_places y) = {..<nextRef (sch y)} \<and>
     nextJid (sch y) = int (nextRef (sch y)) + 1 \<and>
     (\<forall>p<nextRef (sch y). jid (job_at (sch y) p) = int p + 1 \<and>
        jmin (job_at (sch y) p) = 1 \<and> jmax (job_at (sch y) p) = 4)"

definition inv_resources :: "system \<Rightarrow> bool" where
  "inv_resources y \<longleftrightarrow> distinct (rid_places y) \<and>
     set (rid_places y) \<subseteq> {1..<resourceId (sch y)} \<and> 1 \<le> resourceId (sch y) \<and>
     int (length (rid_places y)) = provisionedResources (sch y)"

definition inv_flags :: "system \<Rightarrow> bool" where
  "inv_flags y \<longleftrightarrow>
     (\<forall>p<nextRef (sch y).
        started (tinfo (jobs (sch y) p)) =
          (p \<notin> set (readyQ (sch y)) \<and> p \<notin> set (map fst (runQ (sch y)))) \<and>
        finished (tinfo (jobs (sch y) p)) = (p \<in> set (completed y)) \<and>
        (p \<in> set (finishedQ (sch y)) \<union> set (completed y) \<longrightarrow>
           (\<exists>r. rsp (job_at (sch y) p) = Some r \<and> msgId r = MSG_RESULT)) \<and>
        (handler y p = Returned \<longrightarrow> p \<in> set (completed y)))"

definition inv_config :: "system \<Rightarrow> bool" where
  "inv_config y \<longleftrightarrow> window (sch y) = 5 \<and> strat (sch y) = ''Completion Time'' \<and>
     algVec (sch y) =
       [FCFSMax_alg, FCFSMin_alg, FCFSAsManyAsPos_alg, SJTF_alg, Priority_alg, ManagedMode_alg]"

text \<open>What the scheduling thread remembers between its steps is still about the queues.\<close>

definition pending_ok :: "scheduler \<Rightarrow> allocations \<Rightarrow> bool" where
  "pending_ok s a \<longleftrightarrow> 0 < noJobs a \<and> distinct (map fst (ajobs a)) \<and>
     set (map fst (ajobs a)) \<subseteq> set (readyQ s)"

definition inv_pending :: "system \<Rightarrow> bool" where
  "inv_pending y \<longleftrightarrow> (case spc y of
       Idle \<Rightarrow> True
     | Chosen t a \<Rightarrow> pending_ok (sch y) a \<and> mset (held (ajobs a)) \<subseteq># mset (resPool (sch y))
     | Resized t a \<Rightarrow> pending_ok (sch y) a)"

definition sys_inv :: "system \<Rightarrow> bool" where
  "sys_inv y \<longleftrightarrow> inv_jobs y \<and> inv_resources y \<and> inv_flags y \<and> inv_config y \<and> inv_pending y"

lemmas sys_inv_defs = inv_jobs_def inv_resources_def inv_flags_def inv_config_def
  inv_pending_def job_places_def rid_places_def

lemma sys_invI:
  "inv_jobs y \<Longrightarrow> inv_resources y \<Longrightarrow> inv_flags y \<Longrightarrow> inv_config y \<Longrightarrow> inv_pending y \<Longrightarrow> sys_inv y"
  by (simp add: sys_inv_def)

lemma sys_inv_init: "sys_inv (init_system dport store busy now)"
  by (simp add: sys_inv_def sys_inv_defs init_system_def start_system_def scheduler_main_def
      Scheduler_new_def addSchedAlg_def provisionResource_def addResource_new_def push_back_def
      Resource_new_def)

section \<open>Preservation\<close>

lemma inv_jobs_cong:
  assumes "inv_jobs y" and "mset (job_places y') = mset (job_places y)"
    and "nextRef (sch y') = nextRef (sch y)" "nextJid (sch y') = nextJid (sch y)"
    and "\<And>p. same_job (job_at (sch y) p) (job_at (sch y') p)"
  shows "inv_jobs y'"
  using assms(1,3,4,5) mset_eq_imp_distinct_iff [OF assms(2)] mset_eq_setD [OF assms(2)]
  by (simp add: inv_jobs_def same_job_def)

lemma inv_resources_cong:
  assumes "inv_resources y" and "mset (rid_places y') = mset (rid_places y)"
    and "resourceId (sch y') = resourceId (sch y)"
    and "provisionedResources (sch y') = provisionedResources (sch y)"
  shows "inv_resources y'"
  using assms(1,3,4) mset_eq_imp_distinct_iff [OF assms(2)] mset_eq_setD [OF assms(2)]
    mset_eq_length [OF assms(2)]
  by (simp add: inv_resources_def)

lemma inv_jobs_jid:
  assumes "inv_jobs y" "p < nextRef (sch y)" "q < nextRef (sch y)"
    and "jid (job_at (sch y) p) = jid (job_at (sch y) q)"
  shows "p = q"
  using assms by (simp add: inv_jobs_def)

lemma inv_jobs_jids:
  assumes "inv_jobs y"
  shows "distinct (map (\<lambda>p. jid (job_at (sch y) p)) (readyQ (sch y)))"
proof -
  have "distinct (readyQ (sch y))" "set (readyQ (sch y)) \<subseteq> {..<nextRef (sch y)}"
    using assms by (auto simp: inv_jobs_def job_places_def)
  then show ?thesis by (auto simp: distinct_map intro!: inj_onI inv_jobs_jid [OF assms])
qed

text \<open>Steps that only touch handlers.\<close>

lemma sys_inv_handler:
  assumes "sys_inv y" and "y' = y\<lparr>handler := h, notifying := n\<rparr>"
    and "\<And>p. h p = Returned \<Longrightarrow> handler y p = Returned \<or> finished (tinfo (jobs (sch y) p))"
  shows "sys_inv y'"
proof -
  have "\<And>p. p < nextRef (sch y) \<Longrightarrow> h p = Returned \<Longrightarrow> p \<in> set (completed y)"
    using assms(1,3) by (auto simp: sys_inv_def inv_flags_def)
  moreover
  have "job_places y' = job_places y" "rid_places y' = rid_places y"
    by (simp_all add: assms(2) job_places_def rid_places_def)
  ultimately have "inv_jobs y'" "inv_resources y'" "inv_config y'" "inv_pending y'" "inv_flags y'"
    using assms(1,2) by (simp_all add: sys_inv_def inv_jobs_def inv_resources_def inv_config_def
        inv_pending_def inv_flags_def split: sched_pc.splits)
  then show ?thesis by (simp add: sys_inv_def)
qed

lemma concurrentHandler_submit_eq:
  "concurrentHandler_submit m now s =
     (nextRef s, s\<lparr>nextJid := nextJid s + 1,
        jobs := (jobs s)(nextRef s := \<lparr>tjob = (Job_new m (nextJid s) now)\<lparr>issueTime := now\<rparr>,
          tinfo = \<lparr>finished = False, started = False\<rparr>\<rparr>),
        nextRef := nextRef s + 1, readyQ := nextRef s # readyQ s\<rparr>)"
  by (simp add: concurrentHandler_submit_def getNextId_def push_front_def Let_def)

lemma sys_inv_submit:
  assumes "sys_inv y" and "concurrentHandler_submit m now (sch y) = (p, s')"
    and "y' = y\<lparr>sch := s', handler := (handler y)(p := Testing)\<rparr>"
  shows "sys_inv y'"
proof (rule sys_invI)
  let ?n = "nextRef (sch y)"
  have inv: "inv_jobs y" "inv_resources y" "inv_flags y" "inv_config y" "inv_pending y"
    using assms(1) by (simp_all add: sys_inv_def)
  have p: "p = ?n" and s': "s' = snd (concurrentHandler_submit m now (sch y))"
    using assms(2) by (auto simp: concurrentHandler_submit_eq)
  have new: "?n \<notin> set (job_places y)" using inv(1) by (simp add: inv_jobs_def)
  have "job_places y' = ?n # job_places y"
    by (simp add: assms(3) s' concurrentHandler_submit_eq job_places_def)
  with inv(1) new show "inv_jobs y'"
    by (auto simp: assms(3) s' concurrentHandler_submit_eq inv_jobs_def less_Suc_eq)
  show "inv_resources y'" using inv(2)
    by (simp add: assms(3) s' concurrentHandler_submit_eq inv_resources_def rid_places_def)
  show "inv_flags y'" using inv(3) new
    by (auto simp: assms(3) p s' concurrentHandler_submit_eq inv_flags_def job_places_def less_Suc_eq)
  show "inv_config y'" using inv(4)
    by (simp add: assms(3) s' concurrentHandler_submit_eq inv_config_def)
  show "inv_pending y'" using inv(5)
    by (auto simp: assms(3) s' concurrentHandler_submit_eq inv_pending_def pending_ok_def
        split: sched_pc.splits)
qed

text \<open>A state in which the managed mode can run.\<close>

lemma sys_inv_ready_to_schedule:
  assumes "sys_inv y" and "readyQ (sch y) \<noteq> []" and "resPool (sch y) \<noteq> []"
  shows "ready_to_schedule (sch y)"
  using assms by (auto simp: sys_inv_def sys_inv_defs ready_to_schedule_def wf_jobs_def)

lemma ManagedMode_sound:
  assumes "ready_to_schedule s" "ManagedMode s = Inr (a, s')"
  obtains pool where "s' = s\<lparr>resPool := pool\<rparr>" "mset pool = mset (resPool s)" "sound_allocation s a"
  using ManagedMode_spec [OF assms] candidate_sound [OF assms(1)] by metis

text \<open>What the decision step can do: only the order of the pool changes.\<close>

lemma sys_inv_managed:
  "sys_inv y \<Longrightarrow> call_alg (algVec (sch y) ! MODE_MANAGED) (sch y) = ManagedMode (sch y)"
  by (simp add: sys_inv_def inv_config_def MODE_MANAGED_def call_alg_def)

lemma sys_inv_decision:
  assumes "sys_inv y" "readyQ (sch y) \<noteq> []" "resPool (sch y) \<noteq> []"
    and "call_alg (algVec (sch y) ! MODE_MANAGED) (sch y) = Inr (a, s')"
  obtains pool where "s' = (sch y)\<lparr>resPool := pool\<rparr>" "mset pool = mset (resPool (sch y))"
    "sound_allocation (sch y) a"
  using ManagedMode_sound [OF sys_inv_ready_to_schedule [OF assms(1-3)]] sys_inv_managed [OF assms(1)]
    assms(4) by metis

lemma sound_pending:
  "sound_allocation s a \<Longrightarrow> 0 < noJobs a \<Longrightarrow> pending_ok s a"
  using set_take_subset [of "window s" "readyQ s"]
  by (auto simp: sound_allocation_def pending_ok_def)

lemma sys_inv_pool:
  assumes "sys_inv y" "y' = y\<lparr>sch := (sch y)\<lparr>resPool := pool, stats := st\<rparr>, spc := Idle\<rparr>"
    and "mset pool = mset (resPool (sch y))"
  shows "sys_inv y'"
proof (rule sys_invI)
  have inv: "inv_jobs y" "inv_resources y" "inv_flags y" "inv_config y"
    using assms(1) by (simp_all add: sys_inv_def)
  show "inv_jobs y'" using inv(1) by (rule inv_jobs_cong) (simp_all add: assms(2) job_places_def)
  show "inv_resources y'"
    using inv(2) by (rule inv_resources_cong) (simp_all add: assms(2,3) rid_places_def)
  show "inv_flags y'" "inv_config y'" "inv_pending y'"
    using inv(3,4) by (simp_all add: assms(2) inv_flags_def inv_config_def inv_pending_def)
qed

lemma sys_inv_decide:
  assumes "sys_inv y" "readyQ (sch y) \<noteq> []" "resPool (sch y) \<noteq> []"
    and "call_alg (algVec (sch y) ! MODE_MANAGED) (sch y) = Inr (a, s')"
    and "y' = (if 0 < noJobs a then y\<lparr>sch := s', spc := Chosen t0 a\<rparr>
        else y\<lparr>sch := count_jobs 0 s', spc := Idle\<rparr>)"
  shows "sys_inv y'"
proof -
  let ?s = "sch y"
  obtain pool where s': "s' = ?s\<lparr>resPool := pool\<rparr>" and pool: "mset pool = mset (resPool ?s)"
    and sound: "sound_allocation ?s a"
    using sys_inv_decision [OF assms(1-4)] .
  let ?z = "\<lambda>st. y\<lparr>sch := ?s\<lparr>resPool := pool, stats := st\<rparr>, spc := Idle\<rparr>"
  have z: "sys_inv (?z st)" for st using sys_inv_pool [OF assms(1) refl pool] .
  show ?thesis
  proof (cases "0 < noJobs a")
    case True
    have y': "y' = (?z (stats ?s))\<lparr>spc := Chosen t0 a\<rparr>" using assms(5) True s' by simp
    have "inv_pending y'" using sound_pending [OF sound True] sound pool
      by (simp add: y' inv_pending_def pending_ok_def sound_allocation_def)
    with z [of "stats ?s"] show ?thesis
      by (simp add: y' sys_inv_def inv_jobs_def inv_resources_def inv_flags_def inv_config_def
          job_places_def rid_places_def)
  next
    case False
    then have "y' = ?z (stats ?s)" using assms(5) s' by (simp add: count_jobs_def)
    then show ?thesis using z by blast
  qed
qed

lemma updateResourcePool_cases:
  assumes "updateResourcePool a s = Inr s'"
  obtains "s' = s" | "s' = provisionResource s"
  | r pool where "resPool s = pool @ [r]"
      "s' = s\<lparr>resPool := pool, provisionedResources := provisionedResources s - 1\<rparr>"
proof -
  let ?m = "getJLOMetric (job_at s) a"
  consider (prov) "s' = provisionResource s" | (dep) "deprovisionResource s = Inr s'" | (same) "s' = s"
    using assms unfolding updateResourcePool_def Let_def
    by (cases "fp_less ?m (Fin 0)"; cases "fp_less (Fin 1) ?m") auto
  then show thesis
  proof cases
    case dep
    then show ?thesis by (cases rule: deprovisionResource_cases) (use that in auto)
  qed (use that in auto)
qed

lemma sys_inv_resize:
  assumes "sys_inv y" "spc y = Chosen t0 a" "updateResourcePool a (sch y) = Inr s'"
    and "y' = y\<lparr>sch := s', spc := Resized t0 a\<rparr>"
  shows "sys_inv y'"
proof (rule sys_invI)
  have inv: "inv_jobs y" "inv_resources y" "inv_flags y" "inv_config y" "pending_ok (sch y) a"
    using assms(1,2) by (simp_all add: sys_inv_def inv_pending_def)
  have same: "readyQ s' = readyQ (sch y)" "runQ s' = runQ (sch y)" "finishedQ s' = finishedQ (sch y)"
    "jobs s' = jobs (sch y)" "nextRef s' = nextRef (sch y)" "nextJid s' = nextJid (sch y)"
    "algVec s' = algVec (sch y)" "window s' = window (sch y)" "strat s' = strat (sch y)"
    using assms(3) by (cases rule: updateResourcePool_cases, simp_all)+
  show "inv_jobs y'" using inv(1) by (rule inv_jobs_cong) (simp_all add: assms(4) same job_places_def)
  show "inv_flags y'" "inv_config y'" "inv_pending y'"
    using inv(3-5) by (simp_all add: assms(4) same inv_flags_def inv_config_def inv_pending_def pending_ok_def)
  from assms(3) show "inv_resources y'"
  proof (cases rule: updateResourcePool_cases)
    case 2
    let ?i = "resourceId (sch y)"
    have m: "mset (rid_places y') = mset (?i # rid_places y)"
      using 2 by (simp add: assms(4) rid_places_def Resource_new_def)
    have "?i \<notin> set (rid_places y)" using inv(2) by (auto simp: inv_resources_def)
    with inv(2) 2 show ?thesis
      using mset_eq_imp_distinct_iff [OF m] mset_eq_setD [OF m] mset_eq_length [OF m]
      by (auto simp: inv_resources_def assms(4))
  next
    case (3 r pool)
    have m: "mset (rid_places y) = mset (rid r # rid_places y')"
      using 3 by (simp add: assms(4) rid_places_def)
    from inv(2) 3 show ?thesis
      using mset_eq_imp_distinct_iff [OF m] mset_eq_setD [OF m] mset_eq_length [OF m]
      by (auto simp: inv_resources_def assms(4))
  qed (use inv(2) in \<open>simp add: assms(4) inv_resources_def rid_places_def\<close>)
qed

lemma held_rev: "mset (held (rev ps)) = mset (held ps)"
  by (induction ps) simp_all

text \<open>Serving a pending allocation moves its jobs and its resources to the run queue.\<close>

lemma serviced:
  assumes "inv_jobs y" "pending_ok (sch y) a" "serviceAllocations a t1 (sch y) = Inr s'"
  shows "readyQ s' = filter (\<lambda>q. q \<notin> set (map fst (ajobs a))) (readyQ (sch y)) \<and>
     runQ s' = rev (ajobs a) @ runQ (sch y) \<and>
     mset (map rid (resPool (sch y))) = mset (map rid (held (ajobs a))) + mset (map rid (resPool s')) \<and>
     finishedQ s' = finishedQ (sch y) \<and> nextRef s' = nextRef (sch y) \<and> nextJid s' = nextJid (sch y) \<and>
     algVec s' = algVec (sch y) \<and> window s' = window (sch y) \<and> strat s' = strat (sch y) \<and>
     resourceId s' = resourceId (sch y) \<and> provisionedResources s' = provisionedResources (sch y) \<and>
     (\<forall>q. same_job (job_at (sch y) q) (job_at s' q) \<and> tinfo (jobs s' q) = tinfo (jobs (sch y) q) \<and>
        rsp (job_at s' q) = rsp (job_at (sch y) q))"
  using serviceAllocations_loop_spec [OF assms(3) [unfolded serviceAllocations_def] _ _
      inv_jobs_jids [OF assms(1)]] assms(2) by (simp add: pending_ok_def)

lemma sys_inv_service:
  assumes "sys_inv y" "spc y = Resized t0 a" "serviceAllocations a t1 (sch y) = Inr s'"
    and "y' = y\<lparr>sch := count_jobs (noJobs a) (count_schedule t0 t1 s'), spc := Idle\<rparr>"
  shows "sys_inv y'"
proof (rule sys_invI)
  have inv: "inv_jobs y" "inv_resources y" "inv_flags y" "inv_config y" "pending_ok (sch y) a"
    using assms(1,2) by (simp_all add: sys_inv_def inv_pending_def)
  let ?s = "sch y" and ?ps = "ajobs a"
  have d: "distinct (map fst ?ps)" "set (map fst ?ps) \<subseteq> set (readyQ ?s)"
    using inv(5) by (simp_all add: pending_ok_def)
  have q: "distinct (readyQ ?s)" using inv(1) by (auto simp: inv_jobs_def job_places_def)
  note spec = serviced [OF inv(1,5) assms(3)]
  have part: "mset (filter (\<lambda>q. q \<notin> set (map fst ?ps)) (readyQ ?s)) + mset (map fst ?ps) = mset (readyQ ?s)"
  proof -
    have "mset (map fst ?ps) = mset (filter (\<lambda>q. q \<in> set (map fst ?ps)) (readyQ ?s))"
      using d q by (intro set_eq_iff_mset_eq_distinct [THEN iffD1]) auto
    then show ?thesis by (simp add: mset_filter multiset_partition [symmetric])
  qed
  have "mset (job_places y') = mset (job_places y)"
    using part spec by (simp add: assms(4) job_places_def count_jobs_def count_schedule_def rev_map)
  then show "inv_jobs y'" using inv(1) spec
    by (intro inv_jobs_cong [OF inv(1)]) (simp_all add: assms(4) count_jobs_def count_schedule_def)
  show "inv_resources y'" using spec
    by (intro inv_resources_cong [OF inv(2)])
      (simp_all add: assms(4) count_jobs_def count_schedule_def rid_places_def held_rev)
  have "(p \<notin> set (readyQ s') \<and> p \<notin> set (map fst (runQ s'))) =
     (p \<notin> set (readyQ ?s) \<and> p \<notin> set (map fst (runQ ?s)))" for p
    using spec d(2) by auto
  then show "inv_flags y'" using inv(3) spec
    by (simp add: assms(4) count_jobs_def count_schedule_def inv_flags_def)
  show "inv_config y'" "inv_pending y'" using inv(4) spec
    by (simp_all add: assms(4) count_jobs_def count_schedule_def inv_config_def inv_pending_def)
qed

lemma dispatcherLoop_iter_Inr:
  assumes "dispatcherLoop_iter s = Inr (pr, s')"
  obtains p rs q where "runQ s = (p, rs) # q"
    "(if started (tinfo (jobs s p)) then pr = None \<and> s' = s\<lparr>runQ := q\<rparr>
      else pr = Some (p, rs) \<and> s' = update_info p (\<lambda>i. i\<lparr>started := True\<rparr>) (s\<lparr>runQ := q\<rparr>))"
proof -
  from assms obtain e q where "wait_pop_front (runQ s) = Inr (e, q)"
    and "(if \<not> started (tinfo (jobs s (fst e)))
       then Inr (Some e, update_info (fst e) (\<lambda>i. i\<lparr>started := True\<rparr>) (s\<lparr>runQ := q\<rparr>))
       else Inr (None, s\<lparr>runQ := q\<rparr>)) = (Inr (pr, s') :: (job_res_pair option \<times> scheduler) result)"
    by (auto simp: dispatcherLoop_iter_def bindR_eq_Inr Let_def)
  then show thesis
    by (intro that [of "fst e" "snd e" q]) (auto simp: wait_pop_front_Inr split: if_splits)
qed

lemma sys_inv_dispatch:
  assumes "sys_inv y" "dispatcherLoop_iter (sch y) = Inr (pr, s')"
    and "y' = y\<lparr>sch := s', threads := (case pr of None \<Rightarrow> threads y | Some t \<Rightarrow> threads y @ [t])\<rparr>"
  shows "sys_inv y'"
proof (rule sys_invI)
  have inv: "inv_jobs y" "inv_resources y" "inv_flags y" "inv_config y" "inv_pending y"
    using assms(1) by (simp_all add: sys_inv_def)
  obtain p rs q where q: "runQ (sch y) = (p, rs) # q"
    and st: "if started (tinfo (jobs (sch y) p)) then pr = None \<and> s' = (sch y)\<lparr>runQ := q\<rparr>
      else pr = Some (p, rs) \<and> s' = update_info p (\<lambda>i. i\<lparr>started := True\<rparr>) ((sch y)\<lparr>runQ := q\<rparr>)"
    using dispatcherLoop_iter_Inr [OF assms(2)] by blast
  have p: "p < nextRef (sch y)" "p \<notin> set (readyQ (sch y))" "p \<notin> set (map fst q)"
    using inv(1) by (auto simp: inv_jobs_def job_places_def q)
  then have "\<not> started (tinfo (jobs (sch y) p))" using inv(3) by (simp add: inv_flags_def q)
  with st have y': "y' = y\<lparr>sch := update_info p (\<lambda>i. i\<lparr>started := True\<rparr>) ((sch y)\<lparr>runQ := q\<rparr>),
      threads := threads y @ [(p, rs)]\<rparr>"
    using assms(3) by simp
  show "inv_jobs y'" by (rule inv_jobs_cong [OF inv(1)]) (simp_all add: y' job_places_def q)
  show "inv_resources y'" by (rule inv_resources_cong [OF inv(2)]) (simp_all add: y' rid_places_def q)
  show "inv_flags y'" using inv(3) p by (simp add: y' inv_flags_def q)
  show "inv_config y'" using inv(4) by (simp add: y' inv_config_def)
  show "inv_pending y'" using inv(5)
    by (simp add: y' inv_pending_def pending_ok_def split: sched_pc.splits)
qed

text \<open>The job is no longer in the run queue when its thread is done, so the removal finds nothing.\<close>

lemma removeJobFromRunQ_absent:
  "\<forall>e\<in>set (runQ s). jid (job_at s (fst e)) \<noteq> i \<Longrightarrow> removeJobFromRunQ i s = s"
  by (cases "find_if (idEq s i) (runQ s)")
    (auto simp: removeJobFromRunQ_def idEq_def dest!: find_if_Some)

lemma runJob_complete_simps:
  assumes "\<forall>e\<in>set (runQ s). jid (job_at s (fst e)) \<noteq> jid (job_at s (fst pr))"
  shows "runJob_complete pr reply start stop now s =
    update_job (fst pr) (\<lambda>j. j\<lparr>measuredExecutionTime := stop - start,
        actualExecutionTime := millis (predictedTimeMillis reply), rsp := Some reply,
        finishTime := now\<rparr>)
      (s\<lparr>resPool := resPool s @ snd pr, finishedQ := fst pr # finishedQ s\<rparr>)"
proof -
  let ?s = "update_job (fst pr) (\<lambda>j. j\<lparr>measuredExecutionTime := stop - start,
        actualExecutionTime := millis (predictedTimeMillis reply), rsp := Some reply,
        finishTime := now\<rparr>)
      (s\<lparr>resPool := resPool s @ snd pr, finishedQ := fst pr # finishedQ s\<rparr>)"
  have "runJob_complete pr reply start stop now s = removeJobFromRunQ (jid (job_at ?s (fst pr))) ?s"
    by (cases s) (simp add: runJob_complete_def returnResources_eq update_job_def push_front_def Let_def)
  also have "\<dots> = ?s" using assms by (intro removeJobFromRunQ_absent) auto
  finally show ?thesis .
qed

lemma held_remove1: "e \<in> set ps \<Longrightarrow> mset (held ps) = mset (snd e) + mset (held (remove1 e ps))"
  by (induction ps) auto

lemma mset_map_remove1:
  "e \<in> set ps \<Longrightarrow> mset (map f ps) = add_mset (f e) (mset (map f (remove1 e ps)))"
  by (induction ps) auto

text \<open>The run queue holds no entry with the id of a running job, so the removal finds none.\<close>

lemma running_complete_eq:
  assumes "inv_jobs y" "pr \<in> set (threads y)"
  shows "runJob_complete pr reply start stop now (sch y) =
    update_job (fst pr) (\<lambda>j. j\<lparr>measuredExecutionTime := stop - start,
        actualExecutionTime := millis (predictedTimeMillis reply), rsp := Some reply,
        finishTime := now\<rparr>)
      ((sch y)\<lparr>resPool := resPool (sch y) @ snd pr, finishedQ := fst pr # finishedQ (sch y)\<rparr>)"
proof -
  let ?s = "sch y" and ?p = "fst pr"
  have p: "?p < nextRef ?s" "?p \<notin> set (map fst (runQ ?s))" "\<forall>e\<in>set (runQ ?s). fst e < nextRef ?s"
    using assms by (auto simp: inv_jobs_def job_places_def)
  have "\<forall>e\<in>set (runQ ?s). jid (job_at ?s (fst e)) \<noteq> jid (job_at ?s ?p)"
  proof (intro ballI notI)
    fix e assume e: "e \<in> set (runQ ?s)" "jid (job_at ?s (fst e)) = jid (job_at ?s ?p)"
    then have "fst e = ?p" using inv_jobs_jid [OF assms(1) _ p(1)] p(3) by blast
    with e(1) p(2) show False by (metis image_eqI list.set_map)
  qed
  then show ?thesis by (rule runJob_complete_simps)
qed

lemma sys_inv_complete:
  assumes "sys_inv y" "pr \<in> set (threads y)" "msgId reply = MSG_RESULT"
    and "y' = y\<lparr>sch := runJob_complete pr reply start stop now (sch y),
          threads := remove1 pr (threads y)\<rparr>"
  shows "sys_inv y'"
proof (rule sys_invI)
  have inv: "inv_jobs y" "inv_resources y" "inv_flags y" "inv_config y" "inv_pending y"
    using assms(1) by (simp_all add: sys_inv_def)
  let ?s = "sch y" and ?p = "fst pr"
  note eq = running_complete_eq [OF inv(1) assms(2)]
  show "inv_jobs y'" using mset_map_remove1 [OF assms(2), of fst]
    by (intro inv_jobs_cong [OF inv(1)]) (simp_all add: assms(4) eq job_places_def same_job_def)
  have "mset (map rid (held (threads y))) = mset (map rid (snd pr)) + mset (map rid (held (remove1 pr (threads y))))"
    using held_remove1 [OF assms(2)] by (metis image_mset_union mset_map)
  then show "inv_resources y'"
    by (intro inv_resources_cong [OF inv(2)]) (simp_all add: assms(4) eq rid_places_def)
  show "inv_flags y'" using inv(3) assms(3) by (simp add: assms(4) eq inv_flags_def)
  show "inv_config y'" using inv(4) by (simp add: assms(4) eq inv_config_def)
  show "inv_pending y'" using inv(5)
    by (auto simp: assms(4) eq inv_pending_def pending_ok_def split: sched_pc.splits
        intro: subset_mset.add_increasing2)
qed

lemma sys_inv_finish:
  assumes "sys_inv y" "finishedLoop_iter now (sch y) = Inr (p, s')"
    and "y' = y\<lparr>sch := s', completed := completed y @ [p], notifying := Some p\<rparr>"
  shows "sys_inv y'"
proof (rule sys_invI)
  have inv: "inv_jobs y" "inv_resources y" "inv_flags y" "inv_config y" "inv_pending y"
    using assms(1) by (simp_all add: sys_inv_def)
  obtain q st where q: "finishedQ (sch y) = p # q"
    and s': "s' = update_info p (\<lambda>i. i\<lparr>finished := True\<rparr>) ((sch y)\<lparr>finishedQ := q, stats := st\<rparr>)"
    using assms(2) by (auto simp: finishedLoop_iter_def bindR_eq_Inr wait_pop_front_Inr Let_def)
  have p: "p < nextRef (sch y)" using inv(1) by (auto simp: inv_jobs_def job_places_def q)
  show "inv_jobs y'" by (rule inv_jobs_cong [OF inv(1)]) (simp_all add: assms(3) s' job_places_def q)
  show "inv_resources y'" by (rule inv_resources_cong [OF inv(2)]) (simp_all add: assms(3) s' rid_places_def)
  show "inv_flags y'" using inv(3) p by (auto simp: assms(3) s' inv_flags_def q)
  show "inv_config y'" using inv(4) by (simp add: assms(3) s' inv_config_def)
  show "inv_pending y'" using inv(5)
    by (simp add: assms(3) s' inv_pending_def pending_ok_def split: sched_pc.splits)
qed

lemma sys_inv_step:
  assumes "sys_step l y y'" and "sys_inv y"
  shows "sys_inv y'"
  using assms(1)
proof cases
  case (submit m now p s')
  then show ?thesis using sys_inv_submit [OF assms(2)] by blast
next
  case (decide a s' t0)
  then show ?thesis using sys_inv_decide [OF assms(2)] by blast
next
  case (resize t0 a s')
  then show ?thesis using sys_inv_resize [OF assms(2)] by blast
next
  case (service t0 a t1 s')
  then show ?thesis using sys_inv_service [OF assms(2)] by blast
next
  case (dispatch pr s')
  then show ?thesis using sys_inv_dispatch [OF assms(2)] by blast
next
  case (complete pr rq reply start stop now)
  then show ?thesis using sys_inv_complete [OF assms(2)] by blast
next
  case (finish now p s')
  then show ?thesis using sys_inv_finish [OF assms(2)] by blast
next
  case (notify p)
  then show ?thesis
    by (intro sys_inv_handler [OF assms(2), where n = None and
          h = "if handler y p = Waiting then (handler y)(p := Testing) else handler y"])
      (auto split: if_splits)
next
  case (test p)
  then show ?thesis
    by (intro sys_inv_handler [OF assms(2), where n = "notifying y" and h = "(handler y)
          (p := if finished (tinfo (jobs (sch y) p)) then Returned else Going_To_Wait)"])
      (auto split: if_splits)
next
  case (wait p)
  then show ?thesis
    by (intro sys_inv_handler [OF assms(2), where n = "notifying y" and h = "(handler y)(p := Waiting)"])
      (auto split: if_splits)
next
  case (spurious p)
  then show ?thesis
    by (intro sys_inv_handler [OF assms(2), where n = "notifying y" and h = "(handler y)(p := Testing)"])
      (auto split: if_splits)
qed (use assms(2) in simp)

interpretation whole: preserved sys_step sys_inv
  by unfold_locales (rule sys_inv_step)

lemma reachable_sys_inv: "reachable y \<Longrightarrow> sys_inv y"
  using whole.along [OF _ sys_inv_init] unfolding reachable_def by blast

lemma sys_run_reachable: "sys_run (init_system d st b n) ls y \<Longrightarrow> reachable y"
  unfolding reachable_def by blast

lemma reachable_run: "reachable y \<Longrightarrow> sys_run y ls z \<Longrightarrow> reachable z"
  unfolding reachable_def by (meson sys_run_append)

lemma reachable_step: "reachable y \<Longrightarrow> sys_step l y z \<Longrightarrow> reachable z"
  using reachable_run [OF _ sys_run_step] .

inductive_cases resizeE: "sys_step Resize y z"
inductive_cases serviceE: "sys_step (Service t) y z"

end
