(* ===== verification/Scheduler_Guarantees.thy ===== *)
theory Scheduler_Guarantees
  imports Scheduler_System
begin

text \<open>
  What the running scheduler guarantees, and where it does not: allocations that reach the
  run queue have resources, a decision can be carried out when the pool is not shrunk in
  between, the order in which jobs are served, and the runs in which the scheduling thread
  fails, starves or leaves a client waiting.
\<close>

section \<open>Chosen allocations give every job a resource\<close>

lemma allocate_one:
  "resPool s = pool @ [r] \<Longrightarrow> allocate 1 1 s = ([r], s\<lparr>resPool := pool\<rparr>)"
  by (simp add: allocate_eq)

lemma fcfs_list_ones:
  assumes "\<forall>j\<in>set js. jmin (job_at s j) = 1" and "fcfs_list jmin jmin js s a = (a', s')"
  shows "length (ajobs a') = length (ajobs a) + min (length js) (length (resPool s))"
  using assms
proof (induction js arbitrary: s a)
  case (Cons j js)
  show ?case
  proof (cases "resPool s" rule: rev_cases)
    case Nil
    with Cons.prems show ?thesis by (auto simp: allocate_eq)
  next
    case (snoc pool r)
    let ?s = "s\<lparr>resPool := pool\<rparr>"
    have j: "jmin (job_at s j) = 1" using Cons.prems(1) by simp
    from Cons.prems(2) have "fcfs_list jmin jmin js ?s (addJobResourcePair j [r] a) = (a', s')"
      unfolding fcfs_list.simps j allocate_one [OF snoc] by simp
    from Cons.IH [OF _ this] Cons.prems(1) snoc show ?thesis by simp
  qed
qed simp

lemma FCFSMin_count:
  assumes "FCFSMin s = Inr (a, s')" and "\<forall>p\<in>set (readyQ s). jmin (job_at s p) = 1"
  shows "noJobs a = min (min (window s) (length (readyQ s))) (length (resPool s))"
proof -
  have "fcfs_list jmin jmin (take (window s) (readyQ s)) s Allocations_new = (a, s')"
    using assms(1) by (simp add: FCFSMin_def fcfs_loop_list)
  from fcfs_list_ones [OF _ this] assms(2)
  have "length (ajobs a) = min (min (window s) (length (readyQ s))) (length (resPool s))"
    by (auto simp: min.commute dest: in_set_takeD)
  moreover have "\<forall>p\<in>set (ajobs a). snd p \<noteq> []"
    using fcfs_nonempty_shares assms(1) unfolding FCFSMin_def by blast
  ultimately show ?thesis by (simp add: noJobs_eq filter_id_conv)
qed

text \<open>An algorithm either leaves no listed job without a resource or gives full shares.\<close>

lemma run_alg_shares:
  assumes "run_alg g s = Inr (a, s')" "g \<noteq> ManagedMode_alg"
  shows "(\<forall>p\<in>set (ajobs a). snd p \<noteq> []) \<or>
    (\<forall>p\<in>set (ajobs a). snd p \<noteq> [] \<longrightarrow> length (snd p) = jmax (job_at s (fst p)))"
proof (cases g)
  case SJTF_alg
  then have run: "SJTF s = Inr (a, s')" using assms(1) by simp
  show ?thesis using greedy_run_spec(5) [OF SJTF_greedy [OF run]] SJTF_empty [OF run]
    by (cases "readyQ s = []") fastforce+
next
  case Priority_alg
  then show ?thesis using assms(1) greedy_run_spec(5) [OF Priority_greedy] by fastforce
qed (use assms fcfs_nonempty_shares [of _ _ s a s'] in
    \<open>auto simp: FCFSMin_def FCFSMax_def FCFSAsManyAsPos_def\<close>)

lemma score_infinite:
  assumes "scorable s" "readyQ s \<noteq> []" "noJobs a \<noteq> 0" "noJobs a \<le> 5"
    and "makespan (job_at s) a = PInf" "score a s = Inr a'"
  shows "score_of a' = int (length (readyQ s) * noJobs a)"
proof -
  have "length (readyQ s) * noJobs a \<le> 5 * 10 ^ 6"
    using mult_le_mono [of "length (readyQ s)" "10 ^ 6" "noJobs a" 5] assms(1,4)
    by (simp add: scorable_def)
  then have "fp_to_int (Fin (of_nat (length (readyQ s) * noJobs a) + 0)) =
      Inr (int (length (readyQ s) * noJobs a) + \<lfloor>0 :: rat\<rfloor>)"
    by (intro fp_to_int_score) simp_all
  with assms show ?thesis
    by (auto simp: score_def scorable_def deque_size_def)
qed

lemma held_length_full:
  assumes "\<forall>p\<in>set ps. snd p \<noteq> [] \<longrightarrow> length (snd p) = 4"
  shows "length (held ps) = 4 * length (filter (\<lambda>p. snd p \<noteq> []) ps)"
  using assms by (induction ps) auto

lemma sound_window:
  assumes "sound_allocation s a"
  shows "length (ajobs a) \<le> min (window s) (length (readyQ s))"
proof -
  have "length (ajobs a) = card (set (map fst (ajobs a)))"
    using assms distinct_card [of "map fst (ajobs a)"] by (simp add: sound_allocation_def)
  also have "\<dots> \<le> card (set (take (window s) (readyQ s)))"
    using assms by (intro card_mono) (simp_all add: sound_allocation_def)
  also have "\<dots> \<le> length (take (window s) (readyQ s))" by (rule card_length)
  finally show ?thesis by (simp add: min.commute)
qed

text \<open>
  An allocation that lists a job without a resource: fewer served jobs than listed, and
  four resources for each served one.
\<close>

lemma ran_as_empty_share:
  assumes "ran_as s i c" "algVec s ! i \<noteq> ManagedMode_alg" "wf_jobs s" "scorable s"
    and "p \<in> set (ajobs c)" "snd p = []"
  shows "noJobs c < min (window s) (length (readyQ s))" and "4 * noJobs c \<le> length (resPool s)"
    and "makespan (job_at s) c = PInf"
proof -
  have sound: "sound_allocation s c" using ran_as_sound [OF assms(1,3,2)] .
  have "noJobs c < length (ajobs c)"
    using assms(5,6) by (auto simp: noJobs_eq intro!: length_filter_less)
  with sound_window [OF sound] show "noJobs c < min (window s) (length (readyQ s))" by simp
  have ready: "\<forall>p\<in>set (ajobs c). fst p \<in> set (readyQ s)"
    using sound set_take_subset [of "window s" "readyQ s"] by (auto simp: sound_allocation_def)
  obtain pool s' where run: "run_alg (algVec s ! i) (s\<lparr>resPool := pool\<rparr>) = Inr (c, s')"
    using assms(1) by (auto simp: ran_as_def)
  have "\<forall>e\<in>set (ajobs c). snd e \<noteq> [] \<longrightarrow> length (snd e) = 4"
    using run_alg_shares [OF run assms(2)] assms(4-6) ready by (auto simp: scorable_def)
  from held_length_full [OF this] have "length (held (ajobs c)) = 4 * noJobs c" by (simp add: noJobs_eq)
  then show "4 * noJobs c \<le> length (resPool s)"
    using sound size_mset_mono by (force simp: sound_allocation_def)
  have "0 < predictedTime (job_at s (fst e))" if "e \<in> set (ajobs c)" for e
    by (rule less_le_trans [of 0 "1 / 1000"]) (use assms(4) ready that in \<open>auto simp: scorable_def\<close>)
  then show "makespan (job_at s) c = PInf"
    using makespan_cases [of c "job_at s"] assms(5,6) by fastforce
qed

lemma ran_as_FCFSMin_count:
  assumes "ran_as s i b" "algVec s ! i = FCFSMin_alg" "scorable s"
  shows "noJobs b = min (min (window s) (length (readyQ s))) (length (resPool s))"
proof -
  obtain pool s' where p: "mset pool = mset (resPool s)" "FCFSMin (s\<lparr>resPool := pool\<rparr>) = Inr (b, s')"
    using assms(1,2) by (auto simp: ran_as_def)
  from FCFSMin_count [OF p(2)] assms(3) mset_eq_length [OF p(1)] show ?thesis
    by (simp add: scorable_def)
qed

text \<open>
  SJTF may list jobs it could give nothing to. Such a list never wins: the minimal FCFS
  serves strictly more jobs and scores higher.
\<close>

lemma ManagedMode_no_empty_share:
  assumes "ready_to_schedule s" "scorable s" "FCFSMin_alg \<in> set (butlast (algVec s))"
    and "ManagedMode s = Inr (a, s')" "p \<in> set (ajobs a)"
  shows "snd p \<noteq> []"
proof
  assume empty: "snd p = []"
  have q: "readyQ s \<noteq> []" and wf: "wf_jobs s" using assms(1) by (simp_all add: ready_to_schedule_def)
  obtain cs r where cs: "candidates s cs" "r < length cs" "a = cs ! r"
    and best: "\<forall>c\<in>set cs. score_of c \<le> score_of a"
    using ManagedMode_spec [OF assms(1,4)] by metis
  obtain c where c: "ran_as s r c" "score c s = Inr a" using cs by (auto simp: candidates_def)
  have same: "ajobs a = ajobs c" and n: "noJobs a = noJobs c"
    using score_ajobs [OF c(2)] by (simp_all add: noJobs_eq)
  have pos: "0 < noJobs c" using ManagedMode_progress [OF assms(1-4)] n by simp
  have r: "algVec s ! r \<noteq> ManagedMode_alg"
    using not_managed_butlast [OF assms(1)] cs(1,2) by (simp add: candidates_def)
  note e = ran_as_empty_share [OF c(1) r wf assms(2) assms(5) [unfolded same] empty]
  have "noJobs c \<le> 5" using e(1) assms(2) by (simp add: scorable_def)
  then have sc: "score_of a = int (length (readyQ s) * noJobs c)"
    using score_infinite [OF assms(2) q _ _ e(3) c(2)] pos by simp
  obtain i where i: "i < length (algVec s) - 1" "algVec s ! i = FCFSMin_alg"
    using assms(3) by (auto simp: in_set_conv_nth nth_butlast)
  then obtain b where b: "ran_as s i b" "score b s = Inr (cs ! i)" "i < length cs"
    using cs(1) by (auto simp: candidates_def)
  have more: "noJobs c + 1 \<le> noJobs b"
    using ran_as_FCFSMin_count [OF b(1) i(2) assms(2)] e(1,2) pos by auto
  obtain x :: rat where x: "0 \<le> x"
    "score b s = Inr (setScore (if noJobs b = 0 then 0 else int (length (readyQ s) * noJobs b) + \<lfloor>x\<rfloor>) b)"
    using score_value [OF assms(2) q] ran_as_sound [OF b(1) wf] i(2) by (metis alg.distinct(17))
  have "int (length (readyQ s) * noJobs c) < int (length (readyQ s) * noJobs b)"
    using q more by (subst of_nat_less_iff) simp
  moreover have "0 \<le> \<lfloor>x\<rfloor>" using x(1) by simp
  moreover have "cs ! i = setScore (int (length (readyQ s) * noJobs b) + \<lfloor>x\<rfloor>) b"
    using b(2) x(2) more by simp
  ultimately have "score_of a < score_of (cs ! i)" using sc by (simp only: setScore_simps)
  then show False using best b(3) by (meson nth_mem leD)
qed

section \<open>Steps keep what scheduling reads of a job\<close>

lemma sys_step_jobs:
  assumes "sys_step l y y'" and "sys_inv y"
  shows "nextRef (sch y) \<le> nextRef (sch y') \<and>
    (\<forall>p<nextRef (sch y). same_job (job_at (sch y) p) (job_at (sch y') p)) \<and>
    ((\<forall>m t. l \<noteq> Submit m t) \<longrightarrow> nextRef (sch y') = nextRef (sch y))"
  using assms(1)
proof cases
  case (submit m now p s')
  then show ?thesis by (auto simp: concurrentHandler_submit_eq)
next
  case (decide a s' t0)
  obtain pool where "s' = (sch y)\<lparr>resPool := pool\<rparr>"
    using sys_inv_decision [OF assms(2) decide(4,5,7)] .
  with decide(2) show ?thesis by (simp add: count_jobs_def)
next
  case (resize t0 a s')
  from resize(4) show ?thesis using resize(2) by (cases rule: updateResourcePool_cases) simp_all
next
  case (service t0 a t1 s')
  have inv: "inv_jobs y" "pending_ok (sch y) a"
    using assms(2) service by (simp_all add: sys_inv_def inv_pending_def)
  show ?thesis using serviced [OF inv service(4)] service(2) by (simp add: count_jobs_def count_schedule_def)
next
  case (dispatch pr s')
  then show ?thesis by (auto elim!: dispatcherLoop_iter_Inr split: if_splits)
next
  case (complete pr rq reply start stop now)
  then show ?thesis
    by (auto simp: runJob_complete_def returnResources_eq removeJobFromRunQ_def same_job_def Let_def
        push_front_def split: option.splits)
next
  case (finish now p s')
  then show ?thesis by (auto simp: finishedLoop_iter_def bindR_eq_Inr Let_def)
qed auto

text \<open>
  All requests so far came with a predicted time of at least a millisecond. There were at most
  \<open>max_requests\<close> of them: with a longer ready queue the score of an allocation, the length of the
  queue times the number of its jobs, would no longer be exact in a \<open>float\<close> (and would in the end
  not fit the \<open>int\<close> it is stored in). Both are hypotheses of the theorems that need them.
\<close>

definition predicted_jobs :: "system \<Rightarrow> bool" where
  "predicted_jobs y \<longleftrightarrow> (\<forall>p<nextRef (sch y). 1 / 1000 \<le> predictedTime (job_at (sch y) p))"

definition max_requests :: nat where "max_requests = 10 ^ 6"

definition few_requests :: "system \<Rightarrow> bool" where
  "few_requests y \<longleftrightarrow> nextRef (sch y) \<le> max_requests"

definition modest_load :: "system \<Rightarrow> bool" where
  "modest_load y \<longleftrightarrow> few_requests y \<and> predicted_jobs y"

lemmas modest_load_defs = modest_load_def few_requests_def max_requests_def predicted_jobs_def

lemma modest_loadI: "predicted_jobs y \<Longrightarrow> few_requests y \<Longrightarrow> modest_load y"
  by (simp add: modest_load_def)

lemma modest_load_step:
  assumes "sys_step l y y'" "sys_inv y" "modest_load y'"
  shows "modest_load y"
proof -
  have "nextRef (sch y) \<le> nextRef (sch y')"
    and "\<And>p. p < nextRef (sch y) \<Longrightarrow> predictedTime (job_at (sch y') p) = predictedTime (job_at (sch y) p)"
    using sys_step_jobs [OF assms(1,2)] by (simp_all add: same_job_def)
  with assms(3) show ?thesis unfolding modest_load_defs by (metis order_less_le_trans order_trans)
qed

lemma predicted_scorable:
  assumes "sys_inv y" "modest_load y"
  shows "scorable (sch y)"
proof -
  have q: "distinct (readyQ (sch y))" "set (readyQ (sch y)) \<subseteq> {..<nextRef (sch y)}"
    using assms(1) by (auto simp: sys_inv_def inv_jobs_def job_places_def)
  then have "length (readyQ (sch y)) \<le> nextRef (sch y)"
    by (metis card_lessThan card_mono distinct_card finite_lessThan)
  with q assms show ?thesis
    by (auto simp: scorable_def modest_load_defs sys_inv_def inv_config_def inv_jobs_def)
qed

definition all_served :: "system \<Rightarrow> bool" where
  "all_served y \<longleftrightarrow> (\<forall>e\<in>set (runQ (sch y)) \<union> set (threads y). snd e \<noteq> []) \<and>
     (\<forall>t a. spc y = Chosen t a \<or> spc y = Resized t a \<longrightarrow> (\<forall>e\<in>set (ajobs a). snd e \<noteq> []))"

lemma all_served_step:
  assumes "sys_step l y y'" "sys_inv y" "modest_load y" "all_served y"
  shows "all_served y'"
  using assms(1)
proof cases
  case (submit m now p s')
  then show ?thesis using assms(4) by (auto simp: all_served_def concurrentHandler_submit_eq)
next
  case (decide a s' t0)
  have alg: "FCFSMin_alg \<in> set (butlast (algVec (sch y)))"
    using assms(2) by (simp add: sys_inv_def inv_config_def)
  have m: "ManagedMode (sch y) = Inr (a, s')" using decide(7) sys_inv_managed [OF assms(2)] by simp
  note ready = sys_inv_ready_to_schedule [OF assms(2)] decide(4,5)
  obtain pool where s': "s' = (sch y)\<lparr>resPool := pool\<rparr>"
    using sys_inv_decision [OF assms(2) decide(4,5,7)] .
  have "\<forall>e\<in>set (ajobs a). snd e \<noteq> []"
    using ManagedMode_no_empty_share [OF ready(1) predicted_scorable [OF assms(2,3)] alg m] ready(2,3)
    by blast
  then show ?thesis using assms(4) decide(2) s' by (auto simp: all_served_def count_jobs_def)
next
  case (resize t0 a s')
  have "runQ s' = runQ (sch y)" using resize(4) by (cases rule: updateResourcePool_cases) simp_all
  then show ?thesis using assms(4) resize by (auto simp: all_served_def)
next
  case (service t0 a t1 s')
  have inv: "inv_jobs y" "pending_ok (sch y) a"
    using assms(2) service by (simp_all add: sys_inv_def inv_pending_def)
  have "runQ s' = rev (ajobs a) @ runQ (sch y)"
    using serviced [OF inv service(4)] by simp
  then show ?thesis using assms(4) service by (auto simp: all_served_def count_jobs_def count_schedule_def)
next
  case (dispatch pr s')
  from dispatch(3) obtain p rs q where "runQ (sch y) = (p, rs) # q" "runQ s' = q"
    "pr = None \<or> pr = Some (p, rs)"
    by (elim dispatcherLoop_iter_Inr) (auto split: if_splits)
  then show ?thesis using assms(4) dispatch(2) by (auto simp: all_served_def)
next
  case (complete pr rq reply start stop now)
  have "set (runQ (runJob_complete pr reply start stop now (sch y))) \<subseteq> set (runQ (sch y))"
    by (auto simp: runJob_complete_def returnResources_eq removeJobFromRunQ_def Let_def
        push_front_def erase_at_def split: option.splits dest: in_set_takeD in_set_dropD)
  moreover have "set (remove1 pr (threads y)) \<subseteq> set (threads y)" by (rule set_remove1_subset)
  ultimately show ?thesis using assms(4) complete(2) by (auto simp: all_served_def)
next
  case (finish now p s')
  then show ?thesis using assms(4)
    by (auto simp: all_served_def finishedLoop_iter_def bindR_eq_Inr Let_def)
qed (use assms(4) in \<open>auto simp: all_served_def\<close>)

interpretation served: preserved sys_step "\<lambda>y. sys_inv y \<and> (modest_load y \<longrightarrow> all_served y)"
  by unfold_locales (auto dest: sys_inv_step intro: all_served_step modest_load_step)

lemma reachable_all_served:
  assumes "reachable y" "modest_load y"
  shows "all_served y"
proof -
  have "all_served (init_system d st b n)" for d st b n
    by (simp add: all_served_def init_system_def start_system_def scheduler_main_def
        Scheduler_new_def addSchedAlg_def)
  with served.along assms sys_inv_init show ?thesis unfolding reachable_def by metis
qed

section \<open>Carrying out a decision\<close>

lemma serviceAllocations_loop_ok:
  assumes "distinct (map rid (resPool s))" "mset (held ps) \<subseteq># mset (resPool s)"
  shows "\<exists>s'. serviceAllocations_loop ps t s = Inr s'"
  using assms
proof (induction ps arbitrary: s)
  case (Cons j ps)
  obtain q where q: "removeJobFromReadyQ j s = s\<lparr>readyQ := q\<rparr>"
    using removeJobFromReadyQ_frame by blast
  have "mset (snd j) \<subseteq># mset (resPool s)"
    using Cons.prems(2) 
    by (metis held_simps(2) mset_append mset_subset_eq_add_left subset_mset.order_trans)
  then obtain pool where pool: "claim_loop (snd j) (resPool s) = Inr pool"
    "mset (resPool s) = mset (snd j) + mset pool"
    using claim_loop_ok [OF Cons.prems(1)] by blast
  let ?s = "addToRunQ j t (s\<lparr>readyQ := q, resPool := pool\<rparr>)"
  have "mset (map rid (resPool s)) = mset (map rid (snd j @ pool))" using pool(2) by simp
  then have "distinct (map rid (snd j @ pool))" using Cons.prems(1) mset_eq_imp_distinct_iff by blast
  then have "distinct (map rid (resPool ?s))" by simp
  moreover have "mset (held ps) \<subseteq># mset (resPool ?s)" using Cons.prems(2) pool(2) by simp
  ultimately obtain s' where "serviceAllocations_loop ps t ?s = Inr s'" using Cons.IH by blast
  with q pool(1) show ?case by (simp add: claimResources_def)
qed simp

lemma claim_loop_error: "claim_loop rs pool = Inl e \<Longrightarrow> e = End_Deref"
proof (induction rs arbitrary: pool)
  case (Cons r rs)
  show ?case
  proof (cases "find_if (resPtrEQ r) pool")
    case None
    with Cons.prems show ?thesis by (simp add: deque_erase_def)
  next
    case (Some i)
    with Cons show ?thesis using find_if_Some [OF Some] by (auto simp: deque_erase_def)
  qed
qed simp

lemma serviceAllocations_loop_error: "serviceAllocations_loop ps t s = Inl e \<Longrightarrow> e = End_Deref"
proof (induction ps arbitrary: s)
  case (Cons j ps)
  let ?s = "removeJobFromReadyQ j s"
  show ?case
  proof (cases "claim_loop (snd j) (resPool ?s)")
    case (Inl e')
    with Cons.prems claim_loop_error [OF Inl] show ?thesis by (simp add: claimResources_def)
  next
    case (Inr pool)
    with Cons show ?thesis by (auto simp: claimResources_def)
  qed
qed simp

text \<open>With no resource taken away in between, the decision is carried out in two steps.\<close>

lemma decision_carried_out:
  assumes "sys_inv y" "spc y = Chosen t0 a"
    and "\<not> fp_less (Fin 1) (getJLOMetric (job_at (sch y)) a)"
  obtains z w where "sys_step Resize y z" "sys_step (Service t1) z w" "spc w = Idle"
    "readyQ (sch w) = filter (\<lambda>q. q \<notin> set (map fst (ajobs a))) (readyQ (sch y))"
    "runQ (sch w) = rev (ajobs a) @ runQ (sch y)"
proof -
  let ?s = "if fp_less (getJLOMetric (job_at (sch y)) a) (Fin 0) then provisionResource (sch y) else sch y"
  let ?z = "y\<lparr>sch := ?s, spc := Resized t0 a\<rparr>"
  have up: "updateResourcePool a (sch y) = Inr ?s" using assms(3) by (simp add: updateResourcePool_def)
  have z: "sys_step Resize y ?z" using resize [OF assms(2) up] .
  have inv: "sys_inv ?z" using sys_inv_step [OF z assms(1)] .
  have "mset (held (ajobs a)) \<subseteq># mset (resPool (sch y))"
    using assms(1,2) by (simp add: sys_inv_def inv_pending_def)
  moreover obtain ext where "resPool ?s = resPool (sch y) @ ext" by fastforce
  ultimately have "mset (held (ajobs a)) \<subseteq># mset (resPool ?s)"
    by (metis mset_append mset_subset_eq_add_left subset_mset.order_trans)
  moreover have "distinct (map rid (resPool ?s))"
    using inv unfolding sys_inv_def inv_resources_def rid_places_def by simp
  ultimately obtain s' where s': "serviceAllocations a t1 ?s = Inr s'"
    using serviceAllocations_loop_ok unfolding serviceAllocations_def by blast
  let ?w = "?z\<lparr>sch := count_jobs (noJobs a) (count_schedule t0 t1 s'), spc := Idle\<rparr>"
  have w: "sys_step (Service t1) ?z ?w" using service [of ?z t0 a t1 s'] s' by simp
  have "inv_jobs ?z" "pending_ok ?s a" using inv by (simp_all add: sys_inv_def inv_pending_def)
  then have "readyQ s' = filter (\<lambda>q. q \<notin> set (map fst (ajobs a))) (readyQ ?s) \<and>
      runQ s' = rev (ajobs a) @ runQ ?s"
    using serviceAllocations_loop_spec [OF s' [unfolded serviceAllocations_def]] inv_jobs_jids [of ?z]
    by (simp add: pending_ok_def)
  then show thesis using that [OF z w] by (simp add: count_jobs_def count_schedule_def)
qed

text \<open>
  Between the decision and its execution the elasticity manager may take a resource away:
  if the resource was part of the decision, claiming it erases the end iterator.
\<close>

lemma decision_lost_resource:
  assumes "sys_inv y" "spc y = Chosen t0 a" "fp_less (Fin 1) (getJLOMetric (job_at (sch y)) a)"
    and "resPool (sch y) = pool @ [r]" "r \<in> set (held (ajobs a))"
  shows "\<exists>s'. updateResourcePool a (sch y) = Inr s' \<and> serviceAllocations a t1 s' = Inl End_Deref"
proof -
  let ?m = "getJLOMetric (job_at (sch y)) a"
  have inv: "inv_jobs y" "inv_resources y" "pending_ok (sch y) a"
    using assms(1,2) by (simp_all add: sys_inv_def inv_pending_def)
  have "0 < length (rid_places y)" using assms(4) by (simp add: rid_places_def)
  then have pos: "0 < provisionedResources (sch y)" using inv(2) unfolding inv_resources_def by linarith
  have "\<not> fp_less ?m (Fin 0)" using assms(3) by (cases ?m) simp_all
  with assms(3,4) pos have up: "updateResourcePool a (sch y) =
      Inr ((sch y)\<lparr>provisionedResources := provisionedResources (sch y) - 1, resPool := pool\<rparr>)" (is "_ = Inr ?s")
    by (simp add: updateResourcePool_def deprovisionResource_def wait_pop_back_def)
  have "serviceAllocations_loop (ajobs a) t1 ?s \<noteq> Inr s'" for s'
  proof
    assume "serviceAllocations_loop (ajobs a) t1 ?s = Inr s'"
    from serviceAllocations_loop_spec [OF this] inv(3) inv_jobs_jids [OF inv(1)]
    have "mset (map rid pool) = mset (map rid (held (ajobs a))) + mset (map rid (resPool s'))"
      by (simp add: pending_ok_def)
    then have "rid r \<in> rid ` set pool" using assms(5)
      by (metis image_eqI list.set_map mset_append mset_eq_setD set_append UnCI)
    then show False using inv(2) assms(4) by (auto simp: inv_resources_def rid_places_def)
  qed
  then have "serviceAllocations_loop (ajobs a) t1 ?s = Inl End_Deref"
    using serviceAllocations_loop_error by (metis old.sum.exhaust)
  with up show ?thesis by (simp add: serviceAllocations_def)
qed

section \<open>One job, one resource\<close>

lemma ManagedMode_single:
  assumes "ready_to_schedule s" "scorable s" "FCFSMin_alg \<in> set (butlast (algVec s))"
    and "readyQ s = [p]" "resPool s = [r]"
  shows "\<exists>a. ManagedMode s = Inr (a, s) \<and> ajobs a = [(p, [r])]"
proof -
  obtain a s' where m: "ManagedMode s = Inr (a, s')" using ManagedMode_total [OF assms(1,2)] by blast
  obtain pool where s': "s' = s\<lparr>resPool := pool\<rparr>" "mset pool = mset (resPool s)" and sound: "sound_allocation s a"
    using ManagedMode_sound [OF assms(1) m] by blast
  have "pool = [r]" using s'(2) assms(5) by simp
  then have "s' = s" using s'(1) assms(5) by simp
  have "held (ajobs a) \<noteq> []" using ManagedMode_progress [OF assms(1-3) m] by (simp add: noJobs_pos)
  then obtain e ps where e: "ajobs a = e # ps" by (cases "ajobs a") auto
  have "length (ajobs a) \<le> 1" using sound_window [OF sound] assms(4) by simp
  with e have ps: "ps = []" by simp
  have "fst e = p" using sound e assms(4) set_take_subset [of "window s" "readyQ s"]
    by (auto simp: sound_allocation_def)
  moreover have "snd e = [r]"
  proof -
    have "snd e \<noteq> []" using ManagedMode_no_empty_share [OF assms(1-3) m] e by simp
    moreover have "mset (snd e) \<subseteq># {#r#}" using sound e ps assms(5) by (simp add: sound_allocation_def)
    moreover from this have "length (snd e) \<le> 1" using size_mset_mono by fastforce
    ultimately show ?thesis by (cases "snd e") auto
  qed
  ultimately have "ajobs a = [(p, [r])]" using e ps by (cases e) simp
  with m \<open>s' = s\<close> show ?thesis by blast
qed

text \<open>The scheduler right after its first request.\<close>

definition first_request :: "int \<Rightarrow> (jref \<Rightarrow> job_tuple) \<Rightarrow> rat \<Rightarrow> rat \<Rightarrow> msg \<Rightarrow> rat \<Rightarrow> scheduler" where
  "first_request dport store busy start m now =
     snd (concurrentHandler_submit m now (scheduler_main dport store busy start))"

lemmas scheduler_main_unfold = scheduler_main_def Scheduler_new_def addSchedAlg_def
  provisionResource_def addResource_new_def push_back_def

lemma first_request_simps [simp]:
  "readyQ (first_request d st b n m t) = [0]"
  "resPool (first_request d st b n m t) = [Resource_new 1 d ''localhost'' ''DFE'']"
  "runQ (first_request d st b n m t) = []" "finishedQ (first_request d st b n m t) = []"
  "nextRef (first_request d st b n m t) = 1" "provisionedResources (first_request d st b n m t) = 1"
  "window (first_request d st b n m t) = 5" "strat (first_request d st b n m t) = ''Completion Time''"
  "algVec (first_request d st b n m t) =
     [FCFSMax_alg, FCFSMin_alg, FCFSAsManyAsPos_alg, SJTF_alg, Priority_alg, ManagedMode_alg]"
  "job_at (first_request d st b n m t) 0 = (Job_new m 1 t)\<lparr>issueTime := t\<rparr>"
  by (simp_all add: first_request_def concurrentHandler_submit_eq scheduler_main_unfold)

lemma millis_ge_one: "1 \<le> sint w \<Longrightarrow> 1 / 1000 \<le> millis w"
  using divide_right_mono [of 1 "of_int (sint w) :: rat" 1000] unfolding millis_def
  by (metis of_int_1_le_iff zero_le_numeral)

lemma first_request_managed:
  assumes "1 \<le> sint (predictedTimeMillis m)"
  shows "\<exists>a. ManagedMode (first_request d st b n m t) = Inr (a, first_request d st b n m t) \<and>
     ajobs a = [(0, [Resource_new 1 d ''localhost'' ''DFE''])]"
proof (rule ManagedMode_single)
  have "1 / 1000 \<le> millis (predictedTimeMillis m)" using assms by (rule millis_ge_one)
  then show "scorable (first_request d st b n m t)" by (simp add: scorable_def Job_new_def)
qed (simp_all add: ready_to_schedule_def wf_jobs_def)

lemma getJLOMetric_single:
  assumes "ajobs a = [(p, rs)]" "rs \<noteq> []"
  shows "getJLOMetric jh a = Fin (slack jh (p, rs))"
  using getJLOMetric_fin [of a jh] assms by auto

lemma first_request_slack:
  "slack (job_at (first_request d st b n m t)) (0, [r]) =
     of_int (sint (targetExecutionTimeMillis m) - sint (predictedTimeMillis m)) / 1000"
  by (simp add: slack_def Job_new_def millis_def diff_divide_distrib)

section \<open>Runs\<close>

text \<open>A job at the front of the run queue can be run to its end whatever else is going on.\<close>

lemma run_job_to_end:
  assumes "sys_inv y" "runQ (sch y) = (p, rs) # q" "rs \<noteq> []" "notifying y = None"
    and "msgId reply = MSG_RESULT"
  shows "\<exists>z. sys_run y [Dispatch, Complete (p, rs) reply a b c, Finish d, Notify] z \<and>
    p \<in> set (completed z) \<and> notifying z = None \<and> rsp (job_at (sch z) p) = Some reply \<and>
    finished (tinfo (jobs (sch z) p)) \<and>
    handler z = (if handler y p = Waiting then (handler y)(p := Testing) else handler y)"
proof -
  let ?h = "if handler y p = Waiting then (handler y)(p := Testing) else handler y"
  have flags: "p < nextRef (sch y)" using assms(1,2) by (auto simp: sys_inv_def inv_jobs_def job_places_def)
  then have ns: "\<not> started (tinfo (jobs (sch y) p))"
    using assms(1,2) by (auto simp: sys_inv_def inv_flags_def)
  let ?s1 = "update_info p (\<lambda>i. i\<lparr>started := True\<rparr>) ((sch y)\<lparr>runQ := q\<rparr>)"
  let ?y1 = "y\<lparr>sch := ?s1, threads := threads y @ [(p, rs)]\<rparr>"
  have "dispatcherLoop_iter (sch y) = Inr (Some (p, rs), ?s1)"
    using assms(2) ns by (simp add: dispatcherLoop_iter_def wait_pop_front_def)
  from dispatch [OF this] have d: "sys_step Dispatch y ?y1" by simp
  let ?s2 = "runJob_complete (p, rs) reply a b c ?s1"
  let ?y2 = "?y1\<lparr>sch := ?s2, threads := remove1 (p, rs) (threads ?y1)\<rparr>"
  obtain r rs' where "rs = r # rs'" using assms(3) by (cases rs) auto
  then have "runJob_request (p, rs) ?s1 = Inr (port r, url r, (req (job_at ?s1 p))\<lparr>rids := packed_rids rs\<rparr>)"
    by (simp add: runJob_request_def deque_front_def)
  then have c: "sys_step (Complete (p, rs) reply a b c) ?y1 ?y2"
    using complete [of "(p, rs)" ?y1] assms(5) by simp
  have "finishedQ ?s2 = p # finishedQ (sch y)"
    by (simp add: runJob_complete_def Let_def removeJobFromRunQ_def push_front_def returnResources_eq
        split: option.splits)
  then obtain s3 where s3: "finishedLoop_iter d ?s2 = Inr (p, s3)"
    and "job_at s3 p = job_at ?s2 p" and fin: "finished (tinfo (jobs s3 p))"
    by (simp add: finishedLoop_iter_def wait_pop_front_def Let_def)
  then have rsp: "rsp (job_at s3 p) = Some reply"
    by (simp add: runJob_complete_def Let_def removeJobFromRunQ_def returnResources_eq
        split: option.splits)
  from s3 have f: "sys_step (Finish d) ?y2 (?y2\<lparr>sch := s3, completed := completed y @ [p], notifying := Some p\<rparr>)"
    (is "sys_step _ _ ?y3") using finish [of ?y2 d p s3] assms(4) by simp
  have "sys_step Notify ?y3 (?y3\<lparr>notifying := None, handler := ?h\<rparr>)"
    using notify [of ?y3 p] by (cases "handler y p = Waiting") simp_all
  from sys_run_append [OF sys_run_step [OF this] sys_run_append [OF sys_run_step [OF f]
      sys_run_append [OF sys_run_step [OF c] sys_run_step [OF d]]]]
  show ?thesis using rsp fin by (intro exI [of _ "?y3\<lparr>notifying := None, handler := ?h\<rparr>"]) simp
qed

section \<open>Failures of the running scheduler\<close>

text \<open>A client that went to sleep after the notification is only woken by chance.\<close>

lemma sleeper_stays:
  assumes "sys_run y ls z" "sys_inv y" "p \<in> set (completed y)" "handler y p = Waiting"
    "notifying y \<noteq> Some p" "Spurious p \<notin> set ls"
  shows "handler z p = Waiting \<and> notifying z \<noteq> Some p \<and> p \<in> set (completed z) \<and> sys_inv z"
  using assms
proof (induction rule: runs.induct)
  case (snoc y ls z l w)
  then have z: "handler z p = Waiting" "notifying z \<noteq> Some p" "p \<in> set (completed z)" "sys_inv z" "l \<noteq> Spurious p"
    by auto
  have n: "p < nextRef (sch z)" "p \<notin> set (finishedQ (sch z))"
    using z(3,4) by (auto simp: sys_inv_def inv_jobs_def job_places_def)
  have "sys_inv w" using snoc.hyps(2) z(4) by (rule sys_inv_step)
  moreover from snoc.hyps(2) have "handler w p = Waiting \<and> notifying w \<noteq> Some p \<and> p \<in> set (completed w)"
  proof cases
    case (submit m now q s')
    then have "q = nextRef (sch z)" by (simp add: concurrentHandler_submit_eq)
    with submit z n show ?thesis by auto
  next
    case (finish now q s')
    then have "q \<in> set (finishedQ (sch z))"
      by (auto simp: finishedLoop_iter_def bindR_eq_Inr wait_pop_front_Inr Let_def)
    with finish z n show ?thesis by auto
  qed (use z in \<open>auto split: if_splits\<close>)
  ultimately show ?case by simp
qed simp

lemma first_request_init:
  "sys_step (Submit m now) (init_system d st b n)
     ((init_system d st b n)\<lparr>sch := first_request d st b n m now,
        handler := (handler (init_system d st b n))(0 := Testing)\<rparr>)"
proof -
  have "concurrentHandler_submit m now (sch (init_system d st b n)) = (0, first_request d st b n m now)"
    by (simp add: first_request_def concurrentHandler_submit_eq init_system_def start_system_def
        scheduler_main_unfold)
  from submit [OF this] show ?thesis .
qed

lemma first_request_chosen:
  fixes m :: msg
  assumes "1 \<le> sint (predictedTimeMillis m)"
  obtains a y where "sys_run (init_system d st b n) [Submit m now, Test 0, Decide 0] y" "sys_inv y"
    "sch y = first_request d st b n m now" "spc y = Chosen 0 a"
    "ajobs a = [(0, [Resource_new 1 d ''localhost'' ''DFE''])]"
    "handler y 0 = Going_To_Wait" "notifying y = None"
    "ManagedMode (first_request d st b n m now) = Inr (a, first_request d st b n m now)"
proof -
  let ?i = "init_system d st b n" and ?s = "first_request d st b n m now"
  let ?y1 = "?i\<lparr>sch := ?s, handler := (handler ?i)(0 := Testing)\<rparr>"
  let ?y2 = "?y1\<lparr>handler := (handler ?y1)(0 := Going_To_Wait)\<rparr>"
  obtain a where m: "ManagedMode ?s = Inr (a, ?s)" and a: "ajobs a = [(0, [Resource_new 1 d ''localhost'' ''DFE''])]"
    using first_request_managed [OF assms(1)] by blast
  let ?y3 = "?y2\<lparr>spc := Chosen 0 a\<rparr>"
  have s1: "sys_step (Submit m now) ?i ?y1" by (rule first_request_init)
  have inv1: "sys_inv ?y1" using sys_inv_step [OF s1 sys_inv_init] .
  have "0 < nextRef (sch ?y1)" "0 \<notin> set (completed ?y1)" by (simp_all add: init_system_def start_system_def)
  then have "\<not> finished (tinfo (jobs ?s 0))" using inv1 unfolding sys_inv_def inv_flags_def by simp
  then have s2: "sys_step (Test 0) ?y1 ?y2" using test [of ?y1 0] by simp
  have s3: "sys_step (Decide 0) ?y2 ?y3"
    using decide [of ?y2 a ?s 0] m a by (simp add: call_alg_def MODE_MANAGED_def noJobs_eq init_system_def start_system_def)
  have run3: "sys_run ?i [Submit m now, Test 0, Decide 0] ?y3"
    using sys_run_append [OF sys_run_step [OF s3] sys_run_append [OF sys_run_step [OF s2] sys_run_step [OF s1]]] by simp
  with whole.along [OF run3 sys_inv_init] a m show thesis
    by (intro that [of ?y3 a]) (simp_all add: init_system_def start_system_def)
qed

text \<open>Only a new request can make a predicted system unpredicted.\<close>

lemma modest_load_kept:
  assumes "sys_step l y z" "sys_inv y" "\<forall>m t. l \<noteq> Submit m t" "modest_load y"
  shows "modest_load z \<and> nextRef (sch z) = nextRef (sch y)"
  using sys_step_jobs [OF assms(1,2)] assms(3,4) by (auto simp: modest_load_defs same_job_def)

text \<open>The first request, served on the only resource and queued to run.\<close>

lemma first_request_queued:
  fixes m :: msg
  assumes "1 \<le> sint (predictedTimeMillis m)"
    and "sint (targetExecutionTimeMillis m) \<le> sint (predictedTimeMillis m) + 1000"
  obtains ls w where "sys_run (init_system d st b n) ls w" "sys_inv w" "modest_load w"
    "nextRef (sch w) = 1" "runQ (sch w) = [(0, [Resource_new 1 d ''localhost'' ''DFE''])]"
    "handler w 0 = Going_To_Wait" "notifying w = None" "spc w = Idle" "req (job_at (sch w) 0) = m"
proof -
  let ?i = "init_system d st b n" and ?s = "first_request d st b n m 0"
  obtain a y where run3: "sys_run ?i [Submit m 0, Test 0, Decide 0] y" and inv3: "sys_inv y"
    and y: "sch y = ?s" "spc y = Chosen 0 a" "handler y 0 = Going_To_Wait" "notifying y = None"
    and a: "ajobs a = [(0, [Resource_new 1 d ''localhost'' ''DFE''])]"
    using first_request_chosen [OF assms(1)] by metis
  have "(of_int (sint (targetExecutionTimeMillis m) - sint (predictedTimeMillis m)) :: rat) \<le> of_int 1000"
    using assms(2) by (subst of_int_le_iff) simp
  then have "\<not> fp_less (Fin 1) (getJLOMetric (job_at (sch y)) a)"
    using getJLOMetric_single [OF a, of "job_at ?s"] y(1) by (simp add: first_request_slack)
  then obtain z w where zw: "sys_step Resize y z" "sys_step (Service 0) z w"
    and idle: "spc w = Idle" and "runQ (sch w) = rev (ajobs a) @ runQ (sch y)"
    using decision_carried_out [OF inv3 y(2)] by blast
  then have rq: "runQ (sch w) = [(0, [Resource_new 1 d ''localhost'' ''DFE''])]"
    using a y(1) by simp
  have hw: "handler w = handler y" "notifying w = None"
    using zw y(4) by (auto elim!: resizeE serviceE)
  have run5: "sys_run ?i ([Submit m 0, Test 0, Decide 0] @ [Resize] @ [Service 0]) w"
    using sys_run_append [OF sys_run_append [OF sys_run_step [OF zw(2)] sys_run_step [OF zw(1)]] run3] .
  have "modest_load y" using millis_ge_one [OF assms(1)] y(1) by (simp add: modest_load_defs Job_new_def)
  then have "modest_load w" "nextRef (sch w) = 1"
    using modest_load_kept [OF zw(2) sys_inv_step [OF zw(1) inv3]] modest_load_kept [OF zw(1) inv3]
      y(1) by simp_all
  moreover have "req (job_at (sch w) 0) = m"
    using sys_step_jobs [OF zw(1) inv3] sys_step_jobs [OF zw(2) sys_inv_step [OF zw(1) inv3]] y(1)
    by (simp add: same_job_def Job_new_def)
  ultimately show thesis using run5 whole.along [OF run5 sys_inv_init] rq hw idle y(3) by (intro that) simp_all
qed

text \<open>
  The run in which the handler tests the flag, the whole job is processed and notified,
  and only then the handler goes to wait.
\<close>

lemma sleeper_reachable:
  fixes m :: msg
  assumes "1 \<le> sint (predictedTimeMillis m)"
    and "sint (targetExecutionTimeMillis m) \<le> sint (predictedTimeMillis m) + 1000"
  shows "\<exists>ls y. sys_run (init_system d st b n) ls y \<and> 0 \<in> set (completed y) \<and>
    handler y 0 = Waiting \<and> notifying y = None"
proof -
  obtain ls w where w: "sys_run (init_system d st b n) ls w" "sys_inv w" "notifying w = None"
    "runQ (sch w) = [(0, [Resource_new 1 d ''localhost'' ''DFE''])]" "handler w 0 = Going_To_Wait"
    using first_request_queued [OF assms] by metis
  obtain ks v where v: "sys_run w ks v" "0 \<in> set (completed v)" "handler v = handler w" "notifying v = None"
    using run_job_to_end [OF w(2,4) _ w(3), where reply = "(zero_msg 0)\<lparr>msgId := MSG_RESULT\<rparr>"
        and a = 0 and b = 0 and c = 0 and d = 0] w(5) by auto
  have "sys_step (Wait 0) v (v\<lparr>handler := (handler v)(0 := Waiting)\<rparr>)"
    using wait [of v 0] v(3) w(5) by simp
  from sys_run_append [OF sys_run_step [OF this] sys_run_append [OF v(1) w(1)]] v show ?thesis
    by (intro exI conjI) (assumption | simp)+
qed

text \<open>Unpredicted jobs on a small pool: the schedule is empty and the queue stays as it is.\<close>

lemma unpredicted_starves:
  assumes "unpredicted s" "length (resPool s) \<le> 4" "ready_to_schedule s"
    and "last (butlast (algVec s)) = Priority_alg"
  shows "\<exists>a pool. ManagedMode s = Inr (a, s\<lparr>resPool := pool\<rparr>) \<and> noJobs a = 0 \<and> ajobs a = [] \<and>
    mset pool = mset (resPool s)"
proof -
  let ?k = "length (algVec s) - 1"
  have len: "2 \<le> length (algVec s)" using assms(3) by (simp add: ready_to_schedule_def)
  then have al: "algVec s \<noteq> []" by auto
  obtain as pool where run: "managed_loop [0..<?k] s [] = Inr (as, s\<lparr>resPool := pool\<rparr>)"
    and pool: "mset pool = mset (resPool s)" and as: "list_all2 (ran_as s) [0..<?k] as"
    using managed_loop_run [OF assms(3)] by blast
  have las: "length as = ?k" using list_all2_lengthD [OF as] by simp
  have ran: "ran_as s i (as ! i)" if "i < ?k" for i using list_all2_nthD [OF as, of i] that by simp
  have "score (as ! i) s = Inr (setScore 0 (as ! i))" if "i < ?k" for i
    using unpredicted_score [OF assms(1-3) ran [OF that]] not_managed_butlast [OF assms(3) that] by blast
  then have sc: "score_all as (s\<lparr>resPool := pool\<rparr>) = Inr (map (setScore 0) as)"
    by (simp add: score_all_Inr score_pool list_all2_conv_all_nth las)
  have ne: "map (setScore 0) as \<noteq> []" using las len by auto
  then obtain a where a: "selectMaxScore (map (setScore 0) as) = Inr a" by (auto simp: selectMaxScore_def)
  then obtain r where r: "r < length as" "a = map (setScore 0) as ! r"
    and later: "\<forall>j. r < j \<longrightarrow> j < length as \<longrightarrow> score_of (map (setScore 0) as ! j) < score_of a"
    by (elim selectMaxScore_spec) simp
  have "r = ?k - 1"
  proof (rule ccontr)
    assume "r \<noteq> ?k - 1"
    then have "r < ?k - 1" using r(1) las by simp
    then show False using later r las by auto
  qed
  moreover have "butlast (algVec s) \<noteq> []" using len by (auto simp flip: length_greater_0_conv)
  ultimately have "algVec s ! r = Priority_alg"
    using assms(4) nth_butlast [of r "algVec s"] r(1) las by (simp add: last_conv_nth)
  then obtain q s' where q: "mset q = mset (resPool s)" "Priority (s\<lparr>resPool := q\<rparr>) = Inr (as ! r, s')"
    using ran [of r] r(1) las by (auto simp: ran_as_def)
  have "Priority (s\<lparr>resPool := q\<rparr>) = Inr (Allocations_new, s\<lparr>resPool := q\<rparr>)"
    using assms(1-3) mset_eq_length [OF q(1)]
    by (intro Priority_stuck) (simp_all add: unpredicted_def ready_to_schedule_def wf_jobs_def job_window_eq)
  then have "ajobs a = []" using q(2) r by simp
  then show ?thesis using run sc a al pool
    by (intro exI [of _ a] exI [of _ pool]) (simp add: ManagedMode_def noJobs_eq)
qed

text \<open>The ready queue holds the newest request first, and every thread keeps that order.\<close>

lemma sys_step_ready_sorted:
  assumes "sys_step l y y'" "sys_inv y" "sorted_wrt (>) (readyQ (sch y))"
  shows "sorted_wrt (>) (readyQ (sch y'))"
  using assms(1)
proof cases
  case (submit m now p s')
  have "\<forall>q\<in>set (readyQ (sch y)). q < nextRef (sch y)"
    using assms(2) by (auto simp: sys_inv_def inv_jobs_def job_places_def)
  with submit assms(3) show ?thesis by (auto simp: concurrentHandler_submit_eq)
next
  case (decide a s' t0)
  obtain pool where "s' = (sch y)\<lparr>resPool := pool\<rparr>"
    using sys_inv_decision [OF assms(2) decide(4,5,7)] .
  with decide(2) assms(3) show ?thesis by (simp add: count_jobs_def)
next
  case (resize t0 a s')
  from resize(4) show ?thesis using resize(2) assms(3) by (cases rule: updateResourcePool_cases) simp_all
next
  case (service t0 a t1 s')
  have inv: "inv_jobs y" "pending_ok (sch y) a"
    using assms(2) service by (simp_all add: sys_inv_def inv_pending_def)
  show ?thesis using serviced [OF inv service(4)] service(2) assms(3)
    by (simp add: count_jobs_def count_schedule_def sorted_wrt_filter)
next
  case (dispatch pr s')
  then show ?thesis using assms(3) by (auto elim!: dispatcherLoop_iter_Inr split: if_splits)
next
  case (complete pr rq reply start stop now)
  then show ?thesis using assms(3)
    by (auto simp: runJob_complete_def returnResources_eq removeJobFromRunQ_def Let_def
        push_front_def split: option.splits)
next
  case (finish now p s')
  then show ?thesis using assms(3) by (auto simp: finishedLoop_iter_def bindR_eq_Inr Let_def)
qed (use assms(3) in auto)

interpretation newest_first: preserved sys_step "\<lambda>y. sys_inv y \<and> sorted_wrt (>) (readyQ (sch y))"
  by unfold_locales (auto dest: sys_inv_step sys_step_ready_sorted)

lemma reachable_ready_sorted:
  assumes "reachable y"
  shows "sorted_wrt (>) (readyQ (sch y))"
proof -
  have "readyQ (sch (init_system d st b n)) = []" for d st b n
    by (simp add: init_system_def start_system_def scheduler_main_unfold)
  with newest_first.along assms sys_inv_init show ?thesis unfolding reachable_def by (metis sorted_wrt.simps(1))
qed

end
