(* ===== verification/Scheduler_Drain.thy ===== *)
theory Scheduler_Drain
  imports Scheduler_Guarantees
begin

text \<open>
  The running scheduler gets its work done. Each loop thread and each job thread makes its steps as
  long as there is something in its queue; \<open>work_left\<close> counts what the threads of the server have
  still to do and \<open>tasks_left\<close> adds what the connection handlers have to do. Every step but the
  arrival of a request, a spurious wakeup and the busy waiting of the scheduling thread lowers the latter
  (the locales \<open>descent\<close> and \<open>fair_descent\<close>), and the states in which no such step is left are
  described: all jobs are completed, or the scheduling thread is stuck for one of two reasons.
\<close>

section \<open>The threads\<close>

datatype loop_thread = Sched_Thread | Dispatch_Thread | Finished_Thread

fun thread_of :: "label \<Rightarrow> loop_thread option" where
  "thread_of (Decide t) = Some Sched_Thread"
| "thread_of Spin = Some Sched_Thread"
| "thread_of Resize = Some Sched_Thread"
| "thread_of (Service t) = Some Sched_Thread"
| "thread_of Dispatch = Some Dispatch_Thread"
| "thread_of (Finish t) = Some Finished_Thread"
| "thread_of Notify = Some Finished_Thread"
| "thread_of _ = None"

fun is_complete :: "label \<Rightarrow> bool" where
  "is_complete (Complete pr m a b c) = True"
| "is_complete _ = False"

text \<open>
  The steps that need nobody outside (\<open>own_step\<close>: no new request, no wakeup by chance), and those of
  them that are not busy waiting (\<open>progress_step\<close>). \<open>server_step\<close> is what the loop threads and the job
  threads do of the latter.
\<close>

fun own_step :: "label \<Rightarrow> bool" where
  "own_step (Submit m t) = False"
| "own_step (Spurious p) = False"
| "own_step _ = True"

definition progress_step :: "label \<Rightarrow> bool" where
  "progress_step l \<longleftrightarrow> own_step l \<and> l \<noteq> Spin"

lemma progress_step_simps [simp]:
  "\<not> progress_step (Submit m t)" "\<not> progress_step (Spurious p)" "\<not> progress_step Spin"
  "progress_step (Test p)" "progress_step (Wait p)"
  by (simp_all add: progress_step_def)

definition server_step :: "label \<Rightarrow> bool" where
  "server_step l \<longleftrightarrow> l \<noteq> Spin \<and> (thread_of l \<noteq> None \<or> is_complete l)"

lemma server_stepI:
  "is_complete l \<Longrightarrow> server_step l"
  "thread_of l = Some Finished_Thread \<Longrightarrow> server_step l"
  "thread_of l = Some Sched_Thread \<Longrightarrow> l \<noteq> Spin \<Longrightarrow> server_step l"
  "server_step Dispatch"
  by (cases l; simp add: server_step_def)+

lemma server_step_own: "server_step l \<Longrightarrow> progress_step l"
  by (cases l) (simp_all add: server_step_def progress_step_def)

section \<open>What is left to do\<close>

fun pc_rank :: "sched_pc \<Rightarrow> nat" where
  "pc_rank Idle = 2"
| "pc_rank (Chosen t a) = 1"
| "pc_rank (Resized t a) = 0"

definition work_left :: "system \<Rightarrow> nat" where
  "work_left y = 8 * length (readyQ (sch y)) + 4 * length (runQ (sch y)) + 3 * length (threads y) +
     2 * length (finishedQ (sch y)) + (if notifying y = None then 0 else 1) + pc_rank (spc y)"

lemma decide_serves:
  assumes "sys_inv y" "modest_load y" "readyQ (sch y) \<noteq> []" "resPool (sch y) \<noteq> []"
    and "call_alg (algVec (sch y) ! MODE_MANAGED) (sch y) = Inr (a, s')"
  shows "0 < noJobs a"
proof -
  have "FCFSMin_alg \<in> set (butlast (algVec (sch y)))"
    using assms(1) by (simp add: sys_inv_def inv_config_def)
  then show ?thesis
    using ManagedMode_progress [OF sys_inv_ready_to_schedule [OF assms(1,3,4)]
        predicted_scorable [OF assms(1,2)]] assms(5) sys_inv_managed [OF assms(1)] by simp
qed

lemma service_moves:
  assumes "sys_inv y" "spc y = Resized t0 a" "serviceAllocations a t1 (sch y) = Inr s'"
  shows "length (readyQ s') + length (ajobs a) = length (readyQ (sch y))" "ajobs a \<noteq> []"
    and "length (runQ s') = length (ajobs a) + length (runQ (sch y))" "finishedQ s' = finishedQ (sch y)"
proof -
  have inv: "inv_jobs y" "pending_ok (sch y) a"
    using assms(1,2) by (simp_all add: sys_inv_def inv_pending_def)
  let ?ps = "map fst (ajobs a)" and ?q = "readyQ (sch y)"
  have q: "distinct ?q" using inv(1) by (auto simp: inv_jobs_def job_places_def)
  have d: "distinct ?ps" "set ?ps \<subseteq> set ?q" using inv(2) by (simp_all add: pending_ok_def)
  have "set (filter (\<lambda>q. q \<in> set ?ps) ?q) = set ?ps" using d(2) by auto
  then have "length (filter (\<lambda>q. q \<in> set ?ps) ?q) = length (ajobs a)"
    using distinct_card [OF d(1)] distinct_card [OF distinct_filter [OF q]] by (metis length_map)
  then show "length (readyQ s') + length (ajobs a) = length ?q"
    using serviced [OF inv assms(3)] sum_length_filter_compl [of "\<lambda>q. q \<in> set ?ps" ?q] by simp
  show "ajobs a \<noteq> []" using inv(2) by (auto simp: pending_ok_def noJobs_eq)
  show "length (runQ s') = length (ajobs a) + length (runQ (sch y))" "finishedQ s' = finishedQ (sch y)"
    using serviced [OF inv assms(3)] by simp_all
qed

text \<open>Every step of a loop thread or a job thread leaves less to do.\<close>

lemma work_left_decreases:
  assumes "sys_step l y z" "sys_inv y" "server_step l" "modest_load y \<or> readyQ (sch y) = []"
  shows "work_left z < work_left y"
  using assms(1)
proof cases
  case (decide a s' t0)
  obtain pool where s': "s' = (sch y)\<lparr>resPool := pool\<rparr>"
    using sys_inv_decision [OF assms(2) decide(4,5,7)] .
  have "0 < noJobs a" using decide_serves [OF assms(2) _ decide(4,5,7)] assms(4) decide(4) by blast
  with decide(2,3) s' show ?thesis by (simp add: work_left_def)
next
  case (resize t0 a s')
  have "readyQ s' = readyQ (sch y)" "runQ s' = runQ (sch y)" "finishedQ s' = finishedQ (sch y)"
    using resize(4) by (cases rule: updateResourcePool_cases, simp_all)+
  with resize show ?thesis by (simp add: work_left_def)
next
  case (service t0 a t1 s')
  note m = service_moves [OF assms(2) service(3,4)]
  from m(2) have "1 \<le> length (ajobs a)" by (simp add: Suc_le_eq)
  with m(1,3,4) service show ?thesis by (simp add: work_left_def count_jobs_def count_schedule_def)
next
  case (dispatch pr s')
  then show ?thesis
    by (auto elim!: dispatcherLoop_iter_Inr simp: work_left_def split: if_splits)
next
  case (complete pr rq reply start stop now)
  have inv: "inv_jobs y" using assms(2) by (simp add: sys_inv_def)
  obtain n where "length (threads y) = Suc n" using complete(3) by (cases "threads y") auto
  then show ?thesis using complete(2,3) running_complete_eq [OF inv complete(3)]
    by (simp add: work_left_def length_remove1)
next
  case (finish now p s')
  then show ?thesis
    by (auto simp: work_left_def finishedLoop_iter_def bindR_eq_Inr wait_pop_front_Inr Let_def)
next
  case (notify p)
  then show ?thesis by (simp add: work_left_def)
qed (use assms(3) in \<open>auto simp: server_step_def\<close>)

section \<open>Progress\<close>

text \<open>The elasticity manager never blocks: the chosen resources are still in the pool.\<close>

lemma resize_enabled:
  assumes "sys_inv y" "spc y = Chosen t0 a"
  shows "\<exists>z. sys_step Resize y z"
proof -
  have "0 < noJobs a" "mset (held (ajobs a)) \<subseteq># mset (resPool (sch y))"
    using assms by (simp_all add: sys_inv_def inv_pending_def pending_ok_def)
  then have "resPool (sch y) \<noteq> []" by (auto simp: noJobs_pos)
  then obtain pool r where "resPool (sch y) = pool @ [r]" by (cases "resPool (sch y)" rule: rev_cases) auto
  then have "\<exists>s'. updateResourcePool a (sch y) = Inr s'"
    by (auto simp: updateResourcePool_def deprovisionResource_def wait_pop_back_def Let_def)
  then show ?thesis using resize [OF assms(2)] by blast
qed

lemma decide_enabled:
  assumes "sys_inv y" "modest_load y" "spc y = Idle" "readyQ (sch y) \<noteq> []" "resPool (sch y) \<noteq> []"
  shows "\<exists>z. sys_step (Decide t) y z"
proof -
  obtain a s' where "ManagedMode (sch y) = Inr (a, s')"
    using ManagedMode_total [OF sys_inv_ready_to_schedule [OF assms(1,4,5)] predicted_scorable [OF assms(1,2)]]
    by blast
  then have "call_alg (algVec (sch y) ! MODE_MANAGED) (sch y) = Inr (a, s')"
    using sys_inv_managed [OF assms(1)] by simp
  moreover have "MODE_MANAGED < length (algVec (sch y))"
    using assms(1) by (simp add: sys_inv_def inv_config_def MODE_MANAGED_def)
  ultimately show ?thesis using decide [OF assms(3-5)] by blast
qed

lemma dispatch_enabled:
  assumes "runQ (sch y) \<noteq> []"
  shows "\<exists>z. sys_step Dispatch y z"
proof -
  have "\<exists>r. dispatcherLoop_iter (sch y) = Inr r"
    using assms by (cases "runQ (sch y)") (simp_all add: dispatcherLoop_iter_def wait_pop_front_def Let_def)
  then obtain pr s' where "dispatcherLoop_iter (sch y) = Inr (pr, s')" by auto
  from dispatch [OF this] show ?thesis by blast
qed

lemma finish_enabled:
  assumes "finishedQ (sch y) \<noteq> [] \<or> notifying y \<noteq> None"
  shows "\<exists>l z. sys_step l y z \<and> thread_of l = Some Finished_Thread"
proof (cases "notifying y")
  case None
  with assms obtain p s' where "finishedLoop_iter 0 (sch y) = Inr (p, s')"
    by (cases "finishedQ (sch y)") (auto simp: finishedLoop_iter_def wait_pop_front_def Let_def)
  from finish [OF None this] show ?thesis by (intro exI conjI) (assumption, simp)
next
  case (Some p)
  from notify [OF this] show ?thesis by (intro exI conjI) (assumption, simp)
qed

lemma complete_enabled:
  assumes "threads y = pr # ts" "snd pr \<noteq> []"
  shows "\<exists>l z. sys_step l y z \<and> is_complete l"
proof -
  obtain rq where "runJob_request pr (sch y) = Inr rq"
    using assms(2) by (cases "snd pr") (auto simp: runJob_request_def deque_front_def Let_def)
  from complete [OF _ this, where reply = "(zero_msg 0)\<lparr>msgId := MSG_RESULT\<rparr>"] assms(1)
  have "sys_step (Complete pr ((zero_msg 0)\<lparr>msgId := MSG_RESULT\<rparr>) 0 0 0) y
      (y\<lparr>sch := runJob_complete pr ((zero_msg 0)\<lparr>msgId := MSG_RESULT\<rparr>) 0 0 0 (sch y),
         threads := remove1 pr (threads y)\<rparr>)" by simp
  then show ?thesis by fastforce
qed

definition sched_stuck :: "system \<Rightarrow> bool" where
  "sched_stuck y \<longleftrightarrow> (case spc y of Idle \<Rightarrow> readyQ (sch y) \<noteq> [] \<and> resPool (sch y) = []
     | Chosen t a \<Rightarrow> False
     | Resized t a \<Rightarrow> serviceAllocations a 0 (sch y) = Inl End_Deref)"

definition drained :: "system \<Rightarrow> bool" where
  "drained y \<longleftrightarrow> spc y = Idle \<and> readyQ (sch y) = []"

lemma sched_progress:
  assumes "sys_inv y" "modest_load y" "\<not> drained y" "\<not> sched_stuck y"
  shows "\<exists>l z. sys_step l y z \<and> thread_of l = Some Sched_Thread \<and> l \<noteq> Spin"
proof (cases "spc y")
  case Idle
  then show ?thesis using decide_enabled [OF assms(1,2), of 0] assms(3,4)
    by (fastforce simp: sched_stuck_def drained_def)
next
  case (Chosen t a)
  then show ?thesis using resize_enabled [OF assms(1)] by fastforce
next
  case (Resized t a)
  then obtain s' where "serviceAllocations a 0 (sch y) = Inr s'"
    using assms(4) serviceAllocations_loop_error
    by (cases "serviceAllocations a 0 (sch y)") (auto simp: sched_stuck_def serviceAllocations_def)
  from service [OF Resized this] show ?thesis by fastforce
qed

lemma drained_not_stuck: "drained y \<Longrightarrow> \<not> sched_stuck y"
  by (simp add: drained_def sched_stuck_def)

text \<open>Where the server has no step left, it is done, or its scheduling thread is stuck.\<close>

definition out_of_resources :: "system \<Rightarrow> bool" where
  "out_of_resources y \<longleftrightarrow> readyQ (sch y) \<noteq> [] \<and> provisionedResources (sch y) = 0"

definition lost_resource :: "system \<Rightarrow> bool" where
  "lost_resource y \<longleftrightarrow> (\<exists>t a. spc y = Resized t a \<and> serviceAllocations a 0 (sch y) = Inl End_Deref)"

lemma server_idle:
  assumes "sys_inv y" "modest_load y" "all_served y" "\<And>l z. server_step l \<Longrightarrow> \<not> sys_step l y z"
  shows "runQ (sch y) = [] \<and> threads y = [] \<and> finishedQ (sch y) = [] \<and> notifying y = None \<and>
    (drained y \<or> out_of_resources y \<or> lost_resource y)"
proof (intro conjI)
  show r: "runQ (sch y) = []" using dispatch_enabled [of y] assms(4) server_stepI(4) by blast
  show t: "threads y = []"
    using complete_enabled [of y] assms(3,4) server_stepI(1) by (cases "threads y") (fastforce simp: all_served_def)+
  have "\<not> (finishedQ (sch y) \<noteq> [] \<or> notifying y \<noteq> None)"
    using finish_enabled [of y] assms(4) server_stepI(2) by blast
  then show "finishedQ (sch y) = []" "notifying y = None" by simp_all
  have res: "int (length (rid_places y)) = provisionedResources (sch y)"
    using assms(1) by (simp add: sys_inv_def inv_resources_def)
  have "drained y \<or> sched_stuck y"
    using sched_progress [OF assms(1,2)] assms(4) server_stepI(3) by blast
  with r t res show "drained y \<or> out_of_resources y \<or> lost_resource y"
    by (auto simp: sched_stuck_def out_of_resources_def lost_resource_def rid_places_def split: sched_pc.splits)
qed

section \<open>The connection handlers\<close>

text \<open>There is a handler for every request and for nothing else.\<close>

definition known_handlers :: "system \<Rightarrow> bool" where
  "known_handlers y \<longleftrightarrow> (\<forall>p. nextRef (sch y) \<le> p \<longrightarrow> handler y p = Returned)"

lemma known_handlers_step:
  assumes "sys_step l y z" "sys_inv y" "known_handlers y"
  shows "known_handlers z"
proof -
  have n: "nextRef (sch y) \<le> nextRef (sch z)" using sys_step_jobs [OF assms(1,2)] by simp
  from assms(1) show ?thesis
    by cases (use assms(3) n in \<open>force simp: known_handlers_def concurrentHandler_submit_eq split: if_splits\<close>)+
qed

interpretation handlers: preserved sys_step "\<lambda>y. sys_inv y \<and> known_handlers y"
  by unfold_locales (auto dest: sys_inv_step known_handlers_step)

lemma reachable_known_handlers:
  assumes "reachable y"
  shows "known_handlers y"
proof -
  have "known_handlers (init_system d st b n)" for d st b n
    by (simp add: known_handlers_def init_system_def start_system_def)
  with handlers.along assms sys_inv_init show ?thesis unfolding reachable_def by metis
qed

fun handler_rank :: "handler_pc \<Rightarrow> nat" where
  "handler_rank Testing = 2"
| "handler_rank Going_To_Wait = 1"
| "handler_rank Waiting = 0"
| "handler_rank Returned = 0"

definition handler_work :: "system \<Rightarrow> nat" where
  "handler_work y = (\<Sum>p<nextRef (sch y). handler_rank (handler y p))"

definition tasks_left :: "system \<Rightarrow> nat" where
  "tasks_left y = 3 * work_left y + handler_work y"

lemma handler_work_upd:
  assumes "handler z = (handler y)(p := c)" "p < nextRef (sch y)" "nextRef (sch z) = nextRef (sch y)"
  shows "handler_work z + handler_rank (handler y p) = handler_work y + handler_rank c"
  using assms by (simp add: handler_work_def sum.remove [of "{..<nextRef (sch y)}" p])

lemma handler_work_server:
  assumes "sys_step l y z" "sys_inv y" "known_handlers y" "server_step l"
  shows "handler_work z \<le> handler_work y + 2"
proof (cases "handler z = handler y")
  case True
  have "nextRef (sch z) = nextRef (sch y)"
    using sys_step_jobs [OF assms(1,2)] assms(4) by (auto simp: server_step_def)
  with True show ?thesis by (simp add: handler_work_def)
next
  case False
  with assms(1,4) obtain p where p: "handler y p = Waiting" "handler z = (handler y)(p := Testing)" "sch z = sch y"
    by cases (auto simp: server_step_def split: if_splits)
  moreover have "p < nextRef (sch y)" using assms(3) p(1) by (force simp: known_handlers_def not_le [symmetric])
  ultimately show ?thesis using handler_work_upd [of z y p Testing] by simp
qed

lemma tasks_left_decreases:
  assumes "sys_step l y z" "sys_inv y" "modest_load y" "known_handlers y" "progress_step l"
  shows "tasks_left z < tasks_left y"
proof (cases "server_step l")
  case True
  then show ?thesis
    using work_left_decreases [OF assms(1,2) True] handler_work_server [OF assms(1,2,4)] assms(3)
    by (simp add: tasks_left_def)
next
  case False
  with assms(1,5) obtain p c where p: "sch z = sch y" "work_left z = work_left y"
    "handler z = (handler y)(p := c)" "handler_rank c < handler_rank (handler y p)"
    by cases (auto simp: server_step_def work_left_def)
  then have "p < nextRef (sch y)" using assms(4) by (force simp: known_handlers_def not_le [symmetric])
  with handler_work_upd [OF p(3)] p show ?thesis by (simp add: tasks_left_def)
qed

text \<open>Without new requests and spurious wakeups, all threads together come to an end.\<close>

interpretation drain: descent "\<lambda>l y z. progress_step l \<and> sys_step l y z"
  "\<lambda>y. sys_inv y \<and> modest_load y \<and> known_handlers y" tasks_left
proof unfold_locales
  fix l y z
  assume l: "progress_step l \<and> sys_step l y z" and y: "sys_inv y \<and> modest_load y \<and> known_handlers y"
  then show "tasks_left z < tasks_left y" using tasks_left_decreases by blast
  have "\<forall>m t. l \<noteq> Submit m t" using l by (auto simp: progress_step_def)
  then show "sys_inv z \<and> modest_load z \<and> known_handlers z"
    using l y sys_inv_step modest_load_kept known_handlers_step by blast
qed

text \<open>Busy waiting may come in between: a fair behaviour comes to rest all the same.\<close>

interpretation fair_drain: fair_descent progress_step "\<lambda>l y z. own_step l \<and> sys_step l y z"
  "\<lambda>y. sys_inv y \<and> modest_load y \<and> known_handlers y" tasks_left
proof unfold_locales
  fix l x y
  assume "progress_step l \<and> own_step l \<and> sys_step l x y" "sys_inv x \<and> modest_load x \<and> known_handlers x"
  then show "sys_inv y \<and> modest_load y \<and> known_handlers y" "tasks_left y < tasks_left x"
    using drain.keeps drain.lowers by blast+
next
  fix l x y
  assume "own_step l \<and> sys_step l x y" "\<not> progress_step l"
  then show "y = x" using spin_same by (auto simp: progress_step_def)
qed

interpretation no_arrival: preserved "\<lambda>l y z. progress_step l \<and> sys_step l y z"
  "\<lambda>y. sys_inv y \<and> nextRef (sch y) = n" for n
  using sys_inv_step sys_step_jobs by unfold_locales force

lemma handlers_idle:
  assumes "\<And>l z. progress_step l \<Longrightarrow> \<not> sys_step l y z"
  shows "handler y p = Returned \<or> handler y p = Waiting"
  using test [of y p] wait [of y p] assms [of "Test p"] assms [of "Wait p"] by (cases "handler y p") auto

text \<open>A run without new requests is bounded, and where it cannot go on the work is done or stuck.\<close>

lemma own_run:
  assumes "sys_run y ls z" "\<forall>l\<in>set ls. own_step l"
  shows "runs (\<lambda>l y z. progress_step l \<and> sys_step l y z) y (filter (\<lambda>l. l \<noteq> Spin) ls) z"
proof -
  have own: "runs (\<lambda>l y z. own_step l \<and> sys_step l y z) y ls z"
    by (rule runs_mono [OF assms(1)]) (use assms(2) in simp)
  have "runs (\<lambda>l a b. l \<noteq> Spin \<and> own_step l \<and> sys_step l a b) y (filter (\<lambda>l. l \<noteq> Spin) ls) z"
    by (rule runs_unstutter [OF _ own]) (auto dest: spin_same)
  from runs_mono [OF this] show ?thesis by (simp add: progress_step_def)
qed

lemma own_run_ends:
  assumes "reachable y" "modest_load y" "sys_run y ls z" "\<forall>l\<in>set ls. own_step l"
  shows "length (filter (\<lambda>l. l \<noteq> Spin) ls) \<le> tasks_left y"
    and "\<forall>l w. progress_step l \<longrightarrow> \<not> sys_step l z w \<Longrightarrow>
      set (completed z) = {..<nextRef (sch y)} \<or> out_of_resources z \<or> lost_resource z"
proof -
  note run = own_run [OF assms(3,4)]
  have y: "sys_inv y \<and> modest_load y \<and> known_handlers y"
    using assms(1,2) by (simp add: reachable_sys_inv reachable_known_handlers)
  then show "length (filter (\<lambda>l. l \<noteq> Spin) ls) \<le> tasks_left y" using drain.bounded [OF run] by simp
  have z: "sys_inv z" "modest_load z" using drain.along [OF run y] by simp_all
  have served: "all_served z" using reachable_all_served [OF reachable_run [OF assms(1,3)] z(2)] .
  have "nextRef (sch z) = nextRef (sch y)" using no_arrival.along [OF run] y by simp
  then show "set (completed z) = {..<nextRef (sch y)} \<or> out_of_resources z \<or> lost_resource z"
    if "\<forall>l w. progress_step l \<longrightarrow> \<not> sys_step l z w"
    using server_idle [OF z served] that server_step_own z(1)
    by (auto simp: sys_inv_def inv_jobs_def job_places_def drained_def)
qed

end
