(* ===== verification/Scheduler_Iteration.thy ===== *)
theory Scheduler_Iteration
  imports Scheduler_Drain
begin

text \<open>
  One whole iteration of \<open>Scheduler::schedLoop\<close>, with nothing else in between. \<open>scheduled\<close> is what it is
  meant to do with the queues and the pool; \<open>schedLoop_iter\<close> is shown to do that, by the atomic steps of
  \<open>sys_step\<close>, or to spin, to block, or to fail for the one reason there is.
\<close>

definition scheduled :: "scheduler \<Rightarrow> job_res_pair list \<Rightarrow> scheduler \<Rightarrow> bool" where
  "scheduled s served s' \<longleftrightarrow> served \<noteq> [] \<and> distinct (map fst served) \<and>
     set (map fst served) \<subseteq> set (take (window s) (readyQ s)) \<and>
     (\<forall>e\<in>set served. snd e \<noteq> [] \<and> length (snd e) \<le> 4) \<and>
     mset (held served) \<subseteq># mset (resPool s) \<and>
     set (map rid (held served)) \<inter> set (map rid (resPool s')) = {} \<and>
     readyQ s' = filter (\<lambda>q. q \<notin> set (map fst served)) (readyQ s) \<and>
     runQ s' = rev served @ runQ s"

text \<open>The decision, with resources in the pool and jobs in the ready queue.\<close>

lemma decision:
  assumes "reachable y" "modest_load y" "spc y = Idle" "readyQ (sch y) \<noteq> []" "resPool (sch y) \<noteq> []"
  obtains a s1 where "ManagedMode (sch y) = Inr (a, s1)" "0 < noJobs a" "sound_allocation (sch y) a"
    "mset (resPool s1) = mset (resPool (sch y))" "job_at s1 = job_at (sch y)"
    "readyQ s1 = readyQ (sch y)" "runQ s1 = runQ (sch y)"
    "sys_step (Decide t0) y (y\<lparr>sch := s1, spc := Chosen t0 a\<rparr>)"
proof -
  note inv = reachable_sys_inv [OF assms(1)]
  obtain a s1 where m: "ManagedMode (sch y) = Inr (a, s1)"
    using ManagedMode_total [OF sys_inv_ready_to_schedule [OF inv assms(4,5)] predicted_scorable [OF inv assms(2)]]
    by blast
  then have c: "call_alg (algVec (sch y) ! MODE_MANAGED) (sch y) = Inr (a, s1)" using sys_inv_managed [OF inv] by simp
  have n: "0 < noJobs a" using decide_serves [OF inv assms(2,4,5) c] .
  obtain pool where s1: "s1 = (sch y)\<lparr>resPool := pool\<rparr>" "mset pool = mset (resPool (sch y))" "sound_allocation (sch y) a"
    using sys_inv_decision [OF inv assms(4,5) c] .
  have "MODE_MANAGED < length (algVec (sch y))" using inv by (simp add: sys_inv_def inv_config_def MODE_MANAGED_def)
  from decide [OF assms(3-5) this c, of t0] n
  have "sys_step (Decide t0) y (y\<lparr>sch := s1, spc := Chosen t0 a\<rparr>)" by simp
  with m n s1 show thesis by (intro that) simp_all
qed

text \<open>Resizing and serving, after the decision.\<close>

lemma resized:
  assumes "sys_inv y" "spc y = Chosen t0 a"
  obtains s2 where "updateResourcePool a (sch y) = Inr s2" "sys_step Resize y (y\<lparr>sch := s2, spc := Resized t0 a\<rparr>)"
    "readyQ s2 = readyQ (sch y)" "runQ s2 = runQ (sch y)"
proof -
  obtain z where z: "sys_step Resize y z" using resize_enabled [OF assms] by blast
  then obtain s2 where s2: "updateResourcePool a (sch y) = Inr s2" "z = y\<lparr>sch := s2, spc := Resized t0 a\<rparr>"
    using assms(2) by cases auto
  moreover from s2(1) have "readyQ s2 = readyQ (sch y)" "runQ s2 = runQ (sch y)"
    by (cases rule: updateResourcePool_cases, simp_all)+
  ultimately show thesis using z that by blast
qed

lemma served:
  assumes "sys_inv y" "spc y = Resized t0 a" "serviceAllocations a t1 (sch y) = Inr s3"
    and "s = count_jobs (noJobs a) (count_schedule t0 t1 s3)"
  shows "sys_step (Service t1) y (y\<lparr>sch := s, spc := Idle\<rparr>)"
    and "readyQ s = filter (\<lambda>q. q \<notin> set (map fst (ajobs a))) (readyQ (sch y))"
    and "runQ s = rev (ajobs a) @ runQ (sch y)"
    and "set (map rid (held (ajobs a))) \<inter> set (map rid (resPool s)) = {}"
proof -
  have inv: "inv_jobs y" "pending_ok (sch y) a"
    using assms(1,2) by (simp_all add: sys_inv_def inv_pending_def)
  show step: "sys_step (Service t1) y (y\<lparr>sch := s, spc := Idle\<rparr>)" using service [OF assms(2,3)] assms(4) by simp
  note spec = serviced [OF inv assms(3)]
  then show "readyQ s = filter (\<lambda>q. q \<notin> set (map fst (ajobs a))) (readyQ (sch y))"
    and run: "runQ s = rev (ajobs a) @ runQ (sch y)"
    by (simp_all add: assms(4) count_jobs_def count_schedule_def)
  have "distinct (rid_places (y\<lparr>sch := s, spc := Idle\<rparr>))"
    using sys_inv_step [OF step assms(1)] by (simp add: sys_inv_def inv_resources_def)
  moreover have "set (held (rev (ajobs a))) = set (held (ajobs a))" using held_rev by (metis mset_eq_setD)
  ultimately show "set (map rid (held (ajobs a))) \<inter> set (map rid (resPool s)) = {}"
    using run by (auto simp: rid_places_def)
qed

text \<open>All outcomes of an iteration on jobs and a pool that are not empty.\<close>

lemma iteration:
  assumes "reachable y" "modest_load y" "spc y = Idle" "readyQ (sch y) \<noteq> []" "resPool (sch y) \<noteq> []"
  obtains a s1 where "ManagedMode (sch y) = Inr (a, s1)"
    "fp_less (Fin 1) (getJLOMetric (job_at (sch y)) a)" "schedLoop_iter t0 t1 (sch y) = Inl End_Deref"
  | s served where "schedLoop_iter t0 t1 (sch y) = Inr s" "scheduled (sch y) served s"
    "sys_run y [Decide t0, Resize, Service t1] (y\<lparr>sch := s\<rparr>)"
proof -
  note inv = reachable_sys_inv [OF assms(1)]
  obtain a s1 where d: "ManagedMode (sch y) = Inr (a, s1)" "0 < noJobs a" "sound_allocation (sch y) a"
    "mset (resPool s1) = mset (resPool (sch y))" "job_at s1 = job_at (sch y)"
    "readyQ s1 = readyQ (sch y)" "runQ s1 = runQ (sch y)"
    and step1: "sys_step (Decide t0) y (y\<lparr>sch := s1, spc := Chosen t0 a\<rparr>)" (is "sys_step _ _ ?y1")
    using decision [OF assms] by blast
  have r1: "reachable ?y1" and inv1: "sys_inv ?y1"
    using reachable_step [OF assms(1) step1] sys_inv_step [OF step1 inv] by simp_all
  obtain s2 where u: "updateResourcePool a s1 = Inr s2" "readyQ s2 = readyQ s1" "runQ s2 = runQ s1"
    and step2: "sys_step Resize ?y1 (?y1\<lparr>sch := s2, spc := Resized t0 a\<rparr>)" (is "sys_step _ _ ?y2")
    using resized [OF inv1, of t0 a] by auto
  have inv2: "sys_inv ?y2" using sys_inv_step [OF step2 inv1] .
  have "MODE_MANAGED < length (algVec (sch y))" using inv by (simp add: sys_inv_def inv_config_def MODE_MANAGED_def)
  then have iter: "schedLoop_iter t0 t1 (sch y) =
      bindR (serviceAllocations a t1 s2) (\<lambda>s3. Inr (count_jobs (noJobs a) (count_schedule t0 t1 s3)))"
    using assms(4,5) d(1,2) u(1) sys_inv_managed [OF inv]
    by (cases "serviceAllocations a t1 s2") (simp_all add: schedLoop_iter_def wait_not_empty_def deque_size_def Let_def)
  show thesis
  proof (cases "serviceAllocations a t1 s2")
    case (Inl e)
    then have e: "e = End_Deref" using serviceAllocations_loop_error by (simp add: serviceAllocations_def)
    have "fp_less (Fin 1) (getJLOMetric (job_at (sch y)) a)"
    proof (rule ccontr)
      assume "\<not> fp_less (Fin 1) (getJLOMetric (job_at (sch y)) a)"
      then have "\<not> fp_less (Fin 1) (getJLOMetric (job_at (sch ?y1)) a)" using d(5) by simp
      note carried = decision_carried_out [OF inv1 _ this, of t0 t1]
      obtain z w where z: "sys_step Resize ?y1 z" "sys_step (Service t1) z w"
        by (rule carried) simp
      from z(1) have "z = ?y2" using u(1) by cases auto
      with z(2) Inl show False by cases auto
    qed
    with d(1) iter Inl e show thesis using that(1) by simp
  next
    case (Inr s3)
    let ?s = "count_jobs (noJobs a) (count_schedule t0 t1 s3)"
    have a3: "serviceAllocations a t1 (sch ?y2) = Inr s3" using Inr by simp
    note v = served [OF inv2 _ a3 refl, of t0]
    have "y\<lparr>sch := ?s, spc := Idle\<rparr> = y\<lparr>sch := ?s\<rparr>" using assms(3) by (cases y) simp
    then have "sys_step (Service t1) ?y2 (y\<lparr>sch := ?s\<rparr>)" using v(1) by simp
    then have run: "sys_run y [Decide t0, Resize, Service t1] (y\<lparr>sch := ?s\<rparr>)"
      using sys_run_append [OF sys_run_append [OF sys_run_step sys_run_step [OF step2]] sys_run_step [OF step1]]
      by fastforce
    have four: "jmax (job_at (sch y) p) = 4" if "p \<in> set (readyQ (sch y))" for p
      using inv that by (auto simp: sys_inv_def inv_jobs_def job_places_def)
    have "modest_load ?y1" using modest_load_kept [OF step1 inv _ assms(2)] by simp
    then have "\<forall>e\<in>set (ajobs a). snd e \<noteq> []"
      using reachable_all_served [OF r1] by (simp add: all_served_def)
    moreover have "\<forall>e\<in>set (ajobs a). length (snd e) \<le> 4"
    proof
      fix e assume e: "e \<in> set (ajobs a)"
      then have "fst e \<in> set (readyQ (sch y))" using d(3) by (auto simp: sound_allocation_def dest: in_set_takeD)
      with four d(3) e show "length (snd e) \<le> 4" by (fastforce simp: sound_allocation_def)
    qed
    moreover have "ajobs a \<noteq> []" using d(2) by (auto simp: noJobs_eq)
    ultimately have "scheduled (sch y) (ajobs a) ?s"
      using v(2-4) u d(3,6,7) by (simp add: scheduled_def sound_allocation_def)
    with iter Inr run show thesis using that(2) by simp
  qed
qed

end
