(* ===== verification/Scheduler_Load.thy ===== *)
theory Scheduler_Load
  imports Scheduler_Drain
begin

text \<open>
  The scheduler under the requests its clients send, and with the threads its server has. Requests of
  the stubs \<open>movingAverage\<close> and \<open>optionPricing\<close> have no target time: for them the elasticity manager
  only ever adds resources, so that the two ways in which work gets stuck cannot arise. A request
  keeps one of the \<open>NUM_THREADS\<close> threads of the server until it is answered, which bounds the queues;
  it also means that handlers that sleep for ever use the threads up.
\<close>

section \<open>Requests without a target time\<close>

definition untargeted :: "system \<Rightarrow> bool" where
  "untargeted y \<longleftrightarrow> modest_load y \<and>
     (\<forall>p<nextRef (sch y). targetExecutionTime (job_at (sch y) p) \<le> 0)"

lemma untargeted_step:
  assumes "sys_step l y z" "sys_inv y" "untargeted z"
  shows "untargeted y"
proof -
  have "nextRef (sch y) \<le> nextRef (sch z)"
    and "\<And>p. p < nextRef (sch y) \<Longrightarrow> targetExecutionTime (job_at (sch z) p) = targetExecutionTime (job_at (sch y) p)"
    using sys_step_jobs [OF assms(1,2)] by (simp_all add: same_job_def)
  with modest_load_step [OF assms(1,2)] assms(3) show ?thesis
    unfolding untargeted_def by (metis order_less_le_trans)
qed

lemma untargeted_kept:
  assumes "sys_step l y z" "sys_inv y" "\<forall>m t. l \<noteq> Submit m t" "untargeted y"
  shows "untargeted z"
  using modest_load_kept [OF assms(1-3)] sys_step_jobs [OF assms(1,2)] assms(4)
  by (auto simp: untargeted_def same_job_def)

text \<open>The metric of a decision about such jobs is negative: the pool grows.\<close>

lemma untargeted_grows:
  assumes "sys_inv y" "all_served y" "untargeted y" "spc y = Chosen t a"
  shows "updateResourcePool a (sch y) = Inr (provisionResource (sch y))"
proof -
  let ?slack = "slack (job_at (sch y))"
  have ok: "pending_ok (sch y) a" and jobs: "inv_jobs y"
    using assms(1,4) by (simp_all add: sys_inv_def inv_pending_def)
  have ne: "\<forall>e\<in>set (ajobs a). snd e \<noteq> []" using assms(2,4) unfolding all_served_def by blast
  have neg: "?slack e < 0" if e: "e \<in> set (ajobs a)" for e
  proof -
    have "fst e \<in> set (readyQ (sch y))" using ok e by (auto simp: pending_ok_def)
    then have p: "fst e < nextRef (sch y)" using jobs by (auto simp: inv_jobs_def job_places_def)
    have "0 < predictedTime (job_at (sch y) (fst e))" "targetExecutionTime (job_at (sch y) (fst e)) \<le> 0"
      using assms(3) p by (force simp: untargeted_def modest_load_defs)+
    moreover from this(1) have "0 < predictedTime (job_at (sch y) (fst e)) / of_nat (length (snd e))"
      using ne e by (intro divide_pos_pos) auto
    ultimately show ?thesis by (simp add: slack_def)
  qed
  have "ajobs a \<noteq> []" using ok by (auto simp: pending_ok_def noJobs_eq)
  then obtain e where "e \<in> set (ajobs a)" by (meson list.set_sel(1))
  with neg have some: "\<exists>e\<in>set (ajobs a). ?slack e < 0" by blast
  have "filter (\<lambda>e. ?slack e < 0) (ajobs a) = ajobs a" using neg by (simp add: filter_id_conv)
  then have "getJLOMetric (job_at (sch y)) a = Fin (\<Sum>e\<leftarrow>ajobs a. ?slack e)"
    using getJLOMetric_fin [OF ne] some by simp
  moreover have "(\<Sum>e\<leftarrow>ajobs a. ?slack e) < 0" using sum_list_neg [of "ajobs a" ?slack] neg \<open>ajobs a \<noteq> []\<close> by simp
  ultimately show ?thesis by (simp add: updateResourcePool_def)
qed

text \<open>There is a resource, and what a decision promised is still in the pool.\<close>

definition secured :: "system \<Rightarrow> bool" where
  "secured y \<longleftrightarrow> 1 \<le> provisionedResources (sch y) \<and>
     (\<forall>t a. spc y = Resized t a \<longrightarrow> mset (held (ajobs a)) \<subseteq># mset (resPool (sch y)))"

lemma secured_step:
  assumes "sys_step l y z" "sys_inv y" "all_served y" "untargeted y" "secured y"
  shows "secured z"
  using assms(1)
proof cases
  case (submit m now p s')
  then show ?thesis using assms(5) by (auto simp: secured_def concurrentHandler_submit_eq)
next
  case (decide a s' t0)
  obtain pool where "s' = (sch y)\<lparr>resPool := pool\<rparr>" using sys_inv_decision [OF assms(2) decide(4,5,7)] .
  with decide(2) assms(5) show ?thesis by (auto simp: secured_def count_jobs_def)
next
  case (resize t0 a s')
  have "s' = provisionResource (sch y)" using untargeted_grows [OF assms(2-4) resize(3)] resize(4) by simp
  moreover have "mset (held (ajobs a)) \<subseteq># mset (resPool (sch y))"
    using assms(2) resize(3) by (simp add: sys_inv_def inv_pending_def)
  moreover have "mset (resPool (sch y)) \<subseteq># mset (resPool (provisionResource (sch y)))"
    using provisionResource_simps by simp
  ultimately show ?thesis using resize(2) assms(5)
    by (auto simp: secured_def intro: subset_mset.order_trans)
next
  case (service t0 a t1 s')
  have "inv_jobs y" "pending_ok (sch y) a" using assms(2) service(3) by (simp_all add: sys_inv_def inv_pending_def)
  from serviced [OF this service(4)] service(2) assms(5) show ?thesis
    by (auto simp: secured_def count_jobs_def count_schedule_def)
next
  case (dispatch pr s')
  then show ?thesis using assms(5) by (auto simp: secured_def elim!: dispatcherLoop_iter_Inr split: if_splits)
next
  case (complete pr rq reply start stop now)
  have "inv_jobs y" using assms(2) by (simp add: sys_inv_def)
  from complete(2) running_complete_eq [OF this complete(3)] assms(5) show ?thesis
    by (auto simp: secured_def intro: subset_mset.add_increasing2)
next
  case (finish now p s')
  then show ?thesis using assms(5) by (auto simp: secured_def finishedLoop_iter_def bindR_eq_Inr Let_def)
qed (use assms(5) in \<open>auto simp: secured_def\<close>)

interpretation growing: preserved sys_step
  "\<lambda>y. sys_inv y \<and> (modest_load y \<longrightarrow> all_served y) \<and> (untargeted y \<longrightarrow> secured y)"
  by unfold_locales
    (meson served.keeps secured_step untargeted_step untargeted_def)

lemma reachable_secured:
  assumes "reachable y" "untargeted y"
  shows "secured y"
proof -
  have "all_served (init_system d st b n) \<and> secured (init_system d st b n)" for d st b n
    by (simp add: all_served_def secured_def init_system_def start_system_def scheduler_main_unfold)
  with growing.along assms sys_inv_init show ?thesis unfolding reachable_def by metis
qed

lemma secured_not_stuck:
  assumes "sys_inv y" "secured y"
  shows "\<not> out_of_resources y \<and> \<not> lost_resource y"
proof
  show "\<not> out_of_resources y" using assms(2) by (simp add: secured_def out_of_resources_def)
  have "distinct (map rid (resPool (sch y)))"
    using assms(1) by (simp add: sys_inv_def inv_resources_def rid_places_def)
  then have "\<exists>s'. serviceAllocations a 0 (sch y) = Inr s'" if "spc y = Resized t a" for t a
    using serviceAllocations_loop_ok assms(2) that unfolding secured_def serviceAllocations_def by blast
  then show "\<not> lost_resource y" by (force simp: lost_resource_def)
qed

text \<open>Without new requests there is no target time either.\<close>

interpretation quiet: preserved "\<lambda>l y z. progress_step l \<and> sys_step l y z" "\<lambda>y. sys_inv y \<and> untargeted y"
proof unfold_locales
  fix l y z
  assume l: "progress_step l \<and> sys_step l y z" and y: "sys_inv y \<and> untargeted y"
  have "\<forall>m t. l \<noteq> Submit m t" using l by fastforce
  then show "sys_inv z \<and> untargeted z" using l y sys_inv_step untargeted_kept by blast
qed

text \<open>What is true where all threads have come to rest, apart from busy waiting.\<close>

lemma at_rest:
  assumes "reachable y" "modest_load y" "sys_run y ls z" "\<forall>l\<in>set ls. own_step l"
    and "\<forall>l w. progress_step l \<longrightarrow> \<not> sys_step l z w"
  shows "(\<forall>p. handler z p = Returned \<or> handler z p = Waiting) \<and>
    (set (completed z) = {..<nextRef (sch y)} \<or>
     \<not> untargeted y \<and> (out_of_resources z \<or> lost_resource z)) \<and>
    (\<forall>p\<in>set (completed z). \<exists>r. rsp (job_at (sch z) p) = Some r \<and> msgId r = MSG_RESULT)"
proof -
  note ends = own_run_ends(2) [OF assms]
  have z: "reachable z" using reachable_run [OF assms(1,3)] .
  then have inv: "sys_inv z" by (rule reachable_sys_inv)
  have "\<not> out_of_resources z \<and> \<not> lost_resource z" if "untargeted y"
    using quiet.along [OF own_run [OF assms(3,4)]] reachable_sys_inv [OF assms(1)] that z
      secured_not_stuck [OF inv] reachable_secured by blast
  moreover have "\<exists>r. rsp (job_at (sch z) p) = Some r \<and> msgId r = MSG_RESULT" if "p \<in> set (completed z)" for p
    using inv that by (auto simp: sys_inv_def inv_flags_def inv_jobs_def job_places_def)
  ultimately show ?thesis using ends handlers_idle [of z] assms(5) by blast
qed

section \<open>The threads of the server\<close>

definition NUM_THREADS :: nat where "NUM_THREADS = 4"

text \<open>
  \<open>handle_request\<close> runs on the thread of its connection: a request is only taken up while fewer than
  \<open>NUM_THREADS\<close> handlers are busy.
\<close>

definition active_handlers :: "system \<Rightarrow> jref list" where
  "active_handlers y = filter (\<lambda>p. handler y p \<noteq> Returned) [0..<nextRef (sch y)]"

fun admitted :: "label \<Rightarrow> system \<Rightarrow> bool" where
  "admitted (Submit m t) y = (length (active_handlers y) < NUM_THREADS)"
| "admitted _ y = True"

definition pooled_step :: "label \<Rightarrow> system \<Rightarrow> system \<Rightarrow> bool" where
  "pooled_step l y z \<longleftrightarrow> admitted l y \<and> sys_step l y z"

lemma admitted_own: "progress_step l \<Longrightarrow> admitted l y"
  by (cases l) simp_all

lemma active_card:
  assumes "known_handlers y"
  shows "finite {p. handler y p \<noteq> Returned}" "length (active_handlers y) = card {p. handler y p \<noteq> Returned}"
proof -
  have set: "set (active_handlers y) = {p. handler y p \<noteq> Returned}"
    using assms by (force simp: active_handlers_def known_handlers_def not_le [symmetric])
  then show "finite {p. handler y p \<noteq> Returned}" by (metis List.finite_set)
  have "distinct (active_handlers y)" by (simp add: active_handlers_def)
  from distinct_card [OF this] set show "length (active_handlers y) = card {p. handler y p \<noteq> Returned}" by simp
qed

lemma active_step:
  assumes "pooled_step l y z" "sys_inv y" "known_handlers y" "length (active_handlers y) \<le> NUM_THREADS"
  shows "length (active_handlers z) \<le> NUM_THREADS"
proof -
  let ?A = "\<lambda>y. {p. handler y p \<noteq> Returned}"
  have step: "sys_step l y z" and adm: "admitted l y" using assms(1) by (simp_all add: pooled_step_def)
  have z: "length (active_handlers z) = card (?A z)"
    using active_card(2) known_handlers_step [OF step assms(2,3)] by blast
  note y = active_card [OF assms(3)]
  show ?thesis
  proof (cases "\<exists>m t. l = Submit m t")
    case True
    then obtain m t where l: "l = Submit m t" by blast
    from step l have "\<exists>p. handler z = (handler y)(p := Testing)" by cases auto
    then obtain p where "handler z = (handler y)(p := Testing)" by blast
    then have "?A z \<subseteq> insert p (?A y)" by auto
    then have "card (?A z) \<le> card (insert p (?A y))" using y(1) by (intro card_mono) simp_all
    also have "\<dots> \<le> Suc (card (?A y))" using y(1) by (simp add: card_insert_if)
    finally have "card (?A z) \<le> Suc (card (?A y))" .
    with adm l y(2) z show ?thesis by simp
  next
    case False
    with step have "?A z \<subseteq> ?A y" by cases (auto split: if_splits)
    from card_mono [OF y(1) this] z y(2) assms(4) show ?thesis by simp
  qed
qed

interpretation load: preserved pooled_step
  "\<lambda>y. sys_inv y \<and> known_handlers y \<and> length (active_handlers y) \<le> NUM_THREADS"
  using active_step sys_inv_step known_handlers_step by unfold_locales (auto simp: pooled_step_def)

text \<open>The handler of a job that is not completed is busy.\<close>

lemma load_bounded:
  assumes "sys_inv y" "known_handlers y"
  shows "length (readyQ (sch y)) + length (runQ (sch y)) + length (threads y) + length (finishedQ (sch y))
    \<le> length (active_handlers y)"
proof -
  let ?xs = "readyQ (sch y) @ map fst (runQ (sch y)) @ map fst (threads y) @ finishedQ (sch y)"
  have "distinct (?xs @ completed y)" "set ?xs \<subseteq> {..<nextRef (sch y)}"
    using assms(1) by (auto simp: sys_inv_def inv_jobs_def job_places_def)
  then have "distinct ?xs" "\<forall>p\<in>set ?xs. p < nextRef (sch y) \<and> p \<notin> set (completed y)" by auto
  moreover have "p \<in> set (completed y)" if "p < nextRef (sch y)" "handler y p = Returned" for p
    using assms(1) that by (simp add: sys_inv_def inv_flags_def)
  ultimately have "distinct ?xs" "set ?xs \<subseteq> {p. handler y p \<noteq> Returned}" by blast+
  then have "length ?xs \<le> length (active_handlers y)"
    using card_mono [OF active_card(1) [OF assms(2)]] distinct_card active_card(2) [OF assms(2)] by metis
  then show ?thesis by simp
qed

section \<open>Handlers that sleep for ever\<close>

text \<open>The loop threads and the job threads alone come to an end too.\<close>

interpretation busy: descent "\<lambda>l y z. server_step l \<and> sys_step l y z"
  "\<lambda>y. sys_inv y \<and> untargeted y" work_left
  using quiet.keeps server_step_own work_left_decreases untargeted_def by unfold_locales blast+

text \<open>A handler on its way to wait is not touched by them.\<close>

interpretation on_its_way: preserved "\<lambda>l y z. server_step l \<and> sys_step l y z" "\<lambda>y. handler y p = Going_To_Wait" for p
proof unfold_locales
  fix l y z
  assume l: "server_step l \<and> sys_step l y z" and y: "handler y p = Going_To_Wait"
  from conjunct2 [OF l] show "handler z p = Going_To_Wait"
    by cases (use l y in \<open>auto simp: server_step_def\<close>)
qed

text \<open>All handlers so far sleep although their jobs are done.\<close>

definition asleep :: "system \<Rightarrow> bool" where
  "asleep y \<longleftrightarrow> notifying y = None \<and>
     (\<forall>p<nextRef (sch y). handler y p = Waiting \<and> p \<in> set (completed y))"

lemma server_run_completes:
  assumes "reachable y" "untargeted y"
  obtains ls z where "runs (\<lambda>l y z. server_step l \<and> sys_step l y z) y ls z"
    "set (completed z) = {..<nextRef (sch y)}" "notifying z = None" "nextRef (sch z) = nextRef (sch y)"
proof -
  obtain ls z where run: "runs (\<lambda>l y z. server_step l \<and> sys_step l y z) y ls z" and z: "sys_inv z" "untargeted z"
    and stop: "\<forall>l w. \<not> (server_step l \<and> sys_step l z w)"
    using busy.halts [of y] reachable_sys_inv [OF assms(1)] assms(2) by blast
  have own: "runs (\<lambda>l y z. progress_step l \<and> sys_step l y z) y ls z"
    by (rule runs_mono [OF run]) (simp add: server_step_own)
  have rz: "reachable z" using reachable_run [OF assms(1) runs_mono [OF run, of sys_step]] by blast
  have idle: "runQ (sch z) = [] \<and> threads z = [] \<and> finishedQ (sch z) = [] \<and> notifying z = None \<and>
      (drained z \<or> out_of_resources z \<or> lost_resource z)"
    using server_idle [OF z(1) _ reachable_all_served [OF rz]] z(2) stop by (simp add: untargeted_def)
  moreover have "drained z" using idle secured_not_stuck [OF z(1) reachable_secured [OF rz z(2)]] by blast
  moreover have n: "nextRef (sch z) = nextRef (sch y)"
    using no_arrival.along [OF own] reachable_sys_inv [OF assms(1)] by simp
  ultimately have "set (completed z) = {..<nextRef (sch y)}"
    using z(1) by (auto simp: sys_inv_def inv_jobs_def job_places_def drained_def)
  with run idle n that show thesis by blast
qed

lemma millis_nonpos:
  assumes "sint w \<le> 0"
  shows "millis w \<le> 0"
proof -
  have "(of_int (sint w) :: rat) \<le> 0" using assms by (simp only: of_int_le_0_iff)
  then show ?thesis unfolding millis_def by (intro divide_nonpos_pos) simp_all
qed

lemma submitted:
  fixes m :: msg
  assumes "reachable y" "untargeted y" "nextRef (sch y) < NUM_THREADS"
    and "1 \<le> sint (predictedTimeMillis m)" "sint (targetExecutionTimeMillis m) \<le> 0"
  obtains z where "pooled_step (Submit m t) y z" "untargeted z" "nextRef (sch z) = Suc (nextRef (sch y))"
    "handler z = (handler y)(nextRef (sch y) := Testing)" "completed z = completed y" "notifying z = notifying y"
proof -
  let ?s = "snd (concurrentHandler_submit m t (sch y))" and ?p = "nextRef (sch y)"
  let ?z = "y\<lparr>sch := ?s, handler := (handler y)(?p := Testing)\<rparr>"
  have "sys_step (Submit m t) y ?z" by (rule submit) (simp add: concurrentHandler_submit_eq)
  moreover have "length (active_handlers y) < NUM_THREADS"
    using assms(3) length_filter_le [of "\<lambda>p. handler y p \<noteq> Returned" "[0..<?p]"]
    by (simp add: active_handlers_def)
  moreover have "untargeted ?z"
    using assms(2,3) millis_ge_one [OF assms(4)] millis_nonpos [OF assms(5)]
    by (auto simp: untargeted_def modest_load_defs concurrentHandler_submit_eq Job_new_def
        NUM_THREADS_def less_Suc_eq)
  ultimately show thesis using that [of ?z] by (simp add: pooled_step_def concurrentHandler_submit_eq)
qed

lemma lose_one:
  fixes m :: msg
  assumes "reachable y" "untargeted y" "asleep y" "nextRef (sch y) < NUM_THREADS"
    and "1 \<le> sint (predictedTimeMillis m)" "sint (targetExecutionTimeMillis m) \<le> 0"
  shows "\<exists>ls z. runs pooled_step y ls z \<and> untargeted z \<and> asleep z \<and> nextRef (sch z) = Suc (nextRef (sch y))"
proof -
  let ?p = "nextRef (sch y)"
  obtain y1 where s1: "pooled_step (Submit m 0) y y1" and y1: "untargeted y1" "nextRef (sch y1) = Suc ?p"
    "handler y1 = (handler y)(?p := Testing)" "completed y1 = completed y" "notifying y1 = notifying y"
    using submitted [OF assms(1,2,4-6)] .
  have r1: "reachable y1" using reachable_step [OF assms(1)] s1 unfolding pooled_step_def by blast
  have "?p \<notin> set (completed y)"
    using reachable_sys_inv [OF assms(1)] by (auto simp: sys_inv_def inv_jobs_def job_places_def)
  then have "\<not> finished (tinfo (jobs (sch y1) ?p))"
    using reachable_sys_inv [OF r1] y1(2,4) by (simp add: sys_inv_def inv_flags_def)
  then have s2: "sys_step (Test ?p) y1 (y1\<lparr>handler := (handler y)(?p := Going_To_Wait)\<rparr>)" (is "sys_step _ _ ?y2")
    using test [of y1 ?p] y1(3) by simp
  have r2: "reachable ?y2" "untargeted ?y2"
    using reachable_step [OF r1 s2] untargeted_kept [OF s2 reachable_sys_inv [OF r1] _ y1(1)] by simp_all
  obtain ks v where run: "runs (\<lambda>l y z. server_step l \<and> sys_step l y z) ?y2 ks v"
    and v: "set (completed v) = {..<nextRef (sch ?y2)}" "notifying v = None" "nextRef (sch v) = nextRef (sch ?y2)"
    using server_run_completes [OF r2] .
  have going: "handler v ?p = Going_To_Wait" using on_its_way.along [OF run] by simp
  have sr: "sys_run ?y2 ks v" by (rule runs_mono [OF run]) simp
  have "handler v q = Waiting" if q: "q < ?p" for q
  proof -
    have "Spurious q \<notin> set ks" using runs_labels [OF run, of server_step] by (auto simp: server_step_def)
    with sleeper_stays [OF sr reachable_sys_inv [OF r2(1)], of q] assms(3) y1(4,5) q show ?thesis
      by (simp add: asleep_def)
  qed
  then have z: "asleep (v\<lparr>handler := (handler v)(?p := Waiting)\<rparr>)" (is "asleep ?z")
    using v y1(2) by (auto simp: asleep_def less_Suc_eq)
  have s4: "sys_step (Wait ?p) v ?z" using wait [OF going] .
  have "untargeted v" using busy.along [OF run] r2 reachable_sys_inv by blast
  then have "untargeted ?z" by (simp add: untargeted_def modest_load_defs)
  moreover have "runs pooled_step ?y2 ks v"
    by (rule runs_mono [OF run]) (simp add: pooled_step_def admitted_own server_step_own)
  moreover have "runs pooled_step y ([Submit m 0] @ [Test ?p]) ?y2"
    using runs.snoc [OF runs_step [of pooled_step, OF s1]] s2 by (simp add: pooled_step_def)
  moreover have "pooled_step (Wait ?p) v ?z" using s4 by (simp add: pooled_step_def)
  ultimately have "runs pooled_step y ((([Submit m 0] @ [Test ?p]) @ ks) @ [Wait ?p]) ?z" "untargeted ?z"
    by (blast intro: runs.snoc runs_append)+
  with z v(3) y1(2) show ?thesis by (intro exI [of _ ?z] exI conjI) simp_all
qed

lemma pooled_reachable: "runs pooled_step (init_system d st b n) ls y \<Longrightarrow> reachable y"
  using sys_run_reachable [OF runs_mono [of pooled_step _ ls y sys_step]] by (auto simp: pooled_step_def)

lemma lose_all:
  fixes m :: msg
  assumes "1 \<le> sint (predictedTimeMillis m)" "sint (targetExecutionTimeMillis m) \<le> 0" "k \<le> NUM_THREADS"
  shows "\<exists>ls y. runs pooled_step (init_system d st b n) ls y \<and> untargeted y \<and> asleep y \<and> nextRef (sch y) = k"
  using assms(3)
proof (induction k)
  case 0
  have "untargeted (init_system d st b n) \<and> asleep (init_system d st b n) \<and> nextRef (sch (init_system d st b n)) = 0"
    by (simp add: untargeted_def modest_load_defs asleep_def init_system_def start_system_def scheduler_main_unfold)
  with runs.nil [of pooled_step] show ?case by blast
next
  case (Suc k)
  then obtain ls y where y: "runs pooled_step (init_system d st b n) ls y" "untargeted y" "asleep y" "nextRef (sch y) = k"
    by auto
  then obtain ks z where "runs pooled_step y ks z" "untargeted z" "asleep z" "nextRef (sch z) = Suc k"
    using lose_one [OF pooled_reachable [OF y(1)] y(2,3) _ assms(1,2)] Suc.prems by auto
  with runs_append [OF _ y(1)] show ?case by blast
qed

text \<open>With all threads in such handlers, no request is taken up any more.\<close>

definition deaf :: "system \<Rightarrow> bool" where
  "deaf y \<longleftrightarrow> sys_inv y \<and>
     (\<forall>p<NUM_THREADS. p \<in> set (completed y) \<and> handler y p = Waiting \<and> notifying y \<noteq> Some p)"

lemma deaf_not_admitted:
  assumes "deaf y"
  shows "\<not> admitted (Submit m t) y"
proof -
  have "\<forall>p<NUM_THREADS. p < nextRef (sch y) \<and> handler y p \<noteq> Returned"
    using assms by (auto simp: deaf_def sys_inv_def inv_jobs_def job_places_def)
  then have "{..<NUM_THREADS} \<subseteq> set (active_handlers y)" by (auto simp: active_handlers_def)
  then have "NUM_THREADS \<le> card (set (active_handlers y))" using card_mono [OF finite_set, of "{..<NUM_THREADS}"] by simp
  then show ?thesis using card_length [of "active_handlers y"] by simp
qed

interpretation deafness: preserved "\<lambda>l y z. pooled_step l y z \<and> (\<forall>p. l \<noteq> Spurious p)" deaf
proof unfold_locales
  fix l y z
  assume l: "pooled_step l y z \<and> (\<forall>p. l \<noteq> Spurious p)" and y: "deaf y"
  then have run: "sys_run y [l] z" and inv: "sys_inv y" by (simp_all add: pooled_step_def sys_run_step deaf_def)
  show "deaf z"
    using sleeper_stays [OF run inv] y l whole.along [OF run inv] by (auto simp: deaf_def)
qed

end
