(* ===== verification/Scheduler_Shutdown.thy ===== *)
theory Scheduler_Shutdown
  imports Scheduler_Drain
begin

text \<open>
  The end of a scheduler: \<open>Scheduler::start\<close> creates the three loop threads, and when the
  server has stopped, \<open>~Scheduler\<close> (\<open>src/scheduler/Scheduler.hpp\<close>) interrupts and joins
  them one after the other. An interrupted thread goes on until it reaches a wait on a
  condition variable, so it first works through its queue, and spins while there are jobs and no resources
  (\<open>Spin\<close>); the exception it then throws ends the
  thread, whether the loop catches it (\<open>dispatcherLoop\<close>) or not (the others only catch
  \<open>std::exception\<close>, of which \<open>boost::thread_interrupted\<close> is none). Job threads are detached: nobody
  interrupts or joins them. The connection handlers are gone when the destructor runs
  (\<open>MultiThreadedTCPServer::run\<close> has joined them), so no request arrives any more.
\<close>

section \<open>The destructor and the threads it stops\<close>

text \<open>\<open>Scheduler::start\<close>: the three threads, on the scheduler as it is.\<close>

definition loop_threads :: "loop_thread list" where
  "loop_threads = [Sched_Thread, Dispatch_Thread, Finished_Thread]"

definition Scheduler_start :: "scheduler \<Rightarrow> system \<times> loop_thread list" where
  "Scheduler_start s = (start_system s, loop_threads)"

record shutdown =
  sys :: system
  pending :: "loop_thread list"
  joining :: "loop_thread option"
  gone :: "loop_thread list"

text \<open>The destructor skips a thread whose pointer is null, that is one \<open>start\<close> did not create.\<close>

definition Scheduler_destroy :: "system \<times> loop_thread list \<Rightarrow> shutdown" where
  "Scheduler_destroy ys = \<lparr>sys = fst ys,
     pending = (if Sched_Thread \<in> set (snd ys) then [Sched_Thread] else []) @
       (if Dispatch_Thread \<in> set (snd ys) then [Dispatch_Thread] else []) @
       (if Finished_Thread \<in> set (snd ys) then [Finished_Thread] else []),
     joining = None, gone = []\<rparr>"

definition destroyed :: "shutdown \<Rightarrow> bool" where
  "destroyed d \<longleftrightarrow> pending d = [] \<and> joining d = None"

text \<open>Who still makes a step, and where a loop thread waits for its queue.\<close>

definition still_runs :: "loop_thread list \<Rightarrow> label \<Rightarrow> bool" where
  "still_runs g l = (case thread_of l of Some t \<Rightarrow> t \<notin> set g | None \<Rightarrow> is_complete l)"

fun at_wait :: "loop_thread \<Rightarrow> system \<Rightarrow> bool" where
  "at_wait Sched_Thread y = (spc y = Idle \<and> wait_not_empty (readyQ (sch y)) = Inl Would_Block)"
| "at_wait Dispatch_Thread y = (dispatcherLoop_iter (sch y) = Inl Would_Block)"
| "at_wait Finished_Thread y = (notifying y = None \<and> finishedLoop_iter 0 (sch y) = Inl Would_Block)"

datatype down_label =
    Work label
  | Interrupt loop_thread
  | Leave loop_thread
  | Join loop_thread

inductive down_step :: "down_label \<Rightarrow> shutdown \<Rightarrow> shutdown \<Rightarrow> bool" where
  work: "sys_step l (sys d) y \<Longrightarrow> still_runs (gone d) l \<Longrightarrow> down_step (Work l) d (d\<lparr>sys := y\<rparr>)"
| interrupt: "joining d = None \<Longrightarrow> pending d = t # ts \<Longrightarrow>
     down_step (Interrupt t) d (d\<lparr>pending := ts, joining := Some t\<rparr>)"
| leave: "joining d = Some t \<Longrightarrow> t \<notin> set (gone d) \<Longrightarrow> at_wait t (sys d) \<Longrightarrow>
     down_step (Leave t) d (d\<lparr>gone := t # gone d\<rparr>)"
| join: "joining d = Some t \<Longrightarrow> t \<in> set (gone d) \<Longrightarrow> down_step (Join t) d (d\<lparr>joining := None\<rparr>)"

abbreviation down_run :: "shutdown \<Rightarrow> down_label list \<Rightarrow> shutdown \<Rightarrow> bool" where
  "down_run \<equiv> runs down_step"

text \<open>The thread functions block exactly on an empty queue.\<close>

lemma at_wait_eq [simp]:
  "at_wait Sched_Thread y \<longleftrightarrow> spc y = Idle \<and> readyQ (sch y) = []"
  "at_wait Dispatch_Thread y \<longleftrightarrow> runQ (sch y) = []"
  "at_wait Finished_Thread y \<longleftrightarrow> notifying y = None \<and> finishedQ (sch y) = []"
  by (auto simp: wait_not_empty_def dispatcherLoop_iter_def finishedLoop_iter_def wait_pop_front_def
      Let_def split: if_splits list.splits)

declare at_wait.simps [simp del]

lemma still_runs_server: "still_runs g l \<Longrightarrow> l \<noteq> Spin \<Longrightarrow> server_step l"
  by (auto simp: still_runs_def server_step_def split: option.splits)

lemma still_runs_no_request:
  "still_runs g l \<Longrightarrow> l \<noteq> Submit m t \<and> l \<noteq> Test p \<and> l \<noteq> Wait p \<and> l \<noteq> Spurious p"
  by (cases l) (simp_all add: still_runs_def)

section \<open>What is left to do\<close>

definition chores :: "shutdown \<Rightarrow> nat" where
  "chores d = work_left (sys d) + 3 * length (pending d) +
     (case joining d of None \<Rightarrow> 0 | Some t \<Rightarrow> if t \<in> set (gone d) then 1 else 2)"

lemma no_request_keeps:
  assumes "sys_step l y z" "sys_inv y" "still_runs g l"
  shows "modest_load y \<longrightarrow> modest_load z"
    and "spc y = Idle \<and> readyQ (sch y) = [] \<longrightarrow> spc z = Idle \<and> readyQ (sch z) = []"
proof -
  show "modest_load y \<longrightarrow> modest_load z"
    using modest_load_kept [OF assms(1,2)] still_runs_no_request [OF assms(3)] by blast
  from assms(1) show "spc y = Idle \<and> readyQ (sch y) = [] \<longrightarrow> spc z = Idle \<and> readyQ (sch z) = []"
  proof cases
    case (dispatch pr s')
    then show ?thesis by (auto elim!: dispatcherLoop_iter_Inr split: if_splits)
  next
    case (complete pr rq reply start stop now)
    have "inv_jobs y" using assms(2) by (simp add: sys_inv_def)
    from complete(2) running_complete_eq [OF this complete(3)] show ?thesis by simp
  next
    case (finish now p s')
    then show ?thesis by (auto simp: finishedLoop_iter_def bindR_eq_Inr Let_def)
  qed (use still_runs_no_request [OF assms(3)] in auto)
qed

section \<open>Runs of the shutdown\<close>

text \<open>The three threads are stopped in the order of the destructor.\<close>

definition in_order :: "shutdown \<Rightarrow> bool" where
  "in_order d \<longleftrightarrow> rev (gone d) @
     (case joining d of None \<Rightarrow> [] | Some t \<Rightarrow> if t \<in> set (gone d) then [] else [t]) @ pending d =
     loop_threads"

definition down_inv :: "shutdown \<Rightarrow> bool" where
  "down_inv d \<longleftrightarrow> sys_inv (sys d) \<and> in_order d"

lemma in_order_step:
  assumes "down_step l d e" "in_order d"
  shows "in_order e"
  using assms(1)
proof cases
  case (interrupt t ts)
  have eq: "rev (gone d) @ t # ts = loop_threads"
    using assms(2) interrupt by (simp add: in_order_def)
  have "distinct (rev (gone d) @ t # ts)" unfolding eq by (simp add: loop_threads_def)
  then have "t \<notin> set (gone d)" by simp
  with eq interrupt show ?thesis by (simp add: in_order_def)
qed (use assms(2) in \<open>auto simp: in_order_def split: option.splits if_splits\<close>)

lemma down_inv_step:
  assumes "down_step l d e" "down_inv d"
  shows "down_inv e"
proof -
  from assms(1) have "sys_inv (sys e)"
    by cases (use assms(2) sys_inv_step in \<open>auto simp: down_inv_def\<close>)
  then show ?thesis using in_order_step [OF assms(1)] assms(2) by (simp add: down_inv_def)
qed

lemma down_inv_start:
  "sys_inv y \<Longrightarrow> down_inv (Scheduler_destroy (y, loop_threads))"
  by (simp add: down_inv_def in_order_def Scheduler_destroy_def loop_threads_def)

lemma chores_decrease:
  assumes "down_step l d e" "down_inv d" "modest_load (sys d) \<and> l \<noteq> Work Spin \<or> readyQ (sch (sys d)) = []"
  shows "chores e < chores d"
  using assms(1)
proof cases
  case (work k y)
  have "k \<noteq> Spin"
  proof
    assume "k = Spin"
    with work(3) have "readyQ (sch (sys d)) \<noteq> []" by cases auto
    with work(1) \<open>k = Spin\<close> assms(3) show False by blast
  qed
  from work_left_decreases [OF work(3) _ still_runs_server [OF work(4) this]] assms(2,3) work(2)
  show ?thesis by (cases "joining d") (auto simp: chores_def down_inv_def)
qed (auto simp: chores_def)

lemma down_step_keeps:
  assumes "down_step l d e" "down_inv d"
  shows "(modest_load (sys d) \<longrightarrow> modest_load (sys e)) \<and> (drained (sys d) \<longrightarrow> drained (sys e))"
  using assms(1)
proof cases
  case (work l y)
  then show ?thesis using no_request_keeps [OF work(3) _ work(4)] assms(2)
    by (simp add: down_inv_def drained_def)
qed simp_all

text \<open>
  With predicted jobs a run makes no more steps than there was to do, busy waiting apart; with none
  left to schedule there is no busy waiting either.
\<close>

interpretation down_predicted: descent "\<lambda>l d e. l \<noteq> Work Spin \<and> down_step l d e"
  "\<lambda>d. down_inv d \<and> modest_load (sys d)" chores
  using down_inv_step down_step_keeps chores_decrease by unfold_locales blast+

interpretation down_drained: descent down_step "\<lambda>d. down_inv d \<and> drained (sys d)" chores
  using down_inv_step down_step_keeps chores_decrease by unfold_locales (auto simp: drained_def)

section \<open>Progress\<close>

text \<open>
  The destructor waits only for a thread with work: unless the scheduling thread is stuck,
  there is a step that is not the reply of a dispatcher.
\<close>

lemma down_progress:
  assumes "down_inv d" "\<not> destroyed d" "modest_load (sys d) \<or> drained (sys d)"
    and "\<not> (joining d = Some Sched_Thread \<and> gone d = [] \<and> sched_stuck (sys d))"
  shows "\<exists>l e. down_step l d e \<and> (\<forall>k. l = Work k \<longrightarrow> \<not> is_complete k \<and> k \<noteq> Spin)"
proof (cases "joining d")
  case None
  then obtain t ts where "pending d = t # ts" using assms(2) by (auto simp: destroyed_def neq_Nil_conv)
  from interrupt [OF None this] show ?thesis by blast
next
  case (Some t)
  show ?thesis
  proof (cases "t \<in> set (gone d) \<or> at_wait t (sys d)")
    case True
    then show ?thesis using leave [OF Some] join [OF Some] by blast
  next
    case False
    have "\<exists>l z. sys_step l (sys d) z \<and> thread_of l = Some t \<and> l \<noteq> Spin"
    proof (cases t)
      case Sched_Thread
      then have "gone d = []" using assms(1) False Some
        by (cases "gone d" rule: rev_cases) (auto simp: down_inv_def in_order_def loop_threads_def)
      then show ?thesis using sched_progress [of "sys d"] assms Some False Sched_Thread
        by (auto simp: down_inv_def drained_def)
    next
      case Dispatch_Thread
      then show ?thesis using dispatch_enabled [of "sys d"] False by fastforce
    next
      case Finished_Thread
      then show ?thesis using finish_enabled [of "sys d"] False by fastforce
    qed
    then obtain l z where l: "sys_step l (sys d) z" "thread_of l = Some t" "l \<noteq> Spin" by blast
    then have "still_runs (gone d) l" "\<not> is_complete l"
      using False by (auto simp: still_runs_def elim: is_complete.elims)
    with work [OF l(1)] l(3) show ?thesis by blast
  qed
qed

text \<open>Busy waiting changes nothing and can be taken out.\<close>

lemma down_spin_same: "down_step (Work Spin) d e \<Longrightarrow> e = d"
  by (erule down_step.cases) (auto dest: spin_same)

lemma down_unspun:
  "down_run d ls e \<Longrightarrow> runs (\<lambda>l d e. l \<noteq> Work Spin \<and> down_step l d e) d (filter (\<lambda>l. l \<noteq> Work Spin) ls) e"
  by (rule runs_unstutter) (auto dest: down_spin_same)

text \<open>The system part of a shutdown is a run of the scheduler.\<close>

lemma down_run_sys:
  assumes "down_run d ls e"
  shows "\<exists>ks. sys_run (sys d) ks (sys e)"
  using assms
proof (induction rule: runs.induct)
  case (snoc d ls e l f)
  then obtain ks where "sys_run (sys d) ks (sys e)" by blast
  with snoc.hyps(2) show ?case by cases (auto intro: sys_run_snoc)
qed (auto intro: sys_run_nil)

section \<open>Where the shutdown gets stuck\<close>

text \<open>No step but busy waiting: the pool has no resource left, or the decision lost one of its own.\<close>

lemma stuck_cause:
  assumes "down_inv d" "modest_load (sys d)" "all_served (sys d)" "\<not> destroyed d"
    and "\<forall>l e. l \<noteq> Work Spin \<longrightarrow> \<not> down_step l d e"
  shows "out_of_resources (sys d) \<or> lost_resource (sys d)"
proof -
  have j: "gone d = []" "sched_stuck (sys d)"
    using down_progress [OF assms(1,4)] assms(2,5) by fastforce+
  have "\<not> sys_step l (sys d) z" if "server_step l" for l z
    using work [of l d z] assms(5) j(1) that by (cases "thread_of l") (auto simp: still_runs_def server_step_def)
  with server_idle [of "sys d"] assms(1-3) j(2) drained_not_stuck show ?thesis by (auto simp: down_inv_def)
qed

text \<open>Jobs nobody can schedule keep the scheduling thread away from its wait.\<close>

definition unschedulable :: "system \<Rightarrow> bool" where
  "unschedulable y \<longleftrightarrow> spc y = Idle \<and> readyQ (sch y) \<noteq> [] \<and> unpredicted (sch y) \<and>
     resPool (sch y) \<noteq> [] \<and> length (resPool (sch y)) \<le> 4 \<and> runQ (sch y) = [] \<and> threads y = []"

lemma unschedulable_decision:
  assumes "sys_inv y" "unschedulable y"
  obtains a pool where "call_alg (algVec (sch y) ! MODE_MANAGED) (sch y) = Inr (a, (sch y)\<lparr>resPool := pool\<rparr>)"
    "noJobs a = 0" "mset pool = mset (resPool (sch y))"
proof -
  have "last (butlast (algVec (sch y))) = Priority_alg"
    using assms(1) by (simp add: sys_inv_def inv_config_def)
  with unpredicted_starves [of "sch y"] sys_inv_ready_to_schedule [OF assms(1)] assms(2)
    sys_inv_managed [OF assms(1)] that show thesis
    by (auto simp: unschedulable_def)
qed

lemma unschedulable_pool:
  assumes "unschedulable y" "mset pool = mset (resPool (sch y))"
  shows "unschedulable (y\<lparr>sch := count_jobs 0 ((sch y)\<lparr>resPool := pool\<rparr>), spc := Idle\<rparr>)"
  using assms(1) mset_eq_length [OF assms(2)]
  by (auto simp: unschedulable_def unpredicted_def count_jobs_def)

lemma unschedulable_step:
  assumes "sys_step l y z" "sys_inv y" "unschedulable y" "still_runs g l"
  shows "unschedulable z"
  using assms(1)
proof cases
  case (decide a s' t0)
  obtain b pool where "call_alg (algVec (sch y) ! MODE_MANAGED) (sch y) = Inr (b, (sch y)\<lparr>resPool := pool\<rparr>)"
    and b: "noJobs b = 0" "mset pool = mset (resPool (sch y))"
    using unschedulable_decision [OF assms(2,3)] .
  with decide(7) have "a = b" "s' = (sch y)\<lparr>resPool := pool\<rparr>" by simp_all
  with decide(2) b show ?thesis using unschedulable_pool [OF assms(3) b(2)] by simp
next
  case (dispatch pr s')
  then show ?thesis using assms(3)
    by (auto simp: unschedulable_def dispatcherLoop_iter_def wait_pop_front_def)
next
  case (finish now p s')
  then show ?thesis using assms(3)
    by (auto simp: unschedulable_def unpredicted_def finishedLoop_iter_def bindR_eq_Inr Let_def)
qed (use assms(3) still_runs_no_request [OF assms(4)] in \<open>auto simp: unschedulable_def\<close>)

interpretation spinning: preserved down_step "\<lambda>d. down_inv d \<and> unschedulable (sys d) \<and> gone d = []"
proof unfold_locales
  fix l d e
  assume l: "down_step l d e" and d: "down_inv d \<and> unschedulable (sys d) \<and> gone d = []"
  have e: "down_inv e" using l d by (blast intro: down_inv_step)
  from l show "down_inv e \<and> unschedulable (sys e) \<and> gone e = []"
  proof cases
    case (work l y)
    then show ?thesis using e unschedulable_step [OF work(3) _ _ work(4)] d by (simp add: down_inv_def)
  next
    case (leave t)
    then have "t = Sched_Thread" using d by (auto simp: down_inv_def in_order_def loop_threads_def)
    with leave d show ?thesis by (simp add: unschedulable_def)
  qed (use e d in auto)
qed

lemma unschedulable_spins:
  assumes "down_inv d" "unschedulable (sys d)" "gone d = []"
  shows "\<not> destroyed d \<and> (\<exists>e. down_step (Work (Decide t)) d e)"
proof
  show "\<not> destroyed d" using assms(1,3) by (cases "joining d") (simp_all add: down_inv_def in_order_def destroyed_def loop_threads_def)
  have inv: "sys_inv (sys d)" using assms(1) by (simp add: down_inv_def)
  obtain a s' where a: "call_alg (algVec (sch (sys d)) ! MODE_MANAGED) (sch (sys d)) = Inr (a, s')"
    using unschedulable_decision [OF inv assms(2)] by blast
  have "MODE_MANAGED < length (algVec (sch (sys d)))"
    using inv by (simp add: sys_inv_def inv_config_def MODE_MANAGED_def)
  from decide [OF _ _ _ this a] assms(2) have "\<exists>z. sys_step (Decide t) (sys d) z"
    by (fastforce simp: unschedulable_def)
  then show "\<exists>e. down_step (Work (Decide t)) d e"
    using work [of "Decide t" d] assms(3) by (auto simp: still_runs_def)
qed

section \<open>Job threads outlive the scheduler\<close>

lemma gone_after:
  assumes "down_inv d" "destroyed d"
  shows "t \<in> set (gone d)"
proof -
  have "rev (gone d) = loop_threads" using assms by (simp add: down_inv_def in_order_def destroyed_def)
  then have "set (gone d) = set loop_threads" by (metis set_rev)
  then show ?thesis by (cases t) (simp_all add: loop_threads_def)
qed

lemma destroyed_step:
  assumes "down_step l d e" "down_inv d" "destroyed d"
  shows "destroyed e \<and> completed (sys e) = completed (sys d) \<and> handler (sys e) = handler (sys d)"
  using assms(1)
proof cases
  case (work l y)
  have "is_complete l" using work(4) gone_after [OF assms(2,3)] by (auto simp: still_runs_def split: option.splits)
  with work(3) have "completed y = completed (sys d) \<and> handler y = handler (sys d)" by cases simp_all
  with work(2) assms(3) show ?thesis by (simp add: destroyed_def)
qed (use assms(3) in \<open>auto simp: destroyed_def\<close>)

interpretation silent: preserved down_step
  "\<lambda>d. down_inv d \<and> destroyed d \<and> completed (sys d) = c \<and> handler (sys d) = h" for c h
  by unfold_locales (auto dest: down_inv_step destroyed_step)

definition unfinished :: "system \<Rightarrow> jref set" where
  "unfinished y = fst ` (set (runQ (sch y)) \<union> set (threads y))"

lemma unfinished_step:
  assumes "down_step l d e" "down_inv d" "\<forall>k. l = Work k \<longrightarrow> \<not> is_complete k"
  shows "unfinished (sys d) \<subseteq> unfinished (sys e)"
  using assms(1)
proof cases
  case (work k y)
  have inv: "sys_inv (sys d)" using assms(2) by (simp add: down_inv_def)
  from work(3) have "unfinished (sys d) \<subseteq> unfinished y"
  proof cases
    case (decide a s' t0)
    obtain pool where "s' = (sch (sys d))\<lparr>resPool := pool\<rparr>"
      using sys_inv_decision [OF inv decide(4,5,7)] .
    with decide(2) show ?thesis by (auto simp: unfinished_def count_jobs_def)
  next
    case (resize t0 a s')
    have "runQ s' = runQ (sch (sys d))" using resize(4) by (cases rule: updateResourcePool_cases) simp_all
    with resize(2) show ?thesis by (simp add: unfinished_def)
  next
    case (service t0 a t1 s')
    have "inv_jobs (sys d)" "pending_ok (sch (sys d)) a"
      using inv service(3) by (simp_all add: sys_inv_def inv_pending_def)
    from serviced [OF this service(4)] service(2) show ?thesis
      by (auto simp: unfinished_def count_jobs_def count_schedule_def)
  next
    case (dispatch pr s')
    obtain p rs q where "runQ (sch (sys d)) = (p, rs) # q"
      and "if started (tinfo (jobs (sch (sys d)) p)) then pr = None \<and> s' = (sch (sys d))\<lparr>runQ := q\<rparr>
        else pr = Some (p, rs) \<and> s' = update_info p (\<lambda>i. i\<lparr>started := True\<rparr>) ((sch (sys d))\<lparr>runQ := q\<rparr>)"
      using dispatcherLoop_iter_Inr [OF dispatch(3)] .
    moreover from this have "\<not> started (tinfo (jobs (sch (sys d)) p))"
      using inv by (auto simp: sys_inv_def inv_flags_def inv_jobs_def job_places_def)
    ultimately show ?thesis using dispatch(2) by (auto simp: unfinished_def)
  next
    case (finish now p s')
    then show ?thesis by (auto simp: unfinished_def finishedLoop_iter_def bindR_eq_Inr Let_def)
  qed (use work assms(3) still_runs_no_request [OF work(4)] in \<open>auto simp: unfinished_def\<close>)
  with work(2) show ?thesis by simp
qed auto

text \<open>A drained scheduler can be destroyed without any of its job threads making a step.\<close>

interpretation abandon: descent "\<lambda>l d e. down_step l d e \<and> (\<forall>k. l = Work k \<longrightarrow> \<not> is_complete k)"
  "\<lambda>d. down_inv d \<and> drained (sys d) \<and> U \<subseteq> unfinished (sys d)" chores for U
  using down_drained.keeps down_drained.lowers unfinished_step by unfold_locales blast+

lemma destroyed_without_jobs:
  assumes "down_inv d" "drained (sys d)"
  shows "\<exists>ls e. down_run d ls e \<and> destroyed e \<and> down_inv e \<and> unfinished (sys d) \<subseteq> unfinished (sys e)"
proof -
  obtain ls e where e: "runs (\<lambda>l d e. down_step l d e \<and> (\<forall>k. l = Work k \<longrightarrow> \<not> is_complete k)) d ls e"
    "down_inv e" "drained (sys e)" "unfinished (sys d) \<subseteq> unfinished (sys e)"
    and stop: "\<forall>l f. \<not> (down_step l e f \<and> (\<forall>k. l = Work k \<longrightarrow> \<not> is_complete k))"
    using abandon.halts [of d "unfinished (sys d)"] assms by blast
  have "destroyed e" using down_progress [OF e(2)] e(3) drained_not_stuck stop by blast
  with e(2,4) runs_mono [OF e(1), of down_step] show ?thesis by blast
qed

end
