(* ===== verification/Job_Lifecycle.thy ===== *)
theory Job_Lifecycle
  imports Scheduler_Guarantees
begin

text \<open>
  The life of a job as an abstract machine, and the proof that the threads of the scheduler
  implement it: a job is absent, ready, queued to run, running, done and completed, in this
  order and without a way back. The locale \<open>simulation\<close> of \<open>Transition_Runs\<close> is interpreted on
  the scheduler with the phase of a job as the abstraction.
\<close>

section \<open>The abstract machine\<close>

datatype phase = Absent | Ready | Queued | Running | Done | Completed

text \<open>
  A job arrives; the scheduling thread queues a set of ready jobs at once; a queued job is
  started, a running one ends, a finished one is handed back.
\<close>

inductive life_step :: "(jref \<Rightarrow> phase) \<Rightarrow> (jref \<Rightarrow> phase) \<Rightarrow> bool" where
  stutter: "life_step f f"
| arrive: "f p = Absent \<Longrightarrow> life_step f (f(p := Ready))"
| select: "\<forall>p\<in>P. f p = Ready \<Longrightarrow> life_step f (\<lambda>p. if p \<in> P then Queued else f p)"
| start: "f p = Queued \<Longrightarrow> life_step f (f(p := Running))"
| leave: "f p = Running \<Longrightarrow> life_step f (f(p := Done))"
| hand_back: "f p = Done \<Longrightarrow> life_step f (f(p := Completed))"

fun rank :: "phase \<Rightarrow> nat" where
  "rank Absent = 0"
| "rank Ready = 1"
| "rank Queued = 2"
| "rank Running = 3"
| "rank Done = 4"
| "rank Completed = 5"

text \<open>Phases are ordered by how far a job has come.\<close>

instantiation phase :: linorder
begin

definition less_eq_phase :: "phase \<Rightarrow> phase \<Rightarrow> bool" where
  "less_eq_phase a b \<longleftrightarrow> rank a \<le> rank b"

definition less_phase :: "phase \<Rightarrow> phase \<Rightarrow> bool" where
  "less_phase a b \<longleftrightarrow> rank a < rank b"

instance
proof
  fix a b :: phase
  assume "a \<le> b" "b \<le> a"
  then show "a = b" by (cases a; cases b) (simp_all add: less_eq_phase_def)
qed (auto simp: less_eq_phase_def less_phase_def)

end

text \<open>The phase of a job in a state of the scheduler.\<close>

definition phase_of :: "system \<Rightarrow> jref \<Rightarrow> phase" where
  "phase_of y p =
     (if p \<in> set (readyQ (sch y)) then Ready
      else if p \<in> set (map fst (runQ (sch y))) then Queued
      else if p \<in> set (map fst (threads y)) then Running
      else if p \<in> set (finishedQ (sch y)) then Done
      else if p \<in> set (completed y) then Completed
      else Absent)"

text \<open>The number of schedules a sequence of steps carried out.\<close>

fun is_service :: "label \<Rightarrow> bool" where
  "is_service (Service t) = True"
| "is_service _ = False"

lemma life_step_forward: "life_step f g \<Longrightarrow> f p \<le> g p \<and> rank (g p) \<le> Suc (rank (f p))"
  by (induction rule: life_step.induct) (auto simp: less_eq_phase_def)

lemma life_steps_forward: "life_step\<^sup>*\<^sup>* f g \<Longrightarrow> f p \<le> g p"
  by (induction rule: rtranclp_induct) (auto dest: life_step_forward intro: order_trans)

section \<open>Each step of the scheduler is a step of the machine\<close>

lemma sys_inv_places:
  assumes "sys_inv y"
  shows "distinct (readyQ (sch y) @ map fst (runQ (sch y)) @ map fst (threads y) @
    finishedQ (sch y) @ completed y)"
  using assms by (simp add: sys_inv_def inv_jobs_def job_places_def)

lemma phase_same:
  assumes "readyQ (sch y') = readyQ (sch y)" "runQ (sch y') = runQ (sch y)" "threads y' = threads y"
    "finishedQ (sch y') = finishedQ (sch y)" "completed y' = completed y"
  shows "life_step (phase_of y) (phase_of y')"
proof -
  have "phase_of y' = phase_of y" using assms by (simp add: phase_of_def fun_eq_iff)
  then show ?thesis by (simp add: life_step.stutter)
qed

lemma phase_submit:
  assumes "sys_inv y" "concurrentHandler_submit m now (sch y) = (p, s')" "sch y' = s'"
    "threads y' = threads y" "completed y' = completed y"
  shows "life_step (phase_of y) (phase_of y')"
proof -
  have new: "nextRef (sch y) \<notin> set (job_places y)" using assms(1) by (simp add: sys_inv_def inv_jobs_def)
  have "readyQ s' = nextRef (sch y) # readyQ (sch y)" "runQ s' = runQ (sch y)" "finishedQ s' = finishedQ (sch y)"
    using assms(2) by (auto simp: concurrentHandler_submit_eq)
  then have "phase_of y' = (phase_of y)(nextRef (sch y) := Ready)"
    using assms(3-5) by (simp add: phase_of_def fun_eq_iff)
  moreover have "phase_of y (nextRef (sch y)) = Absent"
    using new by (simp add: phase_of_def job_places_def)
  ultimately show ?thesis by (simp add: life_step.arrive)
qed

lemma phase_service:
  assumes "sys_inv y" "spc y = Resized t0 a" "serviceAllocations a t1 (sch y) = Inr s'"
    "readyQ (sch y') = readyQ s'" "runQ (sch y') = runQ s'" "finishedQ (sch y') = finishedQ s'"
    "threads y' = threads y" "completed y' = completed y"
  shows "life_step (phase_of y) (phase_of y')"
proof -
  let ?P = "set (map fst (ajobs a))"
  have inv: "inv_jobs y" "pending_ok (sch y) a" using assms(1,2) by (simp_all add: sys_inv_def inv_pending_def)
  have sub: "?P \<subseteq> set (readyQ (sch y))" using inv(2) by (simp add: pending_ok_def)
  have "readyQ s' = filter (\<lambda>q. q \<notin> ?P) (readyQ (sch y)) \<and> runQ s' = rev (ajobs a) @ runQ (sch y) \<and>
      finishedQ s' = finishedQ (sch y)"
    using serviced [OF inv assms(3)] by simp
  then have "phase_of y' = (\<lambda>p. if p \<in> ?P then Queued else phase_of y p)"
    using sub assms(4-8) by (auto simp: phase_of_def fun_eq_iff)
  moreover have "\<forall>p\<in>?P. phase_of y p = Ready" using sub by (auto simp: phase_of_def)
  ultimately show ?thesis by (simp only: life_step.select)
qed

lemma phase_dispatch:
  assumes "sys_inv y" "dispatcherLoop_iter (sch y) = Inr (pr, s')" "sch y' = s'" "completed y' = completed y"
    "threads y' = (case pr of None \<Rightarrow> threads y | Some t \<Rightarrow> threads y @ [t])"
  shows "life_step (phase_of y) (phase_of y')"
proof -
  obtain p rs q where q: "runQ (sch y) = (p, rs) # q"
    and st: "if started (tinfo (jobs (sch y) p)) then pr = None \<and> s' = (sch y)\<lparr>runQ := q\<rparr>
      else pr = Some (p, rs) \<and> s' = update_info p (\<lambda>i. i\<lparr>started := True\<rparr>) ((sch y)\<lparr>runQ := q\<rparr>)"
    using dispatcherLoop_iter_Inr [OF assms(2)] by blast
  note d = sys_inv_places [OF assms(1)]
  have "p < nextRef (sch y)" using assms(1) q by (auto simp: sys_inv_def inv_jobs_def job_places_def)
  then have "\<not> started (tinfo (jobs (sch y) p))" using assms(1) q by (simp add: sys_inv_def inv_flags_def)
  with st have "pr = Some (p, rs)" "s' = update_info p (\<lambda>i. i\<lparr>started := True\<rparr>) ((sch y)\<lparr>runQ := q\<rparr>)"
    by simp_all
  then have "phase_of y' = (phase_of y)(p := Running)"
    using d q assms(3-5) by (auto simp: phase_of_def fun_eq_iff)
  moreover have "phase_of y p = Queued" using d q by (auto simp: phase_of_def)
  ultimately show ?thesis by (simp add: life_step.start)
qed

lemma phase_complete:
  assumes "sys_inv y" "pr \<in> set (threads y)" "completed y' = completed y"
    "sch y' = runJob_complete pr reply start stop now (sch y)" "threads y' = remove1 pr (threads y)"
  shows "life_step (phase_of y) (phase_of y')"
proof -
  let ?p = "fst pr"
  note d = sys_inv_places [OF assms(1)]
  have "?p \<in> set (map fst (threads y))" using assms(2) by simp
  then have p: "?p \<notin> set (readyQ (sch y))" "?p \<notin> set (map fst (runQ (sch y)))" "?p \<notin> set (finishedQ (sch y))"
    "?p \<notin> set (completed y)" using d by auto
  have "mset (map fst (threads y)) = add_mset ?p (mset (map fst (remove1 pr (threads y))))"
    using mset_map_remove1 [OF assms(2)] .
  moreover have "distinct (map fst (threads y))" using d by simp
  ultimately have th: "set (map fst (remove1 pr (threads y))) = set (map fst (threads y)) - {?p}"
    by (metis distinct.simps(2) mset.simps(2) mset_eq_imp_distinct_iff mset_eq_setD list.simps(15)
        Diff_insert_absorb)
  have same: "readyQ (sch y') = readyQ (sch y)" "runQ (sch y') = runQ (sch y)"
    "finishedQ (sch y') = ?p # finishedQ (sch y)"
    using running_complete_eq [OF _ assms(2), of reply start stop now] assms(1,4)
    by (simp_all add: sys_inv_def)
  have "phase_of y' = (phase_of y)(?p := Done)"
    using p th same assms(3,5) by (auto simp: phase_of_def fun_eq_iff)
  moreover have "phase_of y ?p = Running" using p assms(2) by (auto simp: phase_of_def)
  ultimately show ?thesis by (simp add: life_step.leave)
qed

lemma phase_finish:
  assumes "sys_inv y" "finishedLoop_iter now (sch y) = Inr (p, s')" "sch y' = s'"
    "threads y' = threads y" "completed y' = completed y @ [p]"
  shows "life_step (phase_of y) (phase_of y')"
proof -
  note d = sys_inv_places [OF assms(1)]
  obtain q where q: "finishedQ (sch y) = p # q" "finishedQ s' = q" "readyQ s' = readyQ (sch y)"
    "runQ s' = runQ (sch y)"
    using assms(2) by (auto simp: finishedLoop_iter_def bindR_eq_Inr wait_pop_front_Inr Let_def)
  have "phase_of y' = (phase_of y)(p := Completed)"
    using d q assms(3-5) by (auto simp: phase_of_def fun_eq_iff)
  moreover have "phase_of y p = Done" using d q by (auto simp: phase_of_def)
  ultimately show ?thesis by (simp add: life_step.hand_back)
qed

lemma sys_step_life:
  assumes "sys_step l y y'" "sys_inv y"
  shows "life_step (phase_of y) (phase_of y')"
  using assms(1)
proof cases
  case (submit m now p s')
  then show ?thesis using phase_submit [OF assms(2)] by simp
next
  case (decide a s' t0)
  obtain pool where "s' = (sch y)\<lparr>resPool := pool\<rparr>"
    using sys_inv_decision [OF assms(2) decide(4,5,7)] .
  with decide(2) show ?thesis by (intro phase_same) (simp_all add: count_jobs_def)
next
  case (resize t0 a s')
  from resize(4) resize(2) show ?thesis
    by (cases rule: updateResourcePool_cases) (auto intro!: phase_same)
next
  case (service t0 a t1 s')
  then show ?thesis
    by (intro phase_service [OF assms(2)]) (auto simp: count_jobs_def count_schedule_def)
next
  case (dispatch pr s')
  then show ?thesis by (intro phase_dispatch [OF assms(2)]) auto
next
  case (complete pr rq reply start stop now)
  then show ?thesis by (intro phase_complete [OF assms(2)]) auto
next
  case (finish now p s')
  then show ?thesis by (intro phase_finish [OF assms(2)]) auto
qed (auto intro!: phase_same)

interpretation life: simulation sys_step sys_inv phase_of life_step
  by unfold_locales (auto intro: sys_inv_step sys_step_life)

section \<open>The schedules carried out so far\<close>

lemma stats_frame [frame_simps]:
  "stats (update_job p f s) = stats s" "stats (update_info p g s) = stats s"
  "stats (provisionResource s) = stats s" "stats (addToRunQ j t s) = stats s"
  by (simp_all add: update_job_def update_info_def provisionResource_def addResource_new_def addToRunQ_def)

lemma serviceAllocations_loop_stats: "serviceAllocations_loop ps t s = Inr s' \<Longrightarrow> stats s' = stats s"
proof (induction ps arbitrary: s)
  case (Cons j ps)
  obtain q where "removeJobFromReadyQ j s = s\<lparr>readyQ := q\<rparr>" using removeJobFromReadyQ_frame by blast
  with Cons show ?case by (auto simp: claimResources_def bindR_eq_Inr frame_simps)
qed simp

lemma updateStatistics_schedules: "numSchedules (updateStatistics j now st) = numSchedules st"
  by (simp add: updateStatistics_def updateMeanWaitTime_def updateMeanServiceTime_def updateLatency_def
      updateThroughput_def updateUtilization_def Let_def)

lemma sys_step_schedules:
  assumes "sys_step l y y'" "sys_inv y"
  shows "numSchedules (stats (sch y')) = numSchedules (stats (sch y)) + (if is_service l then 1 else 0)"
  using assms(1)
proof cases
  case (submit m now p s')
  then show ?thesis by (auto simp: concurrentHandler_submit_eq)
next
  case (decide a s' t0)
  obtain pool where "s' = (sch y)\<lparr>resPool := pool\<rparr>"
    using sys_inv_decision [OF assms(2) decide(4,5,7)] .
  with decide(1,2) show ?thesis by (simp add: count_jobs_def)
next
  case (resize t0 a s')
  from resize(4) resize(1,2) show ?thesis
    by (cases rule: updateResourcePool_cases) (auto simp: frame_simps)
next
  case (service t0 a t1 s')
  then show ?thesis using serviceAllocations_loop_stats [of "ajobs a" t1 "sch y" s']
    by (simp add: serviceAllocations_def count_jobs_def count_schedule_def)
next
  case (dispatch pr s')
  then show ?thesis by (auto simp: frame_simps elim!: dispatcherLoop_iter_Inr split: if_splits)
next
  case (complete pr rq reply start stop now)
  then show ?thesis using running_complete_eq [of y pr reply start stop now] assms(2)
    by (simp add: sys_inv_def frame_simps)
next
  case (finish now p s')
  then show ?thesis by (auto simp: finishedLoop_iter_def bindR_eq_Inr updateStatistics_schedules frame_simps Let_def)
qed auto

lemma sys_run_schedules:
  assumes "sys_run y ls z" "sys_inv y"
  shows "numSchedules (stats (sch z)) = numSchedules (stats (sch y)) + length (filter is_service ls)"
  using assms by (induction rule: runs.induct) (auto simp: sys_step_schedules dest: whole.along)

end
