(* ===== verification/Tcp_Server.thy ===== *)
theory Tcp_Server
  imports Message
begin

text \<open>
  The server side of a connection (\<open>src/common/MultiThreadedTCPServer.cpp\<close>). What arrives
  on a socket is a list of chunks, the results of successive \<open>read_some\<close> calls; \<open>read\<close>
  takes an exact number of bytes across chunks. \<open>handle_request\<close> is the virtual method of
  the class: an argument \<open>handle\<close> on the server's own state. The listening socket, the
  thread pool and signals are in \<open>Server_Pool\<close>.
\<close>

section \<open>Reading\<close>

text \<open>A read that cannot be completed waits for the peer, or throws when the peer has closed.\<close>

definition no_bytes :: "bool \<Rightarrow> failure" where
  "no_bytes closed = (if closed then System_Error else Would_Block)"

function read_chunks :: "nat \<Rightarrow> bool \<Rightarrow> byte list list \<Rightarrow> (byte list \<times> byte list list) result" where
  "read_chunks n closed cs =
     (if n = 0 then Inr ([], cs)
      else case cs of
             [] \<Rightarrow> Inl (no_bytes closed)
           | c # cs' \<Rightarrow>
               if length c \<le> n
               then bindR (read_chunks (n - length c) closed cs') (\<lambda>(b, r). Inr (c @ b, r))
               else Inr (take n c, drop n c # cs'))"
  by pat_completeness auto
termination by (relation "measure (\<lambda>(n, closed, cs). length cs)") auto

declare read_chunks.simps [simp del]

section \<open>A connection\<close>

text \<open>
  \<open>buffer\<close> is the fixed array of the connection; \<open>incoming\<close> what the peer still sends,
  \<open>peer_closed\<close> whether it closes afterwards; \<open>outgoing\<close> the bytes written so far.
\<close>

record 's conn =
  buffer :: "byte list"
  incoming :: "byte list list"
  peer_closed :: bool
  outgoing :: "byte list"
  server :: 's

text \<open>\<open>read_some\<close> into the buffer: the first bytes are overwritten, the rest stays.\<close>

definition overlay :: "byte list \<Rightarrow> byte list \<Rightarrow> byte list" where
  "overlay c buf = take (length buf) c @ drop (length c) buf"

definition read_some :: "'s conn \<Rightarrow> (nat \<times> 's conn) result" where
  "read_some c = (case incoming c of
       [] \<Rightarrow> Inl (no_bytes (peer_closed c))
     | ch # rest \<Rightarrow>
         (let n = length (buffer c)
          in Inr (min (length ch) n, c\<lparr>buffer := overlay ch (buffer c),
               incoming := (if length ch \<le> n then rest else drop n ch # rest)\<rparr>)))"

definition write_msg :: "msg \<Rightarrow> byte list result" where
  "write_msg m =
     (if unat (totalBytes m) \<le> length (msg_bytes m)
      then Inr (take (unat (totalBytes m)) (msg_bytes m)) else Inl Out_Of_Bounds)"

text \<open>
  Lines 96-119: find the full request. \<open>bt\<close> is \<open>bytes_transferred\<close>, the size of the first
  read. The comparison is made in \<open>size_t\<close> after sign extension of the \<open>int\<close>. The exception of
  a read that cannot be completed leaves \<open>handle_read\<close>.
\<close>

definition gather_request :: "nat \<Rightarrow> 's conn \<Rightarrow> (msg \<times> 's conn) result" where
  "gather_request bt c =
     bindR (bytes_msg (buffer c)) (\<lambda>request.
       let expectedBytes = (ucast (totalBytes request) :: i32);
           expected = unat (scast expectedBytes :: size_t)
       in if bt < expected
          then (let size = sint (ucast (of_nat expected - of_nat bt :: size_t) :: i32)
                in if size < 0 \<or> 2 ^ 63 \<le> expected then Inl Null_Deref
                   else bindR (read_chunks (nat size) (peer_closed c) (incoming c)) (\<lambda>(b, rest).
                     bindR (bytes_msg (take bt (buffer c) @ b)) (\<lambda>full.
                       Inr (full, c\<lparr>incoming := rest\<rparr>))))
          else Inr (request, c))"

text \<open>
  Lines 127-137: write the reply, then read again into the buffer. A failed read is caught
  and logged, and leaves the buffer as it is.
\<close>

definition answer :: "msg option \<Rightarrow> 's conn \<Rightarrow> 's conn result" where
  "answer reply c = (case reply of
       None \<Rightarrow> Inr c
     | Some r \<Rightarrow> bindR (write_msg r) (\<lambda>bs.
         let c' = c\<lparr>outgoing := outgoing c @ bs\<rparr>
         in case read_some c' of
              Inl e \<Rightarrow> if e = Would_Block then Inl e else Inr c'
            | Inr (n, c'') \<Rightarrow> Inr c''))"

definition conn_iter ::
  "(msg \<Rightarrow> 's \<Rightarrow> (msg option \<times> 's) result) \<Rightarrow> nat \<Rightarrow> 's conn \<Rightarrow> 's conn result" where
  "conn_iter handle bt c =
     bindR (gather_request bt c) (\<lambda>(full, c1).
       bindR (handle full (server c1)) (\<lambda>(reply, sv).
         answer reply (c1\<lparr>server := sv\<rparr>)))"

text \<open>The loop condition and the end of \<open>handle_read\<close>: a terminate request raises SIGINT.\<close>

datatype conn_end = Closed | Terminated

definition conn_status :: "'s conn \<Rightarrow> conn_end option result" where
  "conn_status c = bindR (bytes_msg (buffer c)) (\<lambda>m.
     Inr (if msgId m = MSG_DONE then Some Closed
          else if msgId m = MSG_TERM then Some Terminated else None))"

text \<open>
  \<open>handle_read\<close> with the number of iterations bounded by the first argument; \<open>None\<close> when
  they do not suffice.
\<close>

fun handle_read :: "nat \<Rightarrow> (msg \<Rightarrow> 's \<Rightarrow> (msg option \<times> 's) result) \<Rightarrow> nat \<Rightarrow> 's conn \<Rightarrow>
    (conn_end \<times> 's conn) option result" where
  "handle_read 0 handle bt c = Inr None"
| "handle_read (Suc k) handle bt c =
     bindR (conn_iter handle bt c) (\<lambda>c'. bindR (conn_status c') (\<lambda>e. case e of
         Some e' \<Rightarrow> Inr (Some (e', c'))
       | None \<Rightarrow> handle_read k handle bt c'))"

text \<open>
  \<open>connection::start\<close>: the first \<open>read_some\<close> gives \<open>bytes_transferred\<close>, which is 0 when the peer
  has closed; \<open>handle_read\<close> does not look at the error code.
\<close>

definition first_read :: "'s conn \<Rightarrow> (nat \<times> 's conn) option" where
  "first_read c = (case read_some c of
       Inl e \<Rightarrow> if e = Would_Block then None else Some (0, c)
     | Inr r \<Rightarrow> Some r)"

definition connection_start ::
  "nat \<Rightarrow> (msg \<Rightarrow> 's \<Rightarrow> (msg option \<times> 's) result) \<Rightarrow> 's conn \<Rightarrow> (conn_end \<times> 's conn) option result" where
  "connection_start k handle c = (case first_read c of
       None \<Rightarrow> Inl Would_Block
     | Some (bt, c') \<Rightarrow> handle_read k handle bt c')"

section \<open>Facts about reading\<close>

lemma length_overlay [simp]: "length (overlay c buf) = length buf"
  by (simp add: overlay_def)

lemma read_chunks_exact:
  "[] \<notin> set cs \<Longrightarrow> read_chunks (length (concat cs)) closed (cs @ later) = Inr (concat cs, later)"
proof (induction cs)
  case Nil
  show ?case by (simp add: read_chunks.simps)
next
  case (Cons c cs)
  then have "length (concat (c # cs)) \<noteq> 0" by auto
  with Cons show ?case
    by (subst read_chunks.simps) simp
qed

lemma read_chunks_short:
  "length (concat cs) < n \<Longrightarrow> read_chunks n closed cs = Inl (no_bytes closed)"
proof (induction n closed cs rule: read_chunks.induct)
  case (1 n closed cs)
  then have n: "n \<noteq> 0" by simp
  show ?case
  proof (cases cs)
    case Nil
    with n show ?thesis by (simp add: read_chunks.simps)
  next
    case (Cons c cs')
    with "1.prems" have "length c \<le> n" "length (concat cs') < n - length c" by auto
    with "1.IH" [OF n Cons] Cons n show ?thesis by (simp add: read_chunks.simps [of n closed "c # cs'"])
  qed
qed

lemma read_some_simps:
  "incoming c = [] \<Longrightarrow> read_some c = Inl (no_bytes (peer_closed c))"
  "incoming c = ch # rest \<Longrightarrow> length ch \<le> length (buffer c) \<Longrightarrow>
     read_some c = Inr (length ch, c\<lparr>buffer := overlay ch (buffer c), incoming := rest\<rparr>)"
  by (simp_all add: read_some_def)

lemma read_some_frame: "read_some c = Inr (n, c') \<Longrightarrow> server c' = server c \<and> outgoing c' = outgoing c"
  by (auto simp: read_some_def Let_def split: list.splits)

lemma first_read_server: "first_read c = Some (n, c') \<Longrightarrow> server c' = server c"
  by (auto simp: first_read_def split: sum.splits if_splits dest: read_some_frame)

lemma write_wf_msg: "wf_msg m \<Longrightarrow> write_msg m = Inr (msg_bytes m)"
  by (simp add: write_msg_def wf_msg_def length_msg_bytes)

section \<open>The fields of a buffer that starts with a message\<close>

lemma bytes_msg_append: "bytes_msg (msg_bytes m @ junk) = Inr (m\<lparr>data := data m @ junk\<rparr>)"
proof -
  have "msg_bytes m @ junk = msg_bytes (m\<lparr>data := data m @ junk\<rparr>)" by (simp add: msg_bytes_def)
  then show ?thesis by (simp add: bytes_msg_msg_bytes)
qed

text \<open>The header alone determines everything but the payload.\<close>

lemma bytes_msg_header:
  assumes "take sizeof_msg bs = take sizeof_msg (msg_bytes m)" "sizeof_msg \<le> length bs"
  shows "\<exists>d. bytes_msg bs = Inr (m\<lparr>data := d\<rparr>)"
proof -
  let ?h = "m\<lparr>data := []\<rparr>"
  have "take sizeof_msg (msg_bytes m) = msg_bytes ?h"
    by (simp add: msg_bytes_def sizeof_msg_def)
  then have "bs = msg_bytes ?h @ drop sizeof_msg bs" using assms by (metis append_take_drop_id)
  then have "bytes_msg bs = Inr (?h\<lparr>data := [] @ drop sizeof_msg bs\<rparr>)"
    using bytes_msg_append [of ?h "drop sizeof_msg bs"] by simp
  then show ?thesis by auto
qed

lemma small_total:
  assumes "wf_msg m" "unat (totalBytes m) < 2 ^ 31"
  shows "unat (scast (ucast (totalBytes m) :: i32) :: size_t) = sizeof_msg + length (data m)"
proof -
  let ?N = "unat (totalBytes m)"
  have "(ucast (totalBytes m) :: i32) = of_nat ?N" using ucast_of_nat [of ?N] by simp
  then have "unat (scast (ucast (totalBytes m) :: i32) :: size_t) = ?N"
    using scast_of_nat_small [OF assms(2)] by simp
  then show ?thesis using assms(1) by (simp add: wf_msg_def)
qed

text \<open>
  Reassembly: however the bytes of a request are cut into chunks, as long as the first one
  holds the header, the handler gets the request, with what else is in the buffer behind
  its payload when everything came at once.
\<close>

lemma gather_request_spec:
  assumes "wf_msg m" "unat (totalBytes m) < 2 ^ 31" "sizeof_msg \<le> length (ch :: byte list)"
    and "ch @ concat cs = msg_bytes m" "[] \<notin> set cs" "length ch \<le> length old"
    and "c = \<lparr>buffer = overlay ch old, incoming = cs @ later, peer_closed = pc, outgoing = out, server = sv\<rparr>"
  shows "\<exists>junk. gather_request (length ch) c = Inr (m\<lparr>data := data m @ junk\<rparr>, c\<lparr>incoming := later\<rparr>)"
proof -
  let ?N = "sizeof_msg + length (data m)"
  have len: "length ch + length (concat cs) = ?N"
    using arg_cong [OF assms(4), of length] by (simp add: length_msg_bytes)
  have buf: "overlay ch old = ch @ drop (length ch) old" using assms(6) by (simp add: overlay_def)
  have "take sizeof_msg (overlay ch old) = take sizeof_msg (msg_bytes m)"
    using assms(3,4) buf by (metis append_eq_append_conv_if le_trans length_append take_append
        diff_is_0_eq take0 append_Nil2 nat_le_linear)
  then obtain d where d: "bytes_msg (buffer c) = Inr (m\<lparr>data := d\<rparr>)"
    using bytes_msg_header [of "overlay ch old" m] assms(3,7) buf by auto
  note tot = small_total [OF assms(1,2)]
  show ?thesis
  proof (cases "length ch < ?N")
    case True
    have N31: "?N < 2 ^ 31" using assms(1,2) by (simp add: wf_msg_def)
    have "(of_nat ?N - of_nat (length ch) :: size_t) = of_nat (?N - length ch)"
      using True by (simp add: of_nat_diff)
    then have "(ucast (of_nat ?N - of_nat (length ch) :: size_t) :: i32) = of_nat (?N - length ch)"
      by (simp only: ucast_of_nat)
    then have size: "sint (ucast (of_nat ?N - of_nat (length ch) :: size_t) :: i32) = int (?N - length ch)"
      using N31 by (simp only: sint_of_nat_small)
    have k: "?N - length ch = length (concat cs)" using len by simp
    note rest = read_chunks_exact [OF assms(5), of pc later]
    have full: "bytes_msg (take (length ch) (buffer c) @ concat cs) = Inr m"
      using assms(4,7) buf by (simp add: bytes_msg_msg_bytes)
    have "gather_request (length ch) c = Inr (m, c\<lparr>incoming := later\<rparr>)"
      unfolding gather_request_def d Let_def bindR.simps
      using True N31 size k rest full by (simp add: tot assms(7))
    then show ?thesis by (intro exI [of _ "[]"]) simp
  next
    case False
    then have "length (concat cs) = 0" using len by linarith
    then have "concat cs = []" by (simp only: length_0_conv)
    then have cs: "cs = []" using assms(5) by (cases cs) auto
    then have "ch = msg_bytes m" using assms(4) by simp
    then have "bytes_msg (buffer c) = Inr (m\<lparr>data := data m @ drop (length ch) old\<rparr>)"
      using buf assms(7) by (simp add: bytes_msg_append)
    then have "gather_request (length ch) c = Inr (m\<lparr>data := data m @ drop (length ch) old\<rparr>, c)"
      unfolding gather_request_def using False by (simp add: tot)
    then show ?thesis using cs assms(7) by (intro exI [of _ "drop (length ch) old"]) simp
  qed
qed

section \<open>What a server promises to its connections\<close>

text \<open>
  The contract of \<open>handle_request\<close>: a reply's byte counts describe its block, and bytes
  behind the payload of a request do not matter.
\<close>

locale request_server =
  fixes handle :: "msg \<Rightarrow> 's \<Rightarrow> (msg option \<times> 's) result"
  assumes reply_wf: "handle m s = Inr (Some r, s') \<Longrightarrow> wf_msg r"
    and ignores_trailing: "wf_msg m \<Longrightarrow> handle m s = Inr x \<Longrightarrow> handle (m\<lparr>data := data m @ junk\<rparr>) s = Inr x"
begin

text \<open>A reply is always written completely and nothing but the reply is written.\<close>

lemma iter_writes_reply:
  assumes "conn_iter handle bt c = Inr c'"
  shows "\<exists>m c1 reply s'. gather_request bt c = Inr (m, c1) \<and> handle m (server c1) = Inr (reply, s') \<and>
    server c' = s' \<and>
    outgoing c' = outgoing c1 @ (case reply of None \<Rightarrow> [] | Some r \<Rightarrow> msg_bytes r)"
proof -
  from assms obtain m c1 reply s' where g: "gather_request bt c = Inr (m, c1)"
    and h: "handle m (server c1) = Inr (reply, s')" and a: "answer reply (c1\<lparr>server := s'\<rparr>) = Inr c'"
    by (auto simp: conn_iter_def bindR_eq_Inr)
  have "server c' = s' \<and> outgoing c' = outgoing c1 @ (case reply of None \<Rightarrow> [] | Some r \<Rightarrow> msg_bytes r)"
  proof (cases reply)
    case None
    with a show ?thesis by (auto simp: answer_def)
  next
    case (Some r)
    have "write_msg r = Inr (msg_bytes r)" using reply_wf h Some by (simp add: write_wf_msg)
    with a Some show ?thesis
      by (auto simp: answer_def Let_def split: sum.splits if_splits dest!: read_some_frame)
  qed
  with g h show ?thesis by blast
qed

text \<open>
  A whole session: a request in any chunks, then at least the first four bytes of the
  client's \<open>MSG_DONE\<close>. One iteration serves it and the connection is closed.
\<close>

lemma session:
  assumes "wf_msg m" "unat (totalBytes m) < 2 ^ 31" "sizeof_msg \<le> length ch"
    and "ch @ concat cs = msg_bytes m" "[] \<notin> set cs" "length ch \<le> length old" "length fin = sizeof_msg"
    and "take 4 fin = word_bytes MSG_DONE"
    and "handle m s = Inr (Some r, s')"
    and "c = \<lparr>buffer = old, incoming = ch # cs @ [fin], peer_closed = pc, outgoing = [], server = s\<rparr>"
  shows "\<exists>c'. connection_start (Suc k) handle c = Inr (Some (Closed, c')) \<and>
    outgoing c' = msg_bytes r \<and> server c' = s' \<and> incoming c' = []"
proof -
  let ?c = "c\<lparr>buffer := overlay ch old, incoming := cs @ [fin]\<rparr>"
  obtain junk where g: "gather_request (length ch) ?c =
      Inr (m\<lparr>data := data m @ junk\<rparr>, ?c\<lparr>incoming := [fin]\<rparr>)"
    using gather_request_spec [OF assms(1-6), of ?c "[fin]" pc "[]" s] assms(10) by auto
  have h: "handle (m\<lparr>data := data m @ junk\<rparr>) s = Inr (Some r, s')"
    using ignores_trailing [OF assms(1,9)] .
  let ?d = "?c\<lparr>buffer := overlay fin (overlay ch old), incoming := [], outgoing := msg_bytes r, server := s'\<rparr>"
  have len: "sizeof_msg \<le> length (overlay ch old)" using assms(3,6) by simp
  have it: "conn_iter handle (length ch) ?c = Inr ?d"
    using g h write_wf_msg [OF reply_wf [OF assms(9)]] len assms(7,10)
    by (simp add: conn_iter_def answer_def read_some_simps)
  have "take 4 (buffer ?d) = word_bytes MSG_DONE"
    using len assms(7,8) unfolding overlay_def [of fin] by (simp add: sizeof_msg_def)
  moreover have "sizeof_msg \<le> length (buffer ?d)" using len by simp
  ultimately have "conn_status ?d = Inr (Some Closed)"
    by (simp add: conn_status_def bytes_msg_def)
  with it assms(6,10) show ?thesis
    by (intro exI [of _ ?d]) (simp add: connection_start_def first_read_def read_some_simps)
qed

end

text \<open>
  A client that goes away without \<open>MSG_DONE\<close>: the failed read is caught, the buffer still
  holds the old request, and the loop handles it again, for ever.
\<close>

lemma conn_never_ends:
  assumes "conn_status c = Inr None" "incoming c = []" "peer_closed c"
    and "bytes_msg (buffer c) = Inr m" "unat (scast (ucast (totalBytes m) :: i32) :: size_t) \<le> bt"
    and "\<And>s. \<exists>r s'. handle m s = Inr (Some r, s') \<and> wf_msg r"
  shows "handle_read k handle bt c = Inr None"
  using assms(1-4)
proof (induction k arbitrary: c)
  case (Suc k)
  obtain r s' where h: "handle m (server c) = Inr (Some r, s')" "wf_msg r" using assms(6) by blast
  let ?c = "c\<lparr>server := s', outgoing := outgoing c @ msg_bytes r\<rparr>"
  have "gather_request bt c = Inr (m, c)"
    using Suc.prems(4) assms(5) by (simp add: gather_request_def)
  then have "conn_iter handle bt c = Inr ?c"
    using h Suc.prems(2,3)
    by (simp add: conn_iter_def answer_def write_wf_msg read_some_simps no_bytes_def Let_def)
  moreover have st: "conn_status ?c = Inr None" using Suc.prems(1) by (simp add: conn_status_def)
  ultimately show ?case using Suc.IH [OF st] Suc.prems by simp
qed simp

text \<open>A request of which too few bytes arrive.\<close>

lemma gather_request_short:
  assumes "wf_msg m" "unat (totalBytes m) < 2 ^ 31" "bytes_msg (buffer c) = Inr (m\<lparr>data := d\<rparr>)"
    and "bt + length (concat (incoming c)) < unat (totalBytes m)"
  shows "gather_request bt c = Inl (no_bytes (peer_closed c))"
proof -
  let ?N = "sizeof_msg + length (data m)"
  have N: "unat (totalBytes m) = ?N" using assms(1) by (simp add: wf_msg_def)
  have "(of_nat ?N - of_nat bt :: size_t) = of_nat (?N - bt)"
    using assms(4) N by (simp add: of_nat_diff)
  then have "(ucast (of_nat ?N - of_nat bt :: size_t) :: i32) = of_nat (?N - bt)"
    by (simp only: ucast_of_nat)
  then have size: "sint (ucast (of_nat ?N - of_nat bt :: size_t) :: i32) = int (?N - bt)"
    using assms(2) N by (simp only: sint_of_nat_small)
  show ?thesis
    unfolding gather_request_def assms(3) Let_def bindR.simps
    using assms(2,4) N size by (simp add: small_total [OF assms(1,2)] read_chunks_short)
qed

section \<open>Properties\<close>

text \<open>
  C29. Reassembly: a request that arrives in any non-empty chunks, the first of which holds the
  header, is handed to the server as it was sent, with stale buffer bytes behind its payload at
  most.
\<close>

theorem request_reassembled:
  assumes "wf_msg m" "unat (totalBytes m) < 2 ^ 31" "sizeof_msg \<le> length ch"
    and "ch @ concat cs = msg_bytes m" "[] \<notin> set cs" "length ch \<le> length old"
  shows "\<exists>junk. gather_request (length ch)
      \<lparr>buffer = overlay ch old, incoming = cs @ later, peer_closed = pc, outgoing = out, server = sv\<rparr> =
    Inr (m\<lparr>data := data m @ junk\<rparr>,
      \<lparr>buffer = overlay ch old, incoming = later, peer_closed = pc, outgoing = out, server = sv\<rparr>)"
  using gather_request_spec [OF assms refl, of later pc out sv] by simp

theorem request_reassembled_witness:
  "\<exists>junk. gather_request 70
      \<lparr>buffer = overlay (take 70 (msg_bytes ((zero_msg 2)\<lparr>totalBytes := 71, dataBytes := 2\<rparr>))) (replicate 100 0),
       incoming = [[0]] @ [], peer_closed = False, outgoing = [], server = ()\<rparr> =
    Inr ((zero_msg 2)\<lparr>totalBytes := 71, dataBytes := 2, data := [0, 0] @ junk\<rparr>,
      \<lparr>buffer = overlay (take 70 (msg_bytes ((zero_msg 2)\<lparr>totalBytes := 71, dataBytes := 2\<rparr>))) (replicate 100 0),
       incoming = [], peer_closed = False, outgoing = [], server = ()\<rparr>)"
proof -
  let ?m = "(zero_msg 2)\<lparr>totalBytes := 71, dataBytes := 2\<rparr>"
  have len: "length (msg_bytes ?m) = 71" by (simp add: length_msg_bytes zero_msg_def sizeof_msg_def)
  have "drop 70 (msg_bytes ?m) = [0]"
    by (simp add: msg_bytes_def zero_msg_def numeral_2_eq_2)
  then have e: "take 70 (msg_bytes ?m) @ concat [[0]] = msg_bytes ?m"
    by (metis append_Nil2 append_take_drop_id concat.simps)
  have d: "data ?m = [0, 0]" by (simp add: zero_msg_def numeral_2_eq_2)
  have l: "length (take 70 (msg_bytes ?m)) = 70" using len by simp
  have "wf_msg ?m" by (simp add: wf_msg_def zero_msg_def sizeof_msg_def)
  from request_reassembled [OF this _ _ e, of "replicate 100 0" "[]" False "[]" "()"] l
  show ?thesis by (simp add: sizeof_msg_def d del: concat.simps)
qed

text \<open>
  When the client goes away without \<open>MSG_DONE\<close>, the connection loop serves the request in
  its buffer again and again: no number of iterations ends it.
\<close>

theorem abandoned_connection_loops:
  assumes "conn_status c = Inr None" "incoming c = []" "peer_closed c"
    and "bytes_msg (buffer c) = Inr m" "unat (scast (ucast (totalBytes m) :: i32) :: size_t) \<le> bt"
    and "\<forall>s. \<exists>r s'. handle m s = Inr (Some r, s') \<and> wf_msg r"
  shows "handle_read k handle bt c = Inr None"
  using assms by (intro conn_never_ends) auto

theorem abandoned_connection_loops_witness:
  "handle_read 5 (\<lambda>m s. Inr (Some msg_ack, s)) 69
     \<lparr>buffer = msg_bytes ((zero_msg 0)\<lparr>msgId := MSG_ACK, totalBytes := 69\<rparr>), incoming = [],
      peer_closed = True, outgoing = [], server = ()\<rparr> = Inr None"
proof (rule abandoned_connection_loops)
  show "bytes_msg (buffer \<lparr>buffer = msg_bytes ((zero_msg 0)\<lparr>msgId := MSG_ACK, totalBytes := 69\<rparr>),
      incoming = [], peer_closed = True, outgoing = [], server = ()\<rparr>) =
      Inr ((zero_msg 0)\<lparr>msgId := MSG_ACK, totalBytes := 69\<rparr>)" by (simp add: bytes_msg_msg_bytes)
qed (simp_all add: conn_status_def bytes_msg_msg_bytes msg_ids wf_msg_def msg_ack_def zero_msg_def sizeof_msg_def)

text \<open>
  The loop keeps comparing with the size of the first read: a second request that is
  completely in the buffer but longer than that makes the server wait for bytes nobody sends.
\<close>

theorem second_request_blocks:
  assumes "wf_msg m" "unat (totalBytes m) < 2 ^ 31" "bytes_msg (buffer c) = Inr (m\<lparr>data := d\<rparr>)"
    and "bt < unat (totalBytes m)" "incoming c = []" "\<not> peer_closed c"
  shows "conn_iter handle bt c = Inl Would_Block"
  using gather_request_short [OF assms(1-3), of bt] assms(4-6) by (simp add: conn_iter_def no_bytes_def)

theorem second_request_blocks_witness:
  "conn_iter (\<lambda>m s. Inr (Some msg_ack, s)) 69
     \<lparr>buffer = msg_bytes ((zero_msg 1)\<lparr>totalBytes := 70, dataBytes := 1\<rparr>), incoming = [],
      peer_closed = False, outgoing = [], server = ()\<rparr> = Inl Would_Block"
proof (rule second_request_blocks)
  show "bytes_msg (buffer \<lparr>buffer = msg_bytes ((zero_msg 1)\<lparr>totalBytes := 70, dataBytes := 1\<rparr>), incoming = [],
      peer_closed = False, outgoing = [], server = ()\<rparr>) =
      Inr (((zero_msg 1)\<lparr>totalBytes := 70, dataBytes := 1\<rparr>)\<lparr>data := [0]\<rparr>)"
    by (simp add: bytes_msg_msg_bytes zero_msg_def)
qed (simp_all add: wf_msg_def zero_msg_def sizeof_msg_def)

end
