(* ===== verification/Server_Pool.thy ===== *)
theory Server_Pool
  imports Tcp_Server
begin

text \<open>
  \<open>MultiThreadedTCPServer\<close> as a whole: the acceptor, the worker threads and the shutdown by a
  signal, around the connections of \<open>Tcp_Server\<close>. \<open>run\<close> starts \<open>thread_pool_size_\<close> threads in
  \<open>io_service::run\<close>; a handler (\<open>handle_accept\<close>, \<open>handle_read\<close>, \<open>handle_stop\<close>) is run by a thread
  that is not running another one, in any order. \<open>handle_read\<close> reads and writes synchronously, so
  it keeps its thread for the whole connection; it is split into its iterations, because those of
  several connections interleave on the server's state. An iteration that blocks is no step: its
  thread stays where it is. One that fails, by an access outside a buffer or by an exception nobody
  catches (\<open>io_service::run\<close> passes on what its handlers throw, and a thread function that ends with an
  exception calls \<open>std::terminate\<close>), ends the process.
\<close>

section \<open>The server\<close>

text \<open>
  \<open>arrived\<close>: connections in the listen queue; \<open>reading\<close>: accepted, their first \<open>async_read_some\<close>
  under way; \<open>serving\<close>: in \<open>handle_read\<close> with their \<open>bytes_transferred\<close>; \<open>closed\<close>: shut down.
  Connections carry a number to tell them apart.
\<close>

record 's pool =
  pool_size :: nat
  state :: 's
  arrived :: "(nat \<times> 's conn) list"
  reading :: "(nat \<times> 's conn) list"
  serving :: "(nat \<times> nat \<times> 's conn) list"
  closed :: "(nat \<times> 's conn) list"
  signalled :: bool
  stopped :: bool
  crashed :: bool

definition Server_new :: "nat \<Rightarrow> 's \<Rightarrow> 's pool" where
  "Server_new n s =
     \<lparr>pool_size = n, state = s, arrived = [], reading = [], serving = [], closed = [],
      signalled = False, stopped = False, crashed = False\<rparr>"

definition idle_worker :: "'s pool \<Rightarrow> bool" where
  "idle_worker p \<longleftrightarrow> length (serving p) < pool_size p \<and> \<not> stopped p \<and> \<not> crashed p"

text \<open>\<open>handle_accept\<close>: the connection's \<open>start\<close> issues its first read, then the next accept is issued.\<close>

definition handle_accept :: "'s pool \<Rightarrow> 's pool option" where
  "handle_accept p =
     (if idle_worker p
      then (case arrived p of [] \<Rightarrow> None
            | c # cs \<Rightarrow> Some (p\<lparr>arrived := cs, reading := reading p @ [c]\<rparr>))
      else None)"

text \<open>The first read of the connection at position \<open>i\<close> has completed and \<open>handle_read\<close> is entered.\<close>

definition begin_read :: "nat \<Rightarrow> 's pool \<Rightarrow> 's pool option" where
  "begin_read i p =
     (if idle_worker p \<and> i < length (reading p)
      then (case reading p ! i of (k, c) \<Rightarrow> (case first_read c of
              None \<Rightarrow> None
            | Some r \<Rightarrow> Some (p\<lparr>reading := erase_at i (reading p), serving := serving p @ [(k, r)]\<rparr>)))
      else None)"

text \<open>
  One iteration of the loop of \<open>handle_read\<close>, on the current state of the server, and what
  follows the loop: \<open>MSG_TERM\<close> raises SIGINT, the socket is shut down.
\<close>

definition iterate ::
  "(msg \<Rightarrow> 's \<Rightarrow> (msg option \<times> 's) result) \<Rightarrow> nat \<Rightarrow> 's pool \<Rightarrow> 's pool option" where
  "iterate handle i p =
     (if i < length (serving p) \<and> \<not> crashed p
      then (case serving p ! i of (k, bt, c) \<Rightarrow>
        (case conn_iter handle bt (c\<lparr>server := state p\<rparr>) of
           Inl e \<Rightarrow> if e = Would_Block then None else Some (p\<lparr>crashed := True\<rparr>)
         | Inr c' \<Rightarrow> (case conn_status c' of
             Inl e \<Rightarrow> Some (p\<lparr>crashed := True\<rparr>)
           | Inr None \<Rightarrow> Some (p\<lparr>state := server c', serving := (serving p)[i := (k, bt, c')]\<rparr>)
           | Inr (Some e) \<Rightarrow> Some (p\<lparr>state := server c', serving := erase_at i (serving p),
               closed := closed p @ [(k, c')], signalled := (signalled p \<or> e = Terminated)\<rparr>))))
      else None)"

text \<open>\<open>handle_stop\<close> is a handler like the others: it needs a thread to run it.\<close>

definition handle_stop :: "'s pool \<Rightarrow> 's pool option" where
  "handle_stop p = (if idle_worker p \<and> signalled p then Some (p\<lparr>stopped := True\<rparr>) else None)"

text \<open>\<open>run\<close> returns when all threads have left \<open>io_service::run\<close>.\<close>

definition run_returns :: "'s pool \<Rightarrow> bool" where
  "run_returns p \<longleftrightarrow> stopped p \<and> serving p = [] \<and> \<not> crashed p"

inductive pool_step ::
  "(msg \<Rightarrow> 's \<Rightarrow> (msg option \<times> 's) result) \<Rightarrow> 's pool \<Rightarrow> 's pool \<Rightarrow> bool" for handle where
  connects: "pool_step handle p (p\<lparr>arrived := arrived p @ [(k, c)]\<rparr>)"
| accepts: "handle_accept p = Some q \<Longrightarrow> pool_step handle p q"
| begins: "begin_read i p = Some q \<Longrightarrow> pool_step handle p q"
| iterates: "iterate handle i p = Some q \<Longrightarrow> pool_step handle p q"
| signal: "pool_step handle p (p\<lparr>signalled := True\<rparr>)"
| stops: "handle_stop p = Some q \<Longrightarrow> pool_step handle p q"

inductive pool_run ::
  "(msg \<Rightarrow> 's \<Rightarrow> (msg option \<times> 's) result) \<Rightarrow> 's pool \<Rightarrow> 's pool \<Rightarrow> bool" for handle where
  here: "pool_run handle p p"
| onward: "pool_run handle p q \<Longrightarrow> pool_step handle q r \<Longrightarrow> pool_run handle p r"

section \<open>At most as many connections as threads\<close>

lemma pool_step_size: "pool_step handle p q \<Longrightarrow> pool_size q = pool_size p"
  by (induction rule: pool_step.induct)
    (auto simp: handle_accept_def begin_read_def iterate_def handle_stop_def
      split: if_splits list.splits sum.splits option.splits prod.splits)

lemma pool_step_serving:
  "pool_step handle p q \<Longrightarrow> length (serving p) \<le> pool_size p \<Longrightarrow> length (serving q) \<le> pool_size q"
  by (induction rule: pool_step.induct)
    (auto simp: handle_accept_def begin_read_def iterate_def handle_stop_def idle_worker_def
      split: if_splits list.splits sum.splits option.splits prod.splits)

lemma pool_run_serving:
  "pool_run handle p q \<Longrightarrow> length (serving p) \<le> pool_size p \<Longrightarrow>
     length (serving q) \<le> pool_size q \<and> pool_size q = pool_size p"
proof (induction rule: pool_run.induct)
  case (onward p q r)
  then show ?case using pool_step_serving [OF onward.hyps(2)] pool_step_size [OF onward.hyps(2)] by simp
qed simp

section \<open>A session in the pool\<close>

lemma pool_run_trans: "pool_run handle q r \<Longrightarrow> pool_run handle p q \<Longrightarrow> pool_run handle p r"
  by (induction rule: pool_run.induct) (auto intro: pool_run.onward)

lemma nth_append_last [simp]: "(xs @ [x]) ! length xs = x"
  by simp

lemma erase_at_last [simp]: "erase_at (length xs) (xs @ [x]) = xs"
  by (simp add: erase_at_def)

text \<open>
  A connection at the head of the listen queue that one iteration finishes: accepting,
  reading, serving and closing it are steps of the pool.
\<close>

lemma pool_serves:
  assumes idle: "idle_worker p" and arr: "arrived p = (k, c) # cs"
    and sv: "server c = state p"
    and fin: "connection_start (Suc 0) handle c = Inr (Some (Closed, c'))"
  shows "\<exists>q. pool_run handle p q \<and> arrived q = cs \<and> closed q = closed p @ [(k, c')] \<and>
    state q = server c' \<and> serving q = serving p \<and> reading q = reading p \<and> stopped q = stopped p"
proof -
  from fin obtain bt b where fr: "first_read c = Some (bt, b)"
    and hr: "handle_read (Suc 0) handle bt b = Inr (Some (Closed, c'))"
    by (auto simp: connection_start_def split: option.splits)
  from hr obtain d where it: "conn_iter handle bt b = Inr d" and st: "conn_status d = Inr (Some Closed)"
    and d: "d = c'" by (auto simp: bindR_eq_Inr split: option.splits)
  let ?p1 = "p\<lparr>arrived := cs, reading := reading p @ [(k, c)]\<rparr>"
  let ?p2 = "?p1\<lparr>reading := reading p, serving := serving p @ [(k, bt, b)]\<rparr>"
  let ?p3 = "?p2\<lparr>state := server c', serving := serving p, closed := closed p @ [(k, c')]\<rparr>"
  have same: "b\<lparr>server := state p\<rparr> = b" using first_read_server [OF fr] sv by simp
  have "handle_accept p = Some ?p1" using idle arr by (simp add: handle_accept_def)
  moreover have "begin_read (length (reading p)) ?p1 = Some ?p2"
    using idle fr by (simp add: begin_read_def idle_worker_def)
  moreover have "iterate handle (length (serving p)) ?p2 = Some ?p3"
    using it st d idle by (simp add: iterate_def same idle_worker_def)
  ultimately have "pool_run handle p ?p3"
    by (meson pool_run.intros pool_step.accepts pool_step.begins pool_step.iterates)
  then show ?thesis by (intro exI [of _ ?p3]) simp
qed

section \<open>Abandoned connections\<close>

text \<open>
  The peer of a connection is gone, and the request left in the buffer is one that the server
  answers.
\<close>

definition abandoned :: "(msg \<Rightarrow> 's \<Rightarrow> (msg option \<times> 's) result) \<Rightarrow> nat \<Rightarrow> 's conn \<Rightarrow> bool" where
  "abandoned handle bt c \<longleftrightarrow>
     conn_status c = Inr None \<and> incoming c = [] \<and> peer_closed c \<and>
     (\<exists>m. bytes_msg (buffer c) = Inr m \<and> unat (scast (ucast (totalBytes m) :: i32) :: size_t) \<le> bt \<and>
        (\<forall>s. \<exists>r s'. handle m s = Inr (Some r, s') \<and> wf_msg r))"

lemma abandoned_iter:
  assumes "abandoned handle bt c"
  shows "\<exists>c'. conn_iter handle bt (c\<lparr>server := s\<rparr>) = Inr c' \<and> conn_status c' = Inr None \<and> abandoned handle bt c'"
proof -
  from assms obtain m where m: "bytes_msg (buffer c) = Inr m" "unat (scast (ucast (totalBytes m) :: i32) :: size_t) \<le> bt"
    and h: "\<forall>s. \<exists>r s'. handle m s = Inr (Some r, s') \<and> wf_msg r"
    and c: "conn_status c = Inr None" "incoming c = []" "peer_closed c"
    by (auto simp: abandoned_def)
  obtain r s' where r: "handle m s = Inr (Some r, s')" "wf_msg r" using h by blast
  let ?c = "c\<lparr>server := s', outgoing := outgoing c @ msg_bytes r\<rparr>"
  have "gather_request bt (c\<lparr>server := s\<rparr>) = Inr (m, c\<lparr>server := s\<rparr>)"
    using m by (simp add: gather_request_def)
  then have "conn_iter handle bt (c\<lparr>server := s\<rparr>) = Inr ?c"
    using r c write_wf_msg [OF r(2)]
    by (simp add: conn_iter_def answer_def read_some_simps no_bytes_def Let_def)
  moreover have "conn_status ?c = Inr None" using c(1) by (simp add: conn_status_def)
  moreover have "abandoned handle bt ?c" using m h c by (auto simp: abandoned_def conn_status_def)
  ultimately show ?thesis by blast
qed

definition exhausted :: "(msg \<Rightarrow> 's \<Rightarrow> (msg option \<times> 's) result) \<Rightarrow> 's pool \<Rightarrow> bool" where
  "exhausted handle p \<longleftrightarrow>
     length (serving p) = pool_size p \<and> (\<forall>(k, bt, c)\<in>set (serving p). abandoned handle bt c)"

lemma exhausted_iterate:
  assumes ex: "exhausted handle p" and it: "iterate handle i p = Some q"
  shows "exhausted handle q \<and> map fst (serving q) = map fst (serving p) \<and> reading q = reading p \<and>
    closed q = closed p \<and> stopped q = stopped p \<and> arrived q = arrived p"
proof -
  obtain k bt c where at: "serving p ! i = (k, bt, c)" by (cases "serving p ! i")
  have i: "i < length (serving p)" using it by (simp add: iterate_def split: if_splits)
  then have "(k, bt, c) \<in> set (serving p)" by (simp add: at [symmetric])
  then have "abandoned handle bt c" using ex by (auto simp: exhausted_def)
  from abandoned_iter [OF this, of "state p"] obtain c'
    where c': "conn_iter handle bt (c\<lparr>server := state p\<rparr>) = Inr c'" "conn_status c' = Inr None"
      "abandoned handle bt c'"
    by blast
  from it i at c'(1,2) have q: "q = p\<lparr>state := server c', serving := (serving p)[i := (k, bt, c')]\<rparr>"
    by (simp add: iterate_def split: if_splits)
  moreover have "map fst ((serving p)[i := (k, bt, c')]) = map fst (serving p)"
    using at i by (metis fst_conv list_update_id map_update nth_map)
  moreover have "\<forall>(k, bt, c)\<in>set ((serving p)[i := (k, bt, c')]). abandoned handle bt c"
    using ex c'(3) set_update_subset_insert [of "serving p" i] by (fastforce simp: exhausted_def)
  ultimately show ?thesis using ex by (simp add: exhausted_def)
qed

lemma exhausted_step:
  assumes "pool_step handle p q" and "exhausted handle p"
  shows "exhausted handle q \<and> map fst (serving q) = map fst (serving p) \<and> reading q = reading p \<and>
    closed q = closed p \<and> stopped q = stopped p \<and> (\<exists>new. arrived q = arrived p @ new)"
  using assms
proof (induction rule: pool_step.induct)
  case (iterates i p q)
  then show ?case using exhausted_iterate [of handle p i q] by auto
qed (auto simp: handle_accept_def begin_read_def handle_stop_def idle_worker_def exhausted_def split: if_splits)

lemma exhausted_run:
  "pool_run handle p q \<Longrightarrow> exhausted handle p \<Longrightarrow>
     exhausted handle q \<and> map fst (serving q) = map fst (serving p) \<and> reading q = reading p \<and>
     closed q = closed p \<and> stopped q = stopped p \<and> (\<exists>new. arrived q = arrived p @ new)"
proof (induction rule: pool_run.induct)
  case (onward p q r)
  then show ?case using exhausted_step [OF onward.hyps(2)] by (metis append.assoc)
qed simp

section \<open>Requests that are cut off\<close>

text \<open>After the process has died, connections only pile up in the listen queue.\<close>

lemma crashed_step:
  "pool_step handle p q \<Longrightarrow> crashed p \<Longrightarrow>
     crashed q \<and> serving q = serving p \<and> reading q = reading p \<and> closed q = closed p \<and>
     (\<exists>new. arrived q = arrived p @ new)"
  by (induction rule: pool_step.induct)
    (auto simp: handle_accept_def begin_read_def iterate_def handle_stop_def idle_worker_def)

lemma crashed_run:
  "pool_run handle p q \<Longrightarrow> crashed p \<Longrightarrow>
     crashed q \<and> serving q = serving p \<and> reading q = reading p \<and> closed q = closed p \<and>
     (\<exists>new. arrived q = arrived p @ new)"
proof (induction rule: pool_run.induct)
  case (onward p q r)
  then show ?case using crashed_step [OF onward.hyps(2)] by (metis append.assoc)
qed simp

text \<open>A request of which the header but not the whole arrives before the peer closes.\<close>

lemma truncated_iter:
  assumes "wf_msg m" "unat (totalBytes m) < 2 ^ 31" "sizeof_msg \<le> length ch" "length ch \<le> length (buffer b)"
    and "ch @ concat cs @ missing = msg_bytes m" "missing \<noteq> []"
    and "c = b\<lparr>buffer := overlay ch (buffer b), incoming := cs\<rparr>" "peer_closed b"
  shows "conn_iter handle (length ch) c = Inl System_Error"
proof -
  have "take sizeof_msg (overlay ch (buffer b)) = take sizeof_msg (msg_bytes m)"
    using assms(3,4) unfolding assms(5) [symmetric] by (simp add: overlay_def)
  then obtain d where d: "bytes_msg (buffer c) = Inr (m\<lparr>data := d\<rparr>)"
    using bytes_msg_header [of "overlay ch (buffer b)" m] assms(3,4,7) by auto
  have "length ch + length (concat cs) + length missing = unat (totalBytes m)"
    using arg_cong [OF assms(5), of length] assms(1) by (simp add: length_msg_bytes wf_msg_def)
  moreover have "0 < length missing" using assms(6) by simp
  ultimately have "length ch + length (concat cs) < unat (totalBytes m)" by linarith
  with gather_request_short [OF assms(1,2) d, of "length ch"] assms(7,8) show ?thesis
    by (simp add: conn_iter_def no_bytes_def)
qed

section \<open>Servers that keep the contract\<close>

context request_server
begin

text \<open>A whole session of a client, served by an idle thread of the pool.\<close>

lemma pool_session:
  assumes "wf_msg m" "unat (totalBytes m) < 2 ^ 31" "sizeof_msg \<le> length ch"
    and "ch @ concat cs = msg_bytes m" "[] \<notin> set cs" "length ch \<le> length old" "length fin = sizeof_msg"
    and "take 4 fin = word_bytes MSG_DONE"
    and "handle m (state p) = Inr (Some r, s')"
    and "idle_worker p"
    and "arrived p = (k, \<lparr>buffer = old, incoming = ch # cs @ [fin], peer_closed = pc, outgoing = [],
      server = state p\<rparr>) # later"
  shows "\<exists>q c'. pool_run handle p q \<and> closed q = closed p @ [(k, c')] \<and> outgoing c' = msg_bytes r \<and>
    state q = s' \<and> arrived q = later \<and> serving q = serving p"
proof -
  obtain c' where c': "connection_start (Suc 0) handle \<lparr>buffer = old, incoming = ch # cs @ [fin],
      peer_closed = pc, outgoing = [], server = state p\<rparr> = Inr (Some (Closed, c'))"
    "outgoing c' = msg_bytes r" "server c' = s'"
    using session [OF assms(1-9) refl, of 0 pc] by auto
  from pool_serves [OF assms(10,11) _ c'(1)] c'(2,3) show ?thesis by auto
qed

end

section \<open>Properties\<close>

text \<open>
  C37. Clients that go away without \<open>MSG_DONE\<close> use up the threads of a server for good: once each
  thread is serving such a connection, then whatever else happens, the same connections are
  being served, no other one is ever accepted, read or closed, and a signal does not stop the
  server either, because the handler of the signal finds no thread.
\<close>

theorem abandoned_clients_exhaust_pool:
  assumes "length (serving p) = pool_size p" and "\<forall>(k, bt, c)\<in>set (serving p). abandoned handle bt c"
    and "\<not> stopped p" and "pool_run handle p q"
  shows "map fst (serving q) = map fst (serving p) \<and> reading q = reading p \<and> closed q = closed p \<and>
    \<not> run_returns q \<and> (\<exists>new. arrived q = arrived p @ new)"
  using exhausted_run [OF assms(4)] assms(1-3) by (simp add: exhausted_def run_returns_def)

theorem abandoned_clients_exhaust_pool_witness:
  "\<exists>p. idle_worker p = False \<and> \<not> stopped p \<and> length (serving p) = 1 \<and>
     (\<forall>q. pool_run (\<lambda>m s :: unit. Inr (Some msg_ack, s)) p q \<longrightarrow>
        map fst (serving q) = [0] \<and> closed q = [] \<and> \<not> run_returns q)"
proof -
  let ?m = "(zero_msg 0)\<lparr>msgId := MSG_ACK, totalBytes := 69\<rparr>"
  let ?c = "\<lparr>buffer = msg_bytes ?m, incoming = [], peer_closed = True, outgoing = [], server = ()\<rparr>"
  let ?p = "(Server_new 1 ())\<lparr>serving := [(0, 69, ?c)]\<rparr>"
  let ?h = "\<lambda>m s :: unit. Inr (Some msg_ack, s) :: (msg option \<times> unit) result"
  have "abandoned ?h 69 ?c"
    by (simp add: abandoned_def conn_status_def bytes_msg_msg_bytes msg_ids wf_msg_def msg_ack_def
        zero_msg_def sizeof_msg_def)
  then have "map fst (serving q) = [0] \<and> closed q = [] \<and> \<not> run_returns q" if "pool_run ?h ?p q" for q
    using abandoned_clients_exhaust_pool [of ?p ?h q] that by (simp add: Server_new_def)
  then show ?thesis by (intro exI [of _ ?p]) (simp add: Server_new_def idle_worker_def)
qed

text \<open>
  C22. A request that is cut off takes the server down: when a client sends the header of a request
  and closes the connection before the rest, the read of the rest throws, nothing catches the
  exception, and the process ends, with the requests of all other clients that are being served.
\<close>

theorem truncated_request_kills_server:
  assumes "wf_msg m" "unat (totalBytes m) < 2 ^ 31" "sizeof_msg \<le> length ch" "length ch \<le> length old"
    and "ch @ concat cs @ missing = msg_bytes m" "missing \<noteq> []"
    and "idle_worker p"
    and "arrived p = (k, \<lparr>buffer = old, incoming = ch # cs, peer_closed = True, outgoing = [],
      server = state p\<rparr>) # later"
  shows "\<exists>q. pool_run handle p q \<and> crashed q \<and> closed q = closed p \<and>
    (\<exists>c. serving q = serving p @ [(k, length ch, c)]) \<and>
    (\<forall>r. pool_run handle q r \<longrightarrow> closed r = closed p \<and> serving r = serving q \<and> \<not> run_returns r)"
proof -
  let ?c = "\<lparr>buffer = old, incoming = ch # cs, peer_closed = True, outgoing = [], server = state p\<rparr>"
  let ?b = "?c\<lparr>buffer := overlay ch old, incoming := cs\<rparr>"
  let ?p1 = "p\<lparr>arrived := later, reading := reading p @ [(k, ?c)]\<rparr>"
  let ?p2 = "?p1\<lparr>reading := reading p, serving := serving p @ [(k, length ch, ?b)]\<rparr>"
  let ?q = "?p2\<lparr>crashed := True\<rparr>"
  have "handle_accept p = Some ?p1" using assms(7,8) by (simp add: handle_accept_def)
  moreover have "first_read ?c = Some (length ch, ?b)"
    using assms(4) by (simp add: first_read_def read_some_simps)
  then have "begin_read (length (reading p)) ?p1 = Some ?p2"
    using assms(7) by (simp add: begin_read_def idle_worker_def)
  moreover have "conn_iter handle (length ch) ?b = Inl System_Error"
    by (rule truncated_iter [OF assms(1-3) _ assms(5,6), of ?c]) (use assms(4) in simp_all)
  then have "iterate handle (length (serving p)) ?p2 = Some ?q"
    using assms(7) by (simp add: iterate_def idle_worker_def)
  ultimately have run: "pool_run handle p ?q"
    by (meson pool_run.intros pool_step.accepts pool_step.begins pool_step.iterates)
  have "closed r = closed p \<and> serving r = serving ?q \<and> \<not> run_returns r" if "pool_run handle ?q r" for r
    using crashed_run [OF that] by (simp add: run_returns_def)
  with run show ?thesis by (intro exI [of _ ?q] conjI allI impI) simp_all
qed

theorem truncated_request_kills_server_witness:
  "\<exists>q. pool_run (\<lambda>m s. Inr (Some msg_ack, s))
      ((Server_new 4 ())\<lparr>arrived := [(7, \<lparr>buffer = replicate 100 0,
        incoming = [take 69 (msg_bytes ((zero_msg 1)\<lparr>totalBytes := 70, dataBytes := 1\<rparr>))],
        peer_closed = True, outgoing = [], server = ()\<rparr>)]\<rparr>) q \<and> crashed q"
proof -
  let ?m = "(zero_msg 1)\<lparr>totalBytes := 70, dataBytes := 1\<rparr>"
  let ?p = "(Server_new 4 ())\<lparr>arrived := [(7, \<lparr>buffer = replicate 100 0, incoming = [take 69 (msg_bytes ?m)],
     peer_closed = True, outgoing = [], server = ()\<rparr>)]\<rparr>"
  have len: "length (msg_bytes ?m) = 70" "length (drop 69 (msg_bytes ?m)) = 1"
    by (simp_all add: length_msg_bytes zero_msg_def sizeof_msg_def)
  have "wf_msg ?m" by (simp add: wf_msg_def zero_msg_def sizeof_msg_def)
  moreover have "idle_worker ?p" by (simp add: idle_worker_def Server_new_def)
  ultimately show ?thesis
    using truncated_request_kills_server [of ?m "take 69 (msg_bytes ?m)" "replicate 100 0" "[]"
        "drop 69 (msg_bytes ?m)" ?p 7 "[]" "\<lambda>m s. Inr (Some msg_ack, s)"] len
    by (auto simp: sizeof_msg_def Server_new_def)
qed

end
