(* ===== verification/Client_Model.thy ===== *)
theory Client_Model
  imports Tcp_Server Job_Model
begin

text \<open>
  The client side: \<open>class Client\<close> (\<open>src/common/Client.cpp\<close>), \<open>Resource::dispatch\<close>
  (\<open>src/common/Resource.cpp\<close>) and the stubs of \<open>src/client/client_api.cpp\<close>. What the peer
  sends on the connection is a byte list; reading more than it holds blocks. Name resolution
  and the connection itself are Boost's.
\<close>

section \<open>Client\<close>

definition Client_send :: "msg \<Rightarrow> byte list result" where
  "Client_send message = write_msg message"

definition Client_read :: "nat \<Rightarrow> byte list \<Rightarrow> (byte list \<times> byte list) result" where
  "Client_read sizeBytes inp =
     (if sizeBytes \<le> length inp then Inr (take sizeBytes inp, drop sizeBytes inp) else Inl Would_Block)"

definition Client_stop :: "byte list result" where
  "Client_stop = Client_send msg_done"

text \<open>\<open>Client::start\<close> looks up the host and the port as text.\<close>

definition connect_query :: "int \<Rightarrow> string \<Rightarrow> string \<times> string" where
  "connect_query portNumber name = (name, show_int portNumber)"

text \<open>
  \<open>getResult(out, sizeBytes)\<close>: the reply is expected to have exactly \<open>sizeBytes\<close> bytes of
  payload; a different count is only logged, and \<open>memcpy\<close> uses the reply's.
\<close>

definition Client_getResult :: "byte list \<Rightarrow> i32 \<Rightarrow> byte list \<Rightarrow> (byte list \<times> byte list) result" where
  "Client_getResult out sizeBytes inp =
     (let size = (ucast ((scast sizeBytes :: size_t) + of_nat sizeof_msg) :: i32)
      in if sint size < 0 then Inl Null_Deref
         else bindR (Client_read (nat (sint size)) inp) (\<lambda>(buf, rest).
           bindR (bytes_msg buf) (\<lambda>rsp.
             if length (data rsp) < unat (dataBytes rsp) then Inl Out_Of_Bounds
             else bindR (memcpy_at 0 (take (unat (dataBytes rsp)) (data rsp)) out) (\<lambda>out'.
               Inr (out', rest)))))"

text \<open>
  \<open>do c.read(buff, sizeBytes); while (rsp->msgId != MSG_RESULT)\<close>. A block of less than a
  header would be read past its end.
\<close>

function read_until_result :: "nat \<Rightarrow> byte list \<Rightarrow> (msg \<times> byte list) result" where
  "read_until_result sizeBytes inp =
     (if sizeBytes < sizeof_msg then Inl Out_Of_Bounds
      else if length inp < sizeBytes then Inl Would_Block
      else bindR (bytes_msg (take sizeBytes inp)) (\<lambda>rsp.
        if msgId rsp = MSG_RESULT then Inr (rsp, drop sizeBytes inp)
        else read_until_result sizeBytes (drop sizeBytes inp)))"
  by pat_completeness auto
termination
  by (relation "measure (\<lambda>(n, inp). length inp)") (auto simp: sizeof_msg_def)

declare read_until_result.simps [simp del]

section \<open>Resource::dispatch\<close>

definition dispatch_request :: "resource \<Rightarrow> msg \<Rightarrow> msg" where
  "dispatch_request r m =
     (let m1 = (if rtype r = ''SHARED_DFE'' \<or> rtype r = ''DFE'' then m\<lparr>resourceType := DFE\<rparr> else m)
      in if rtype r = ''CPU'' then m1\<lparr>resourceType := CPU\<rparr> else m1)"

text \<open>
  The bytes sent for the request, the reply, and the bytes of the closing \<open>MSG_DONE\<close>. A
  null request gives a null reply.
\<close>

definition Resource_dispatch :: "resource \<Rightarrow> msg option \<Rightarrow> byte list \<Rightarrow>
    (msg option \<times> byte list) result" where
  "Resource_dispatch r mo inp = (case mo of
       None \<Rightarrow> Inr (None, [])
     | Some m \<Rightarrow>
         (let sizeBytes = (ucast (of_nat sizeof_msg + 4 * dataSize m) :: i32)
          in if sint sizeBytes < 0 then Inl Null_Deref
             else bindR (Client_send (dispatch_request r m)) (\<lambda>sent.
               bindR (read_until_result (nat (sint sizeBytes)) inp) (\<lambda>(rsp, rest).
                 bindR Client_stop (\<lambda>bye. Inr (Some rsp, sent @ bye))))))"

section \<open>The client stubs\<close>

text \<open>
  \<open>CLIENT_ID\<close> as the environment has it; unset is \<open>None\<close>.
\<close>

definition stub_client_id :: "string option \<Rightarrow> int" where
  "stub_client_id env = (case env of None \<Rightarrow> 0 | Some clientIdCh \<Rightarrow> atoi clientIdCh)"

definition stub_port :: "string option \<Rightarrow> int" where
  "stub_port env =
     (let client_id = stub_client_id env
      in 8111 + (if 0 < client_id then client_id - 1 else client_id))"

text \<open>A stub: where it connects, what it sends, and how it turns the reply into its output.\<close>

record stub_call =
  stub_to :: int
  stub_request :: msg

definition movingAverage :: "size_t \<Rightarrow> size_t \<Rightarrow> i32 list \<Rightarrow> string option \<Rightarrow> stub_call result" where
  "movingAverage n sz xs env =
     bindR (msg_moving_avg (ucast n) sz xs) (\<lambda>m.
       Inr \<lparr>stub_to = stub_port env, stub_request = m\<lparr>clientId := of_int (stub_client_id env)\<rparr>\<rparr>)"

definition movingAverage_result :: "size_t \<Rightarrow> byte list \<Rightarrow> byte list \<Rightarrow> (byte list \<times> byte list) result" where
  "movingAverage_result n out inp = Client_getResult out (ucast (n * 4)) inp"

definition movingAverage_prio :: "size_t \<Rightarrow> size_t \<Rightarrow> i32 list \<Rightarrow> i32 \<Rightarrow> stub_call result" where
  "movingAverage_prio n sz xs pNum =
     bindR (msg_moving_avg (ucast n) sz xs) (\<lambda>m.
       Inr \<lparr>stub_to = 8110 + sint pNum, stub_request = m\<lparr>clientId := pNum\<rparr>\<rparr>)"

definition optionPricing ::
  "64 word \<Rightarrow> 64 word \<Rightarrow> 64 word \<Rightarrow> i32 \<Rightarrow> i32 \<Rightarrow> i32 \<Rightarrow> 64 word \<Rightarrow> string option \<Rightarrow> stub_call result" where
  "optionPricing strike sigma timestep numMaturity paraNode numPathGroup T env =
     bindR (msg_option_pricing strike sigma timestep numMaturity paraNode numPathGroup T) (\<lambda>m.
       Inr \<lparr>stub_to = stub_port env, stub_request = m\<lparr>clientId := of_int (stub_client_id env)\<rparr>\<rparr>)"

definition optionPricing_result :: "byte list \<Rightarrow> byte list \<Rightarrow> (byte list \<times> byte list) result" where
  "optionPricing_result out inp = Client_getResult out 8 inp"

definition optionPricingJlo ::
  "64 word \<Rightarrow> 64 word \<Rightarrow> 64 word \<Rightarrow> i32 \<Rightarrow> i32 \<Rightarrow> i32 \<Rightarrow> 64 word \<Rightarrow> i32 \<Rightarrow> i32 \<Rightarrow> string option \<Rightarrow>
     stub_call result" where
  "optionPricingJlo strike sigma timestep numMaturity paraNode numPathGroup T predicted target env =
     bindR (msg_option_pricing strike sigma timestep numMaturity paraNode numPathGroup T) (\<lambda>m.
       Inr \<lparr>stub_to = stub_port env,
            stub_request = m\<lparr>clientId := of_int (stub_client_id env), priority := 1, avg_wt := 3,
              predictedTimeMillis := predicted, resourceType := DFE,
              targetExecutionTimeMillis := target\<rparr>\<rparr>)"

definition TerminateServer :: "string option \<Rightarrow> stub_call" where
  "TerminateServer env = \<lparr>stub_to = stub_port env,
     stub_request = msg_empty\<lparr>clientId := of_int (stub_client_id env), msgId := MSG_TERM\<rparr>\<rparr>"

section \<open>Facts\<close>

lemma msg_done_bytes: "Client_stop = Inr (msg_bytes msg_done)"
  by (simp add: Client_stop_def Client_send_def write_msg_def length_msg_bytes msg_done_def
      zero_msg_def sizeof_msg_def)

text \<open>The size of a reply buffer, computed in \<open>size_t\<close> and narrowed to \<open>int\<close>.\<close>

lemma reply_size:
  assumes "n + sizeof_msg < 2 ^ 31" "w = (of_nat n :: size_t)"
  shows "sint (ucast (of_nat sizeof_msg + w) :: i32) = int (sizeof_msg + n)"
    "\<not> sint (ucast (of_nat sizeof_msg + w) :: i32) < 0"
    "nat (sint (ucast (of_nat sizeof_msg + w) :: i32)) = sizeof_msg + n"
proof -
  have "of_nat sizeof_msg + w = (of_nat (sizeof_msg + n) :: size_t)" by (simp add: assms(2))
  then show size: "sint (ucast (of_nat sizeof_msg + w) :: i32) = int (sizeof_msg + n)"
    using sint_of_nat_small [of "sizeof_msg + n"] assms(1) by (simp only: ucast_of_nat add.commute)
  show "\<not> sint (ucast (of_nat sizeof_msg + w) :: i32) < 0"
    "nat (sint (ucast (of_nat sizeof_msg + w) :: i32)) = sizeof_msg + n"
    unfolding size by (simp_all only: nat_int of_nat_less_0_iff not_False_eq_True)
qed

lemma result_size:
  assumes "n + sizeof_msg < 2 ^ 31" "w = (of_nat n :: i32)"
  shows "sint (ucast ((scast w :: size_t) + of_nat sizeof_msg) :: i32) = int (sizeof_msg + n)"
proof -
  have "(scast w :: size_t) = of_nat n"
    unfolding assms(2) using assms(1) by (intro scast_of_nat_small) simp
  from reply_size(1) [OF assms(1) this] show ?thesis by (simp only: add.commute)
qed

text \<open>A reply of the expected size reaches the caller's buffer.\<close>

lemma Client_getResult_reply:
  assumes "wf_msg r" "length (data r) = length out" "length out + sizeof_msg < 2 ^ 31"
  shows "Client_getResult out (of_nat (length out)) (msg_bytes r @ later) = Inr (data r, later)"
proof -
  let ?n = "length out"
  note size = result_size [OF assms(3) refl]
  have len: "length (msg_bytes r) = sizeof_msg + ?n" using assms(2) by (simp add: length_msg_bytes)
  have "Client_read (sizeof_msg + ?n) (msg_bytes r @ later) = Inr (msg_bytes r, later)"
    using len by (simp add: Client_read_def)
  moreover have "unat (dataBytes r) = ?n" using assms(1,2) by (simp add: wf_msg_def)
  ultimately show ?thesis
    using assms(2) unfolding Client_getResult_def size Let_def nat_int
    by (simp add: bytes_msg_msg_bytes memcpy_at_def)
qed

text \<open>Messages of the expected size that are not results are skipped.\<close>

lemma read_until_result_skips:
  assumes "\<forall>m\<in>set ms. msgId m \<noteq> MSG_RESULT \<and> length (msg_bytes m) = n"
    and "msgId r = MSG_RESULT" "length (msg_bytes r) = n"
  shows "read_until_result n (concat (map msg_bytes ms) @ msg_bytes r @ later) = Inr (r, later)"
  using assms(1)
proof (induction ms)
  case Nil
  have "\<not> n < sizeof_msg" using assms(3) by (simp add: length_msg_bytes)
  then show ?case using assms(2,3) by (subst read_until_result.simps) (simp add: bytes_msg_msg_bytes)
next
  case (Cons m ms)
  then have "length (msg_bytes m) = n" "msgId m \<noteq> MSG_RESULT" by auto
  moreover from this have "\<not> n < sizeof_msg" by (simp add: length_msg_bytes)
  ultimately show ?case using Cons
    by (subst read_until_result.simps) (simp add: bytes_msg_msg_bytes)
qed

lemma stub_port_client: "0 < atoi s \<Longrightarrow> stub_port (Some s) = 8110 + atoi s"
  by (simp add: stub_port_def stub_client_id_def)

text \<open>A dispatch whose peer answers with a result of the size of the request's data.\<close>

lemma Resource_dispatch_reply:
  assumes "wf_msg m" "unat (dataSize m) < 2 ^ 28" "msgId r = MSG_RESULT" "length (data r) = 4 * unat (dataSize m)"
  shows "Resource_dispatch res (Some m) (msg_bytes r @ inp) =
    Inr (Some r, msg_bytes (dispatch_request res m) @ msg_bytes msg_done)"
proof -
  let ?d = "unat (dataSize m)" and ?s = "sint (ucast (of_nat sizeof_msg + 4 * dataSize m :: size_t) :: i32)"
  have "wf_msg (dispatch_request res m)" using assms(1) by (simp add: dispatch_request_def wf_msg_def Let_def)
  then have send: "Client_send (dispatch_request res m) = Inr (msg_bytes (dispatch_request res m))"
    by (simp add: Client_send_def write_wf_msg)
  have "4 * ?d + sizeof_msg < 2 ^ 31" "4 * dataSize m = of_nat (4 * ?d)" using assms(2) by (simp_all add: sizeof_msg_def)
  from reply_size(2,3) [OF this] have "\<not> ?s < 0" "nat ?s = sizeof_msg + 4 * ?d" .
  moreover have "read_until_result (sizeof_msg + 4 * ?d) (msg_bytes r @ inp) = Inr (r, inp)"
    using read_until_result_skips [of "[]" _ r inp] assms(3,4) by (simp add: length_msg_bytes)
  ultimately show ?thesis using send by (simp add: Resource_dispatch_def msg_done_bytes)
qed

end
