(* ===== verification/Dispatcher_Server.thy ===== *)
theory Dispatcher_Server
  imports Client_Model Server_Pool "HOL-Library.Signed_Division"
begin

unbundle bit_operations_syntax

text \<open>
  The dispatcher (\<open>src/dispatcher/DispatcherServer.cpp\<close>): the CPU moving average, the calls
  to the DFE library, and \<open>handle_request\<close>. The library is a third-party package and only
  linked with \<open>USEDFE\<close>: it is an argument, \<open>None\<close> when not compiled in. The time a request
  took and the value of the uninitialised variable \<open>res\<close> are arguments too.
\<close>

section \<open>Moving averages on the CPU\<close>

text \<open>
  \<open>for (j = 0; j < size; j++) out[i] += data[i + j]\<close>. Signed overflow wraps, as on the
  program's targets.
\<close>

function window_sum :: "i32 list \<Rightarrow> nat \<Rightarrow> nat \<Rightarrow> nat \<Rightarrow> i32 \<Rightarrow> i32 result" where
  "window_sum xs sz i j acc =
     (if j < sz
      then if i + j < length xs then window_sum xs sz i (Suc j) (acc + xs ! (i + j)) else Inl Out_Of_Bounds
      else Inr acc)"
  by pat_completeness auto
termination by (relation "measure (\<lambda>(xs, sz, i, j, acc). length xs - (i + j))") auto

declare window_sum.simps [simp del]

text \<open>\<open>out[i] /= size\<close>: both operands are converted to \<open>size_t\<close>, the quotient back to \<open>int\<close>.\<close>

definition div_size :: "i32 \<Rightarrow> size_t \<Rightarrow> i32 result" where
  "div_size x sz = (if sz = 0 then Inl Division_By_Zero else Inr (ucast ((scast x :: size_t) div sz)))"

text \<open>\<open>for (i = 0; i <= n - size; i++)\<close> with the bound computed in \<open>size_t\<close>.\<close>

function average_loop :: "i32 list \<Rightarrow> size_t \<Rightarrow> nat \<Rightarrow> nat \<Rightarrow> i32 list \<Rightarrow> i32 list result" where
  "average_loop xs sz bound i out =
     (if i \<le> bound
      then if i < length out
           then bindR (window_sum xs (unat sz) i 0 0) (\<lambda>s.
                  bindR (div_size s sz) (\<lambda>a. average_loop xs sz bound (Suc i) (out[i := a])))
           else Inl Out_Of_Bounds
      else Inr out)"
  by pat_completeness auto
termination by (relation "measure (\<lambda>(xs, sz, bound, i, out). length out - i)") auto

declare average_loop.simps [simp del]

definition clear_from :: "nat \<Rightarrow> 'a::zero list \<Rightarrow> 'a list" where
  "clear_from k out = take k out @ replicate (length out - k) 0"

text \<open>
  \<open>movingAverage_cpu(n, size, data, out)\<close> for arrays \<open>data\<close> and \<open>out\<close> of \<open>n\<close> elements.
  The final rotation needs a last element.
\<close>

definition movingAverage_cpu :: "size_t \<Rightarrow> size_t \<Rightarrow> i32 list \<Rightarrow> i32 list \<Rightarrow> i32 list result" where
  "movingAverage_cpu n sz xs out =
     bindR (average_loop xs sz (unat (n - sz)) 0 out) (\<lambda>out1.
       let out2 = clear_from (unat (n - sz + 1)) out1
       in if n = 0 then Inl Out_Of_Bounds else Inr (std_rotate (unat (n - 1)) out2))"

section \<open>The DFE library\<close>

record dfe_library =
  MovingAverageDFE :: "i32 \<Rightarrow> i32 \<Rightarrow> i32 list \<Rightarrow> i32 list \<Rightarrow> i32 \<Rightarrow> byte list list \<Rightarrow> i32 list"
  optionPricingDFE :: "64 word \<Rightarrow> 64 word \<Rightarrow> 64 word \<Rightarrow> i32 \<Rightarrow> i32 \<Rightarrow> i32 \<Rightarrow> 64 word \<Rightarrow> i32 \<Rightarrow> 64 word"

definition movingAverage_dfe_ids ::
  "dfe_library option \<Rightarrow> i32 \<Rightarrow> i32 \<Rightarrow> i32 list \<Rightarrow> i32 list \<Rightarrow> byte list list \<Rightarrow> i32 \<Rightarrow> i32 list" where
  "movingAverage_dfe_ids lib n sz xs out dfeIds nDFEs =
     (case lib of None \<Rightarrow> out | Some l \<Rightarrow> MovingAverageDFE l sz n xs out nDFEs dfeIds)"

definition movingAverage_dfe :: "dfe_library option \<Rightarrow> i32 \<Rightarrow> i32 \<Rightarrow> i32 list \<Rightarrow> i32 list \<Rightarrow> i32 list" where
  "movingAverage_dfe lib n sz xs out =
     movingAverage_dfe_ids lib n sz xs out [[49], [50], [51], [52]] 2"

definition optionPricing_dfe ::
  "dfe_library option \<Rightarrow> 64 word \<Rightarrow> 64 word \<Rightarrow> 64 word \<Rightarrow> i32 \<Rightarrow> i32 \<Rightarrow> i32 \<Rightarrow> 64 word \<Rightarrow> 64 word \<Rightarrow> i32 \<Rightarrow> 64 word" where
  "optionPricing_dfe lib strike sigma timestep numMaturity paraNode numPathGroup T res nDFEs =
     (case lib of None \<Rightarrow> res
      | Some l \<Rightarrow> optionPricingDFE l strike sigma timestep numMaturity paraNode numPathGroup T nDFEs)"

section \<open>handle_request\<close>

text \<open>The ids of the DFEs whose bit is set, each the one character the source stores.\<close>

definition dfe_ids :: "msg \<Rightarrow> byte list list" where
  "dfe_ids m = map (\<lambda>i. [of_nat (48 + i)])
     (filter (\<lambda>i. (push_bit i 1 AND (scast (rids m) :: i32)) \<noteq> 0) [0..<4])"

definition moving_average_reply :: "msg \<Rightarrow> i32 \<Rightarrow> i32 list \<Rightarrow> msg result" where
  "moving_average_reply request elapsed out =
     (let dBytes = (ucast (dataSize request * 4) :: i32);
          sizeBytes = of_nat sizeof_msg + (scast dBytes :: size_t);
          nBytes = unat (4 * dataSize request)
      in bindR (calloc_msg sizeBytes) (\<lambda>response.
           bindR (memcpy_at 0 (take nBytes (ints_bytes out)) (data response)) (\<lambda>d.
             Inr (response\<lparr>msgId := MSG_RESULT, dataSize := dataSize request, paramsSize := 0,
               totalBytes := sizeBytes, dataBytes := scast dBytes,
               predictedTimeMillis := elapsed, data := d\<rparr>))))"

definition handle_moving_average :: "dfe_library option \<Rightarrow> i32 \<Rightarrow> msg \<Rightarrow> msg result" where
  "handle_moving_average lib elapsed request =
     (let n = dataSize request; nBytes = unat (4 * n); useDfe = (lib \<noteq> None);
          ids = dfe_ids request
      in if length (data request) < nBytes then Inl Out_Of_Bounds
         else if 2 ^ 63 \<le> 4 * unat n then Inl Null_Deref
         else (let data_in = bytes_ints (unat n) (take nBytes (data request)); out0 = replicate (unat n) 0 in
           bindR (firstParam request) (\<lambda>w.
             bindR (if resourceType request = DFE \<and> useDfe
                    then Inr (if ids \<noteq> [] then movingAverage_dfe_ids lib (ucast n) w data_in out0 ids (of_nat (length ids))
                              else movingAverage_dfe lib (ucast n) w data_in out0)
                    else movingAverage_cpu n (scast w) data_in out0) (\<lambda>out.
               moving_average_reply request elapsed out))))"

definition handle_option_price :: "dfe_library option \<Rightarrow> 64 word \<Rightarrow> msg \<Rightarrow> msg result" where
  "handle_option_price lib garbage request =
     (if length (data request) < 44 then Inl Out_Of_Bounds
      else (let d = data request;
                res = optionPricing_dfe lib (bytes_word (take_field 0 8 d)) (bytes_word (take_field 8 8 d))
                  (bytes_word (take_field 16 8 d)) (bytes_word (take_field 24 4 d))
                  (bytes_word (take_field 28 4 d)) (bytes_word (take_field 32 4 d))
                  (bytes_word (take_field 36 8 d)) garbage (of_nat (nDfes request))
            in bindR (calloc_msg (of_nat (sizeof_msg + 8))) (\<lambda>response.
                 bindR (memcpy_at 0 (word_bytes res) (data response)) (\<lambda>d'.
                   Inr (response\<lparr>msgId := MSG_RESULT, dataSize := 1, paramsSize := 0,
                     totalBytes := of_nat (sizeof_msg + 8), dataBytes := 8, data := d'\<rparr>)))))"

definition dispatcher_handle_request ::
  "dfe_library option \<Rightarrow> 64 word \<Rightarrow> i32 \<Rightarrow> msg \<Rightarrow> msg result" where
  "dispatcher_handle_request lib garbage elapsed request =
     (if msgId request = MSG_MOVING_AVG then handle_moving_average lib elapsed request
      else if msgId request = MSG_OPTION_PRICE then handle_option_price lib garbage request
      else Inr msg_empty)"

section \<open>The process\<close>

text \<open>
  The host and port \<open>Dispatcher\<close> listens on, as text, and its server with four threads; \<open>main\<close>
  ends with 1 without an argument for the port.
\<close>

definition Dispatcher_new :: "int \<Rightarrow> string \<Rightarrow> (string \<times> string) \<times> unit pool" where
  "Dispatcher_new portNumber name = ((name, show_int portNumber), Server_new 4 ())"

definition dispatcher_process :: "string list \<Rightarrow> int + (string \<times> string) \<times> unit pool" where
  "dispatcher_process argv =
     (if length argv < 2 then Inl 1 else Inr (Dispatcher_new (atoi (argv ! 1)) ''localhost''))"

section \<open>The reference of the tests\<close>

text \<open>
  \<open>mavg_data\<close>, \<open>mavg_threept_exp\<close> and \<open>mavg_check\<close> of \<open>test/TestLib.cpp\<close>, on integers;
  \<open>sdiv\<close> rounds towards zero.
\<close>

definition mavg_data :: "nat \<Rightarrow> int list" where
  "mavg_data n = map (\<lambda>i. int i + 1) [0..<n]"

definition mavg_threept_exp :: "nat \<Rightarrow> int list \<Rightarrow> int list" where
  "mavg_threept_exp n a = map (\<lambda>i.
     if i = 0 then (a ! 0 + a ! 1) sdiv 3
     else if i = n - 1 then (a ! (n - 1) + a ! (n - 2)) sdiv 3
     else (a ! (i - 1) + a ! i + a ! (i + 1)) sdiv 3) [0..<n]"

definition mavg_check :: "nat \<Rightarrow> int list \<Rightarrow> int list \<Rightarrow> bool" where
  "mavg_check n out ex \<longleftrightarrow> (\<forall>i\<in>set [1..<n - 1]. out ! i = ex ! i)"

section \<open>The CPU loops\<close>

lemma window_sum_eq:
  assumes "i + sz \<le> length xs" "j \<le> sz"
  shows "window_sum xs sz i j acc = Inr (acc + (\<Sum>k\<leftarrow>[j..<sz]. xs ! (i + k)))"
  using assms
proof (induction "sz - j" arbitrary: j acc)
  case 0
  then show ?case by (simp add: window_sum.simps)
next
  case (Suc d)
  then have j: "j < sz" by simp
  with Suc have "window_sum xs sz i (Suc j) (acc + xs ! (i + j)) =
      Inr ((acc + xs ! (i + j)) + (\<Sum>k\<leftarrow>[Suc j..<sz]. xs ! (i + k)))"
    by (intro Suc.hyps(1)) auto
  with j Suc.prems show ?case
    by (simp add: window_sum.simps [of _ _ _ j] upt_conv_Cons add.assoc)
qed

lemma window_sum_out_of_bounds:
  assumes "length xs < i + sz" "j \<le> sz" "i + j \<le> length xs"
  shows "window_sum xs sz i j acc = Inl Out_Of_Bounds"
  using assms
proof (induction "length xs - (i + j)" arbitrary: j acc)
  case 0
  then show ?case by (simp add: window_sum.simps)
next
  case (Suc d)
  then have "window_sum xs sz i (Suc j) (acc + xs ! (i + j)) = Inl Out_Of_Bounds"
    by (intro Suc.hyps(1)) auto
  with Suc show ?case by (simp add: window_sum.simps [of _ _ _ j])
qed

text \<open>The average of the window at \<open>i\<close>, as the machine computes it.\<close>

definition window_average :: "i32 list \<Rightarrow> size_t \<Rightarrow> nat \<Rightarrow> i32" where
  "window_average xs sz i =
     ucast ((scast (\<Sum>k\<leftarrow>[0..<unat sz]. xs ! (i + k)) :: size_t) div sz)"

lemma average_loop_eq:
  assumes "sz \<noteq> 0" "bound + unat sz \<le> length xs" "length out = length xs" "i \<le> Suc bound"
  shows "average_loop xs sz bound i out =
    Inr (take i out @ map (window_average xs sz) [i..<Suc bound] @ drop (Suc bound) out)"
  using assms(3,4)
proof (induction "Suc bound - i" arbitrary: i out)
  case 0
  then show ?case by (simp add: average_loop.simps)
next
  case (Suc d)
  have "0 < unat sz" using assms(1) by (simp add: unat_gt_0)
  then have i: "i \<le> bound" "i < length out" using Suc assms(2) by linarith+
  have "window_sum xs (unat sz) i 0 0 = Inr (\<Sum>k\<leftarrow>[0..<unat sz]. xs ! (i + k))"
    using assms(2) i by (subst window_sum_eq) auto
  then have "average_loop xs sz bound i out =
      average_loop xs sz bound (Suc i) (out[i := window_average xs sz i])"
    using i assms(1) by (simp add: average_loop.simps [of _ _ _ i] div_size_def window_average_def)
  also have "\<dots> = Inr (take (Suc i) (out[i := window_average xs sz i]) @
      map (window_average xs sz) [Suc i..<Suc bound] @ drop (Suc bound) (out[i := window_average xs sz i]))"
    using Suc i by (intro Suc.hyps(1)) auto
  also have "\<dots> = Inr (take i out @ map (window_average xs sz) [i..<Suc bound] @ drop (Suc bound) out)"
    using i by (simp add: take_Suc_conv_app_nth upt_conv_Cons del: upt_Suc)
  finally show ?case .
qed

definition moving_averages :: "i32 list \<Rightarrow> size_t \<Rightarrow> i32 list" where
  "moving_averages xs sz =
     map (window_average xs sz) [0..<Suc (length xs - unat sz)] @ replicate (unat sz - 1) 0"

lemma movingAverage_cpu_eq:
  assumes "length xs < 2 ^ 64" "sz \<noteq> 0" "unat sz \<le> length xs" "length out = length xs"
  shows "movingAverage_cpu (of_nat (length xs)) sz xs out =
    Inr (last (moving_averages xs sz) # butlast (moving_averages xs sz))"
proof -
  let ?N = "length xs"
  have pos: "0 < unat sz" using assms(2) by (simp add: unat_gt_0)
  have n: "unat (of_nat ?N :: size_t) = ?N" using assms(1) by (rule unat_of_nat_small)
  have sub: "(of_nat ?N :: size_t) - sz = of_nat (?N - unat sz)"
    using assms(3) by (simp add: of_nat_diff)
  have u: "unat ((of_nat ?N :: size_t) - sz) = ?N - unat sz"
    unfolding sub using assms(1) by (intro unat_of_nat_small) simp
  have "(of_nat ?N :: size_t) - sz + 1 = of_nat (Suc (?N - unat sz))" unfolding sub by simp
  then have u1: "unat ((of_nat ?N :: size_t) - sz + 1) = Suc (?N - unat sz)"
    using assms(1,3) pos by (simp only: unat_of_nat_small)
  have "(of_nat ?N :: size_t) - 1 = of_nat (?N - 1)" using pos assms(3) by (simp add: of_nat_diff)
  then have u2: "unat ((of_nat ?N :: size_t) - 1) = ?N - 1" using assms(1) by (simp only: unat_of_nat_small)
  have n0: "(of_nat ?N :: size_t) \<noteq> 0" using n pos assms(3) by auto
  have loop: "average_loop xs sz (?N - unat sz) 0 out =
      Inr (map (window_average xs sz) [0..<Suc (?N - unat sz)] @ drop (Suc (?N - unat sz)) out)"
    using average_loop_eq [OF assms(2), of "?N - unat sz" xs out 0] assms(3,4) by simp
  have clear: "clear_from (Suc (?N - unat sz))
      (map (window_average xs sz) [0..<Suc (?N - unat sz)] @ drop (Suc (?N - unat sz)) out) =
      moving_averages xs sz"
    using assms(3,4) pos by (simp add: clear_from_def moving_averages_def del: upt_Suc)
  have "length (moving_averages xs sz) = ?N" "moving_averages xs sz \<noteq> []"
    using assms(3) pos by (simp_all add: moving_averages_def)
  then have rot: "std_rotate (?N - 1) (moving_averages xs sz) =
      last (moving_averages xs sz) # butlast (moving_averages xs sz)"
    using std_rotate_last [of "moving_averages xs sz"] by simp
  show ?thesis
    unfolding movingAverage_cpu_def u u1 u2 loop bindR.simps clear Let_def rot using n0 by simp
qed

lemma movingAverage_cpu_zero_width:
  assumes "0 < length xs" "length xs < 2 ^ 64" "length out = length xs"
  shows "movingAverage_cpu (of_nat (length xs)) 0 xs out = Inl Division_By_Zero"
proof -
  have "out \<noteq> []" using assms by auto
  then show ?thesis
    by (simp add: movingAverage_cpu_def average_loop.simps [of _ _ _ 0] window_sum.simps div_size_def)
qed

lemma movingAverage_cpu_wide:
  assumes "length xs < unat sz" "length out = length xs"
  shows "movingAverage_cpu (of_nat (length xs)) sz xs out = Inl Out_Of_Bounds"
proof -
  have "window_sum xs (unat sz) 0 0 0 = Inl Out_Of_Bounds"
    using assms(1) by (intro window_sum_out_of_bounds) simp_all
  then show ?thesis
    by (simp add: movingAverage_cpu_def average_loop.simps [of _ _ _ 0])
qed

section \<open>The value of an average\<close>

lemma sum_of_int_sint: "(\<Sum>k\<leftarrow>ks. xs ! f k :: i32) = of_int (\<Sum>k\<leftarrow>ks. sint (xs ! f k))"
  by (induction ks) simp_all

text \<open>With a window sum that is not negative and fits an \<open>int\<close>, the integer average.\<close>

lemma window_average_value:
  assumes "Z = (\<Sum>k\<leftarrow>[0..<unat sz]. sint (xs ! (i + k)))" "0 \<le> Z" "Z < 2 ^ 31" "sz \<noteq> 0"
  shows "sint (window_average xs sz i) = Z div int (unat sz)"
proof -
  let ?k = "nat Z"
  have k: "?k < 2 ^ 31" "int ?k = Z" using assms(2,3) by auto
  have "(\<Sum>k\<leftarrow>[0..<unat sz]. xs ! (i + k)) = (of_nat ?k :: i32)"
    using sum_of_int_sint [of xs "\<lambda>k. i + k" "[0..<unat sz]"] assms(1) k(2) by (metis of_int_of_nat_eq)
  then have "(scast (\<Sum>k\<leftarrow>[0..<unat sz]. xs ! (i + k)) :: size_t) = of_nat ?k"
    using scast_of_nat_small [OF k(1)] by simp
  moreover have "(of_nat ?k :: size_t) div sz = of_nat (?k div unat sz)"
  proof -
    have "?k < 2 ^ 64" using k(1) by simp
    then have "?k div unat sz < 2 ^ 64" by (rule le_less_trans [OF div_le_dividend])
    then have "unat (of_nat (?k div unat sz) :: size_t) = ?k div unat sz" by (rule unat_of_nat_small)
    moreover have "unat (of_nat ?k :: size_t) = ?k" using k(1) by (intro unat_of_nat_small) simp
    ultimately show ?thesis by (metis unat_div_distrib word_unat_eq_iff)
  qed
  ultimately have "window_average xs sz i = of_nat (?k div unat sz)"
    unfolding window_average_def by (simp add: ucast_of_nat)
  moreover have "?k div unat sz < 2 ^ 31" using k(1) by (meson div_le_dividend le_less_trans)
  ultimately have "sint (window_average xs sz i) = int (?k div unat sz)"
    using sint_of_nat_small by metis
  then show ?thesis using k(2) by (simp add: zdiv_int)
qed

section \<open>Replies\<close>

lemma moving_average_reply_wf:
  assumes "moving_average_reply m t out = Inr r" "length out = unat (dataSize m)" "4 * unat (dataSize m) < 2 ^ 63"
  shows "wf_msg r"
proof -
  let ?n = "unat (dataSize m)" and ?d = "(ucast (dataSize m * 4) :: i32)"
  let ?s = "of_nat sizeof_msg + (scast ?d :: size_t)"
  have nb: "unat (4 * dataSize m) = 4 * ?n"
    using unat_of_nat_small [of "4 * ?n"] assms(3) by simp
  from assms(1) obtain c d where c: "calloc_msg ?s = Inr c"
    and d: "memcpy_at 0 (take (4 * ?n) (ints_bytes out)) (data c) = Inr d"
    and r: "r = c\<lparr>msgId := MSG_RESULT, dataSize := dataSize m, paramsSize := 0,
               totalBytes := ?s, dataBytes := scast ?d, predictedTimeMillis := t, data := d\<rparr>"
    by (auto simp: moving_average_reply_def Let_def bindR_eq_Inr nb)
  have small: "unat ?s < 2 ^ 63" "sizeof_msg \<le> unat ?s" "data c = replicate (unat ?s - sizeof_msg) 0"
    using c by (auto simp: calloc_msg_def zero_msg_def split: if_splits)
  have "unat (scast ?d :: size_t) = unat ?s - sizeof_msg"
  proof -
    have "(scast ?d :: size_t) = ?s - of_nat sizeof_msg" by simp
    also have "\<dots> = of_nat (unat ?s - sizeof_msg)" using small(2) by (simp add: of_nat_diff)
    finally have e: "(scast ?d :: size_t) = of_nat (unat ?s - sizeof_msg)" .
    have "unat ?s - sizeof_msg < 2 ^ 64" using small(1) by simp
    then show ?thesis by (rule trans [OF arg_cong [OF e, of unat] unat_of_nat_small])
  qed
  moreover have "length d = length (data c)" using d by (auto simp: memcpy_at_def split: if_splits)
  ultimately show ?thesis using r small by (simp add: wf_msg_def)
qed

lemma length_average_loop: "average_loop xs sz b i out = Inr out' \<Longrightarrow> length out' = length out"
proof (induction xs sz b i out rule: average_loop.induct)
  case (1 xs sz b i out)
  then show ?case
    by (subst (asm) average_loop.simps) (auto simp: bindR_eq_Inr split: if_splits)
qed

lemma length_movingAverage_cpu:
  assumes "movingAverage_cpu n sz xs out = Inr out'" "length out = unat n"
  shows "length out' = unat n"
proof -
  from assms(1) obtain o1 where "average_loop xs sz (unat (n - sz)) 0 out = Inr o1"
    and o: "out' = std_rotate (unat (n - 1)) (clear_from (unat (n - sz + 1)) o1)"
    by (auto simp: movingAverage_cpu_def bindR_eq_Inr Let_def split: if_splits)
  then have "length o1 = unat n" using length_average_loop assms(2) by metis
  moreover from this have "length (clear_from (unat (n - sz + 1)) o1) = unat n"
    by (simp add: clear_from_def)
  ultimately show ?thesis using o by simp
qed

text \<open>What the library must do for its part of the contract: fill the array it is given.\<close>

definition library_ok :: "dfe_library option \<Rightarrow> bool" where
  "library_ok lib \<longleftrightarrow> (\<forall>l. lib = Some l \<longrightarrow>
     (\<forall>sz n xs out k ids. length (MovingAverageDFE l sz n xs out k ids) = length out))"

lemma handle_moving_average_out:
  assumes "library_ok lib" "handle_moving_average lib t m = Inr r"
  shows "\<exists>out. \<not> 2 ^ 63 \<le> 4 * unat (dataSize m) \<and> length out = unat (dataSize m) \<and>
    moving_average_reply m t out = Inr r"
proof -
  let ?n = "dataSize m" and ?z = "replicate (unat (dataSize m)) (0 :: i32)"
  let ?in = "bytes_ints (unat ?n) (take (unat (4 * ?n)) (data m))"
  have small: "\<not> length (data m) < unat (4 * ?n)" "\<not> 2 ^ 63 \<le> 4 * unat ?n"
    using assms(2) unfolding handle_moving_average_def Let_def by (metis sum.distinct(1))+
  with assms(2) obtain w out where
    run: "(if resourceType m = DFE \<and> lib \<noteq> None
       then Inr (if dfe_ids m \<noteq> [] then movingAverage_dfe_ids lib (ucast ?n) w ?in ?z (dfe_ids m) (of_nat (length (dfe_ids m)))
                 else movingAverage_dfe lib (ucast ?n) w ?in ?z)
       else movingAverage_cpu ?n (scast w) ?in ?z) = Inr out"
    and out: "moving_average_reply m t out = Inr r"
    unfolding handle_moving_average_def Let_def by (auto simp only: if_False bindR_eq_Inr)
  have dfe: "length (movingAverage_dfe_ids lib n sz xs ?z ids k) = unat ?n" for n sz xs ids k
    using assms(1) by (cases lib) (simp_all add: movingAverage_dfe_ids_def library_ok_def)
  have "length out = unat ?n"
  proof (cases "resourceType m = DFE \<and> lib \<noteq> None")
    case True
    then show ?thesis using run dfe by (auto simp: movingAverage_dfe_def split: if_splits)
  next
    case False
    then have "movingAverage_cpu ?n (scast w) ?in ?z = Inr out" using run by metis
    then show ?thesis by (rule length_movingAverage_cpu) simp
  qed
  with small out show ?thesis by blast
qed

lemma dispatcher_reply_wf:
  assumes "library_ok lib" "dispatcher_handle_request lib g t m = Inr r"
  shows "wf_msg r"
proof -
  consider (avg) "handle_moving_average lib t m = Inr r" | (opt) "handle_option_price lib g m = Inr r"
    | (other) "r = msg_empty"
    using assms(2) unfolding dispatcher_handle_request_def by (metis sum.inject(2))
  then show ?thesis
  proof cases
    case avg
    with handle_moving_average_out [OF assms(1)] obtain out where
      "\<not> 2 ^ 63 \<le> 4 * unat (dataSize m)" "length out = unat (dataSize m)"
      "moving_average_reply m t out = Inr r" by blast
    then show ?thesis by (intro moving_average_reply_wf) (simp_all only: not_le)
  next
    case opt
    have "calloc_msg (of_nat (sizeof_msg + 8)) = Inr (zero_msg 8)"
      by (subst calloc_msg_of_nat) (simp_all add: sizeof_msg_def)
    with opt show ?thesis
      by (auto simp: handle_option_price_def Let_def bindR_eq_Inr memcpy_at_def zero_msg_def
          wf_msg_def sizeof_msg_def split: if_splits)
  next
    case other
    then show ?thesis by (simp add: wf_msg_def msg_empty_def zero_msg_def sizeof_msg_def)
  qed
qed

section \<open>The dispatcher as a server\<close>

definition dispatcher_serve ::
  "dfe_library option \<Rightarrow> 64 word \<Rightarrow> i32 \<Rightarrow> msg \<Rightarrow> unit \<Rightarrow> (msg option \<times> unit) result" where
  "dispatcher_serve lib g t m s = bindR (dispatcher_handle_request lib g t m) (\<lambda>r. Inr (Some r, s))"

lemma firstParam_trailing:
  "firstParam m = Inr w \<Longrightarrow> firstParam (m\<lparr>data := data m @ junk\<rparr>) = Inr w"
  by (auto simp: firstParam_def Let_def nth_append split: if_splits)

lemma handle_moving_average_trailing:
  assumes "handle_moving_average lib t m = Inr r"
  shows "handle_moving_average lib t (m\<lparr>data := data m @ junk\<rparr>) = Inr r"
proof -
  let ?m = "m\<lparr>data := data m @ junk\<rparr>" and ?k = "unat (4 * dataSize m)"
  have small: "\<not> length (data m) < ?k" "\<not> 2 ^ 63 \<le> 4 * unat (dataSize m)"
    using assms unfolding handle_moving_average_def Let_def by (metis sum.distinct(1))+
  then obtain w where w: "firstParam m = Inr w"
    using assms unfolding handle_moving_average_def Let_def by (auto simp only: if_False bindR_eq_Inr)
  have w': "firstParam ?m = Inr w" using firstParam_trailing [OF w] .
  have tk: "take ?k (data m @ junk) = take ?k (data m)" using small(1) by simp
  have f: "dataSize ?m = dataSize m" "data ?m = data m @ junk" "resourceType ?m = resourceType m" by simp_all
  have ids: "dfe_ids ?m = dfe_ids m" by (simp add: dfe_ids_def)
  have rep: "moving_average_reply ?m = moving_average_reply m"
    by (simp add: moving_average_reply_def fun_eq_iff)
  show ?thesis
    using assms small unfolding handle_moving_average_def Let_def w w' bindR.simps ids rep f tk
    by (simp split del: if_split)
qed

lemma handle_option_price_trailing:
  assumes "handle_option_price lib g m = Inr r"
  shows "handle_option_price lib g (m\<lparr>data := data m @ junk\<rparr>) = Inr r"
proof -
  have len: "44 \<le> length (data m)" using assms by (auto simp: handle_option_price_def split: if_splits)
  have n: "nDfes (m\<lparr>data := data m @ junk\<rparr>) = nDfes m" by (simp add: nDfes_def)
  show ?thesis using assms len
    unfolding handle_option_price_def n by (simp add: take_field_append1 Let_def)
qed

lemma dispatcher_request_server:
  assumes "library_ok lib"
  shows "request_server (dispatcher_serve lib g t)"
proof (unfold_locales, goal_cases)
  case (1 m s r s')
  then show ?case using dispatcher_reply_wf [OF assms] by (auto simp: dispatcher_serve_def bindR_eq_Inr)
next
  case (2 m s x junk)
  then obtain r where r: "dispatcher_handle_request lib g t m = Inr r" "x = (Some r, s)"
    by (auto simp: dispatcher_serve_def bindR_eq_Inr)
  have "dispatcher_handle_request lib g t (m\<lparr>data := data m @ junk\<rparr>) = Inr r"
    using r(1) handle_moving_average_trailing handle_option_price_trailing
    by (simp add: dispatcher_handle_request_def split: if_splits)
  with r(2) show ?case by (simp add: dispatcher_serve_def)
qed

interpretation cpu_dispatcher: request_server "dispatcher_serve None g t"
  for g t by (rule dispatcher_request_server) (simp add: library_ok_def)

section \<open>A moving-average request, end to end\<close>

lemma ucast_width: "unat (w :: size_t) < 128 \<Longrightarrow> (scast (scast (ucast w :: byte) :: i32) :: size_t) = w"
proof -
  assume w: "unat w < 128"
  have "(scast (scast (ucast w :: byte) :: i32) :: size_t) = of_int (sint (scast (ucast w :: byte) :: i32))"
    by (rule scast_eq)
  also have "\<dots> = of_int (int (unat w))" by (simp only: sint_firstParam_small [OF w])
  finally show ?thesis by simp
qed

lemma moving_average_reply_eq:
  assumes "unat (dataSize m) = length out" "4 * length out + 77 < 2 ^ 31"
  shows "moving_average_reply m t out = Inr ((zero_msg 0)\<lparr>msgId := MSG_RESULT, predictedTimeMillis := t,
     dataSize := dataSize m, totalBytes := of_nat (sizeof_msg + 4 * length out),
     dataBytes := of_nat (4 * length out), data := ints_bytes out\<rparr>)"
proof -
  let ?n = "length out"
  have ds: "dataSize m = of_nat ?n" using assms(1) by (metis of_nat_unat ucast_id)
  have db: "(ucast (dataSize m * 4) :: i32) = of_nat (4 * ?n)"
    using ucast_of_nat [of "4 * ?n"] ds by (simp add: mult.commute)
  have sc: "(scast (ucast (dataSize m * 4) :: i32) :: size_t) = of_nat (4 * ?n)"
    unfolding db by (rule scast_of_nat_small) (use assms(2) in simp)
  have sz: "of_nat sizeof_msg + (of_nat (4 * ?n) :: size_t) = of_nat (sizeof_msg + 4 * ?n)" by simp
  have nb: "unat (4 * dataSize m) = 4 * ?n"
    using unat_of_nat_small [of "4 * ?n"] assms(2) ds by simp
  have cal: "calloc_msg (of_nat (sizeof_msg + 4 * ?n)) = Inr (zero_msg (4 * ?n))"
    using assms(2) by (subst calloc_msg_of_nat) (simp_all add: sizeof_msg_def)
  show ?thesis
    unfolding moving_average_reply_def Let_def sc sz nb cal
    by (simp add: memcpy_at_def zero_msg_def)
qed

text \<open>The request as a client builds it, the reply as the CPU dispatcher computes it.\<close>

lemma dispatcher_moving_average:
  assumes "4 * length xs + 77 < 2 ^ 31" "0 < unat w" "unat w < 128" "unat w \<le> length xs"
    and "msgId m = MSG_MOVING_AVG" "dataSize m = of_nat (length xs)" "data m = ints_bytes xs @ word_bytes w"
  shows "dispatcher_handle_request None g t m = Inr ((zero_msg 0)\<lparr>msgId := MSG_RESULT,
     predictedTimeMillis := t, dataSize := of_nat (length xs),
     totalBytes := of_nat (sizeof_msg + 4 * length xs), dataBytes := of_nat (4 * length xs),
     data := ints_bytes (last (moving_averages xs w) # butlast (moving_averages xs w))\<rparr>)"
proof -
  let ?N = "length xs" and ?out = "last (moving_averages xs w) # butlast (moving_averages xs w)"
  note ds = assms(6,7)
  have n: "unat (of_nat ?N :: size_t) = ?N" "unat (4 * (of_nat ?N :: size_t)) = 4 * ?N"
    using unat_of_nat_small [of ?N] unat_of_nat_small [of "4 * ?N"] assms(1) by simp_all
  have "firstParam m = firstParam (moving_avg_msg w xs)"
    by (simp add: ds firstParam_def moving_avg_msg_def Let_def)
  then have fp: "firstParam m = Inr (scast (ucast w :: byte))" using firstParam_moving_avg [OF assms(1)] by simp
  have ints: "bytes_ints ?N (take (4 * ?N) (data m)) = xs"
    using bytes_ints_ints_bytes [of xs ?N "[]"] by (simp add: ds)
  have "w \<noteq> 0" using assms(2) by auto
  then have cpu: "movingAverage_cpu (of_nat ?N) w xs (replicate ?N 0) = Inr ?out"
    using movingAverage_cpu_eq [of xs w "replicate ?N 0"] assms(1,4) by simp
  have len: "length ?out = ?N" using assms(2,4) by (simp add: moving_averages_def)
  have "moving_average_reply m t ?out = Inr ((zero_msg 0)\<lparr>msgId := MSG_RESULT, predictedTimeMillis := t,
     dataSize := dataSize m, totalBytes := of_nat (sizeof_msg + 4 * length ?out),
     dataBytes := of_nat (4 * length ?out), data := ints_bytes ?out\<rparr>)"
    using assms(1) len ds n(1) by (intro moving_average_reply_eq) simp_all
  moreover have "handle_moving_average None t m = moving_average_reply m t ?out"
    unfolding handle_moving_average_def Let_def ds(1) n fp bindR.simps ints ucast_width [OF assms(3)] cpu
    using assms(1) ds by simp
  ultimately show ?thesis using assms(5) unfolding dispatcher_handle_request_def len ds(1) by simp
qed

section \<open>Agreement with the tests\<close>

lemma sint_bound_sum3:
  assumes "\<forall>x\<in>set (xs :: i32 list). 0 \<le> sint x \<and> sint x < 2 ^ 29" "i + 2 < length xs"
  shows "0 \<le> (\<Sum>k\<leftarrow>[0..<3]. sint (xs ! (i + k))) \<and> (\<Sum>k\<leftarrow>[0..<3]. sint (xs ! (i + k))) < 2 ^ 31"
proof -
  have "xs ! i \<in> set xs" "xs ! (i + 1) \<in> set xs" "xs ! (i + 2) \<in> set xs" using assms(2) by auto
  with assms(1) have "0 \<le> sint (xs ! i) \<and> sint (xs ! i) < 2 ^ 29" "0 \<le> sint (xs ! (i + 1)) \<and> sint (xs ! (i + 1)) < 2 ^ 29"
    "0 \<le> sint (xs ! (i + 2)) \<and> sint (xs ! (i + 2)) < 2 ^ 29" by blast+
  then show ?thesis by (simp add: upt_rec)
qed

lemma sdiv_nonneg: "0 \<le> (a :: int) \<Longrightarrow> a sdiv 3 = a div 3"
  by (cases "a = 0") (simp_all add: signed_divide_int_def)

text \<open>The three-point averages the CPU returns, compared as the test does.\<close>

lemma moving_averages_three:
  assumes "3 \<le> length xs" "\<forall>x\<in>set xs. 0 \<le> sint x \<and> sint x < 2 ^ 29"
    and "out = last (moving_averages xs 3) # butlast (moving_averages xs 3)"
  shows "mavg_check (length xs) (map sint out) (mavg_threept_exp (length xs) (map sint xs))"
  unfolding mavg_check_def
proof
  fix i assume "i \<in> set [1..<length xs - 1]"
  then have "1 \<le> i" "i < length xs - 1" by (simp_all only: set_upt atLeastLessThan_iff)
  then obtain j where j: "i = Suc j" "j + 2 < length xs" by (cases i) auto
  then have jl: "j < Suc (length xs - 3)" and jn: "Suc j \<noteq> length xs - 1" by simp_all
  have lenm: "length (moving_averages xs 3) = length xs" using assms(1) by (simp add: moving_averages_def)
  then have "out ! i = moving_averages xs 3 ! j" using j by (simp add: assms(3) nth_butlast)
  also have "\<dots> = window_average xs 3 j" using j jl by (simp add: moving_averages_def nth_append del: upt_Suc)
  finally have "sint (out ! i) = (\<Sum>k\<leftarrow>[0..<3]. sint (xs ! (j + k))) div 3"
    using window_average_value [where xs = xs and i = j and sz = 3] sint_bound_sum3 [OF assms(2) j(2)] by simp
  also have "(\<Sum>k\<leftarrow>[0..<3]. sint (xs ! (j + k))) div 3 = (\<Sum>k\<leftarrow>[0..<3]. sint (xs ! (j + k))) sdiv 3"
    using sint_bound_sum3 [OF assms(2) j(2)] by (intro sdiv_nonneg [symmetric]) blast
  also have "(\<Sum>k\<leftarrow>[0..<3]. sint (xs ! (j + k))) = sint (xs ! j) + sint (xs ! (j + 1)) + sint (xs ! (j + 2))"
    by (simp add: upt_rec add.assoc)
  also have "\<dots> sdiv 3 = mavg_threept_exp (length xs) (map sint xs) ! i"
    using j jn by (simp add: mavg_threept_exp_def)
  finally show "map sint out ! i = mavg_threept_exp (length xs) (map sint xs) ! i"
    using j lenm by (simp add: assms(3))
qed

text \<open>A negative window sum is divided as a huge unsigned number.\<close>

lemma movingAverage_cpu_negative:
  "movingAverage_cpu 3 3 [- 1, - 1, - 1] [0, 0, 0] = Inr [0, 1431655764, 0]"
  by code_simp

lemma done_bytes: "length (msg_bytes msg_done) = sizeof_msg" "take 4 (msg_bytes msg_done) = word_bytes MSG_DONE"
  by (simp_all add: length_msg_bytes sizeof_msg_def msg_bytes_def msg_done_def zero_msg_def)

section \<open>Properties\<close>

text \<open>
  C30. The CPU moving average: for a window that fits and whose sums are neither negative nor
  too large, position \<open>i + 1\<close> of the output holds the integer average of the window that
  starts at \<open>i\<close> (the results are shifted by the final rotation), for every full window but
  the one that wraps to the front.
\<close>

theorem movingAverage_cpu_correct:
  assumes "length xs < 2 ^ 64" "sz \<noteq> 0" "unat sz \<le> length xs" "length out = length xs"
    and "i + unat sz \<le> length xs" "Suc i < length xs"
    and "0 \<le> (\<Sum>k\<leftarrow>[0..<unat sz]. sint (xs ! (i + k)))" "(\<Sum>k\<leftarrow>[0..<unat sz]. sint (xs ! (i + k))) < 2 ^ 31"
  shows "\<exists>ys. movingAverage_cpu (of_nat (length xs)) sz xs out = Inr ys \<and> length ys = length xs \<and>
    sint (ys ! Suc i) = (\<Sum>k\<leftarrow>[0..<unat sz]. sint (xs ! (i + k))) div int (unat sz)"
proof -
  let ?a = "moving_averages xs sz"
  have "0 < unat sz" using assms(2) by (simp add: unat_gt_0)
  then have len: "length ?a = length xs" using assms(3) by (simp add: moving_averages_def)
  have "(last ?a # butlast ?a) ! Suc i = ?a ! i" using assms(6) len by (simp add: nth_butlast)
  also have "\<dots> = window_average xs sz i"
  proof -
    have "i < Suc (length xs - unat sz)" using assms(5) by linarith
    then show ?thesis by (simp add: moving_averages_def nth_append del: upt_Suc)
  qed
  finally have "sint ((last ?a # butlast ?a) ! Suc i) = (\<Sum>k\<leftarrow>[0..<unat sz]. sint (xs ! (i + k))) div int (unat sz)"
    using window_average_value [OF refl assms(7,8,2)] by simp
  then show ?thesis using movingAverage_cpu_eq [OF assms(1-4)] len assms(6)
    by (intro exI [of _ "last ?a # butlast ?a"]) simp
qed

theorem movingAverage_cpu_correct_witness:
  "\<exists>ys. movingAverage_cpu 4 2 [1, 3, 5, 7] [0, 0, 0, 0] = Inr ys \<and>
    length ys = length [1, 3, 5, 7 :: i32] \<and> sint (ys ! Suc 1) = 4"
  using movingAverage_cpu_correct [of "[1, 3, 5, 7]" 2 "[0, 0, 0, 0]" 1] by (simp add: upt_rec)

text \<open>
  The two widths the CPU code does not handle: a zero width divides by zero, a width above
  the number of elements reads and writes outside the arrays.
\<close>

theorem movingAverage_cpu_bad_width:
  assumes "0 < length xs" "length xs < 2 ^ 64" "length out = length xs"
  shows "movingAverage_cpu (of_nat (length xs)) 0 xs out = Inl Division_By_Zero \<and>
    (length xs < unat sz \<longrightarrow> movingAverage_cpu (of_nat (length xs)) sz xs out = Inl Out_Of_Bounds)"
  using assms movingAverage_cpu_zero_width movingAverage_cpu_wide by blast

theorem movingAverage_cpu_bad_width_witness:
  "movingAverage_cpu 2 0 [1, 2] [0, 0] = Inl Division_By_Zero \<and>
   movingAverage_cpu 2 3 [1, 2] [0, 0] = Inl Out_Of_Bounds"
  using movingAverage_cpu_bad_width [of "[1, 2]" "[0, 0]" 3] by simp

text \<open>
  A negative window sum is converted to an unsigned 64-bit number before it is divided: the
  average of three times -1 comes out as 1431655764.
\<close>

theorem negative_average_wrong:
  "movingAverage_cpu 3 3 [- 1, - 1, - 1] [0, 0, 0] = Inr [0, 1431655764, 0]"
  by (rule movingAverage_cpu_negative)

text \<open>
  C31. The CPU dispatcher passes the test of the repository: on a three-point request with
  values between 0 and \<open>2^29\<close> its reply agrees with \<open>mavg_threept_exp\<close> wherever
  \<open>mavg_check\<close> looks.
\<close>

theorem three_point_test_passes:
  assumes "3 \<le> length xs" "4 * length xs + 77 < 2 ^ 31" "\<forall>x\<in>set xs. 0 \<le> sint x \<and> sint x < 2 ^ 29"
  shows "\<exists>m r. msg_moving_avg (of_nat (length xs)) 3 xs = Inr m \<and>
    dispatcher_handle_request None g t m = Inr r \<and> msgId r = MSG_RESULT \<and>
    mavg_check (length xs) (map sint (bytes_ints (length xs) (data r)))
      (mavg_threept_exp (length xs) (map sint xs))"
proof -
  let ?out = "last (moving_averages xs 3) # butlast (moving_averages xs 3)" and ?m = "moving_avg_msg 3 xs"
  have len: "length ?out = length xs" using assms(1) by (simp add: moving_averages_def)
  have "msgId ?m = MSG_MOVING_AVG" "dataSize ?m = of_nat (length xs)" "data ?m = ints_bytes xs @ word_bytes (3 :: size_t)"
    by (simp_all add: moving_avg_msg_def)
  from dispatcher_moving_average [OF assms(2) _ _ _ this] assms(1)
  obtain r where r: "dispatcher_handle_request None g t ?m = Inr r" "msgId r = MSG_RESULT" "data r = ints_bytes ?out"
    by simp
  have "bytes_ints (length xs) (data r) = ?out"
    using bytes_ints_ints_bytes [OF len, of "[]"] r(3) by simp
  with moving_averages_three [OF assms(1,3) refl] r msg_moving_avg_eq [OF assms(2), of 3] show ?thesis by auto
qed

theorem three_point_test_passes_witness:
  "\<exists>m r. msg_moving_avg 4 3 [1, 2, 3, 4] = Inr m \<and>
    dispatcher_handle_request None 0 0 m = Inr r \<and> msgId r = MSG_RESULT \<and>
    mavg_check (length [1, 2, 3, 4 :: i32]) (map sint (bytes_ints (length [1, 2, 3, 4 :: i32]) (data r)))
      (mavg_threept_exp (length [1, 2, 3, 4 :: i32]) [1, 2, 3, 4])"
  using three_point_test_passes [of "[1, 2, 3, 4]" 0 0] by simp

text \<open>
  C32. Every reply of the dispatcher has byte counts that describe its block, so that the server
  writes exactly the reply; the DFE library is only assumed to fill the array it is given.
\<close>

theorem dispatcher_replies_well_formed:
  assumes "library_ok lib" "dispatcher_handle_request lib g t m = Inr r"
  shows "wf_msg r \<and> write_msg r = Inr (msg_bytes r)"
  using dispatcher_reply_wf [OF assms] by (simp add: write_wf_msg)

theorem dispatcher_replies_well_formed_witness:
  "\<exists>r. dispatcher_handle_request None 0 0 (moving_avg_msg 1 [7, 8, 9]) = Inr r \<and> msgId r = MSG_RESULT \<and>
     wf_msg r \<and> write_msg r = Inr (msg_bytes r)"
proof -
  have "\<exists>r. dispatcher_handle_request None 0 0 (moving_avg_msg 1 [7, 8, 9]) = Inr r \<and> msgId r = MSG_RESULT"
    by (subst dispatcher_moving_average [of "[7, 8, 9]" 1]) (simp_all add: moving_avg_msg_def)
  then obtain r where r: "dispatcher_handle_request None 0 0 (moving_avg_msg 1 [7, 8, 9]) = Inr r" "msgId r = MSG_RESULT"
    by blast
  with dispatcher_replies_well_formed [OF _ r(1)] show ?thesis by (auto simp: library_ok_def)
qed

text \<open>
  C33. An option-pricing request reaches the DFE library with exactly the seven parameters the
  client passed and the number of DFEs in its resource mask, and the reply carries the result.
\<close>

theorem option_pricing_delivered:
  "\<exists>m r. msg_option_pricing strike sigma timestep nm pn np T = Inr m \<and>
    dispatcher_handle_request (Some l) g t (m\<lparr>rids := dfes\<rparr>) = Inr r \<and> msgId r = MSG_RESULT \<and>
    data r = word_bytes (optionPricingDFE l strike sigma timestep nm pn np T (of_nat (nDfes (m\<lparr>rids := dfes\<rparr>))))"
proof -
  have "calloc_msg (of_nat (sizeof_msg + 8)) = Inr (zero_msg 8)"
    by (subst calloc_msg_of_nat) (simp_all add: sizeof_msg_def)
  then show ?thesis
    by (simp add: msg_option_pricing_eq dispatcher_handle_request_def msg_ids handle_option_price_def
        take_field_simps optionPricing_dfe_def memcpy_at_def zero_msg_def Let_def)
qed

text \<open>
  A moving average from end to end on the CPU: the stub's request, sent in any chunks to the
  dispatcher's server and followed by \<open>MSG_DONE\<close>, leaves the averages in the caller's array and
  the connection closed.
\<close>

theorem moving_average_session:
  assumes "4 * length xs + 77 < 2 ^ 31" "0 < unat w" "unat w < 128" "unat w \<le> length xs"
    and "movingAverage (of_nat (length xs)) w xs env = Inr call"
    and "sizeof_msg \<le> length ch" "ch @ concat cs = msg_bytes (stub_request call)" "[] \<notin> set cs"
    and "length ch \<le> length old"
  shows "\<exists>conn. connection_start (Suc k) (dispatcher_serve None g t)
      \<lparr>buffer = old, incoming = ch # cs @ [msg_bytes msg_done], peer_closed = pc, outgoing = [], server = ()\<rparr> =
      Inr (Some (Closed, conn)) \<and>
    Client_getResult (replicate (4 * length xs) 0) (of_nat (4 * length xs)) (outgoing conn) =
      Inr (ints_bytes (last (moving_averages xs w) # butlast (moving_averages xs w)), [])"
proof -
  let ?N = "length xs" and ?out = "last (moving_averages xs w) # butlast (moving_averages xs w)"
  have m: "stub_request call = (moving_avg_msg w xs)\<lparr>clientId := of_int (stub_client_id env)\<rparr>"
    using assms(5) msg_moving_avg_eq [OF assms(1), of w] by (auto simp: movingAverage_def ucast_of_nat)
  have wf: "wf_msg (stub_request call)" using wf_moving_avg_msg [OF assms(1)] m by (simp add: wf_msg_def)
  have tot: "unat (totalBytes (stub_request call)) < 2 ^ 31"
    using wf m assms(1) by (simp add: wf_msg_def moving_avg_msg_def sizeof_msg_def)
  have h: "dispatcher_handle_request None g t (stub_request call) = Inr ((zero_msg 0)\<lparr>msgId := MSG_RESULT,
     predictedTimeMillis := t, dataSize := of_nat ?N, totalBytes := of_nat (sizeof_msg + 4 * ?N),
     dataBytes := of_nat (4 * ?N), data := ints_bytes ?out\<rparr>)"
    by (rule dispatcher_moving_average [OF assms(1-4)]) (simp_all add: m moving_avg_msg_def)
  let ?r = "(zero_msg 0)\<lparr>msgId := MSG_RESULT, predictedTimeMillis := t, dataSize := of_nat ?N,
     totalBytes := of_nat (sizeof_msg + 4 * ?N), dataBytes := of_nat (4 * ?N), data := ints_bytes ?out\<rparr>"
  have serve: "dispatcher_serve None g t (stub_request call) () = Inr (Some ?r, ())"
    using h by (simp add: dispatcher_serve_def)
  obtain conn where conn: "connection_start (Suc k) (dispatcher_serve None g t)
      \<lparr>buffer = old, incoming = ch # cs @ [msg_bytes msg_done], peer_closed = pc, outgoing = [], server = ()\<rparr> =
      Inr (Some (Closed, conn))" "outgoing conn = msg_bytes ?r"
    using cpu_dispatcher.session [OF wf tot assms(6-9) done_bytes serve refl] by blast
  have "length (data ?r) = length (replicate (4 * ?N) (0 :: byte))"
    using assms(2,4) by (simp add: moving_averages_def)
  moreover have "wf_msg ?r" using cpu_dispatcher.reply_wf [OF serve] .
  ultimately have "Client_getResult (replicate (4 * ?N) 0) (of_nat (4 * ?N)) (msg_bytes ?r @ []) = Inr (data ?r, [])"
    using Client_getResult_reply [of ?r "replicate (4 * ?N) 0" "[]"] assms(1) by (simp add: sizeof_msg_def)
  with conn show ?thesis by auto
qed

theorem moving_average_session_witness:
  "\<exists>call conn. movingAverage 3 2 [1, 2, 3] (Some ''1'') = Inr call \<and>
    connection_start 1 (dispatcher_serve None 0 0)
      \<lparr>buffer = replicate 100 0, incoming = msg_bytes (stub_request call) # [] @ [msg_bytes msg_done],
       peer_closed = False, outgoing = [], server = ()\<rparr> = Inr (Some (Closed, conn)) \<and>
    Client_getResult (replicate 12 0) 12 (outgoing conn) =
      Inr (ints_bytes (last (moving_averages [1, 2, 3] 2) # butlast (moving_averages [1, 2, 3] 2)), [])"
proof -
  have m: "msg_moving_avg 3 2 [1, 2, 3] = Inr (moving_avg_msg 2 [1, 2, 3])"
    using msg_moving_avg_eq [of "[1, 2, 3]" 2] by simp
  have u: "(ucast (3 :: size_t) :: i32) = 3" by simp
  let ?call = "\<lparr>stub_to = stub_port (Some ''1''),
    stub_request = (moving_avg_msg 2 [1, 2, 3])\<lparr>clientId := of_int (stub_client_id (Some ''1''))\<rparr>\<rparr>"
  have c: "movingAverage 3 2 [1, 2, 3] (Some ''1'') = Inr ?call" unfolding movingAverage_def u m by simp
  then have c': "movingAverage (of_nat (length [1, 2, 3 :: i32])) 2 [1, 2, 3] (Some ''1'') = Inr ?call" by simp
  have len: "length (msg_bytes (stub_request ?call)) = 89"
    by (simp add: length_msg_bytes moving_avg_msg_def sizeof_msg_def)
  from moving_average_session [OF _ _ _ _ c', of "msg_bytes (stub_request ?call)" "[]" "replicate 100 0" 0 0 0 False] len c
  show ?thesis by (auto simp: sizeof_msg_def)
qed

text \<open>
  The dispatcher answers whoever gets through to it: as long as one of its threads is idle, the
  client at the head of the listen queue, whose request comes in any chunks and ends with
  \<open>MSG_DONE\<close>, can be accepted, served and closed with exactly the reply, while the connections
  the other threads serve stay as they are.
\<close>

theorem dispatcher_pool_answers:
  assumes "wf_msg m" "unat (totalBytes m) < 2 ^ 31" "dispatcher_handle_request None g t m = Inr r"
    and "sizeof_msg \<le> length ch" "ch @ concat cs = msg_bytes m" "[] \<notin> set cs" "length ch \<le> length old"
    and "idle_worker p"
    and "arrived p = (k, \<lparr>buffer = old, incoming = ch # cs @ [msg_bytes msg_done], peer_closed = pc,
      outgoing = [], server = ()\<rparr>) # later"
  shows "\<exists>q c'. pool_run (dispatcher_serve None g t) p q \<and> closed q = closed p @ [(k, c')] \<and>
    outgoing c' = msg_bytes r \<and> arrived q = later \<and> serving q = serving p"
proof -
  have serve: "dispatcher_serve None g t m (state p) = Inr (Some r, ())"
    using assms(3) by (simp add: dispatcher_serve_def)
  have "arrived p = (k, \<lparr>buffer = old, incoming = ch # cs @ [msg_bytes msg_done], peer_closed = pc,
      outgoing = [], server = state p\<rparr>) # later" using assms(9) by simp
  from cpu_dispatcher.pool_session [OF assms(1,2,4-7) done_bytes serve assms(8) this]
  show ?thesis by auto
qed

theorem dispatcher_pool_answers_witness:
  "\<exists>q c'. pool_run (dispatcher_serve None 0 0)
      ((Server_new 4 ())\<lparr>arrived := [(7, \<lparr>buffer = replicate 100 0,
        incoming = [msg_bytes ((zero_msg 0)\<lparr>msgId := MSG_ACK, totalBytes := 69\<rparr>), msg_bytes msg_done],
        peer_closed = False, outgoing = [], server = ()\<rparr>)]\<rparr>) q \<and>
    closed q = [(7, c')] \<and> outgoing c' = msg_bytes msg_empty"
proof -
  let ?m = "(zero_msg 0)\<lparr>msgId := MSG_ACK, totalBytes := 69\<rparr>"
  let ?p = "(Server_new 4 ())\<lparr>arrived := [(7, \<lparr>buffer = replicate 100 0,
        incoming = [msg_bytes ?m, msg_bytes msg_done], peer_closed = False, outgoing = [], server = ()\<rparr>)]\<rparr>"
  have m: "wf_msg ?m" "dispatcher_handle_request None 0 0 ?m = Inr msg_empty" "length (msg_bytes ?m) = 69"
    by (simp_all add: wf_msg_def length_msg_bytes zero_msg_def sizeof_msg_def dispatcher_handle_request_def msg_ids)
  have "idle_worker ?p" by (simp add: idle_worker_def Server_new_def)
  with dispatcher_pool_answers [OF m(1) _ m(2), of "msg_bytes ?m" "[]" "replicate 100 0" ?p 7 False "[]"] m(3)
  show ?thesis by (auto simp: sizeof_msg_def Server_new_def)
qed

end
