(* ===== verification/Deployment.thy ===== *)
theory Deployment
  imports Scheduler_Guarantees Dispatcher_Server
begin

text \<open>
  The processes of a deployment and how they find each other: the scheduler is given the port of
  the dispatcher on its command line, its resources carry it, the elasticity manager passes it on
  to every resource it provisions, and each job thread connects to the address of its first
  resource. Here it is shown that this is the address the dispatcher listens on.
\<close>

section \<open>Resources point to the dispatcher\<close>

definition wired :: "int \<Rightarrow> string \<Rightarrow> resource \<Rightarrow> bool" where
  "wired dport dhost r \<longleftrightarrow> port r = dport \<and> url r = dhost \<and> rtype r = ''DFE''"

definition pending_pairs :: "system \<Rightarrow> job_res_pair list" where
  "pending_pairs y = (case spc y of Idle \<Rightarrow> [] | Chosen t a \<Rightarrow> ajobs a | Resized t a \<Rightarrow> ajobs a)"

definition wiring :: "int \<Rightarrow> string \<Rightarrow> system \<Rightarrow> bool" where
  "wiring dport dhost y \<longleftrightarrow>
     dispatcherPortNumber (sch y) = dport \<and> dispatcherHostname (sch y) = dhost \<and>
     (\<forall>r\<in>set (resPool (sch y)) \<union> set (held (runQ (sch y))) \<union> set (held (threads y)) \<union>
        set (held (pending_pairs y)). wired dport dhost r)"

lemma wiring_init: "wiring d ''localhost'' (init_system d st b n)"
  by (simp add: wiring_def init_system_def start_system_def pending_pairs_def scheduler_main_def
      Scheduler_new_def addSchedAlg_def provisionResource_def addResource_new_def push_back_def
      Resource_new_def wired_def)

text \<open>What the steps do to the pool and to the address of the dispatcher.\<close>

lemma claim_loop_subset: "claim_loop rs pool = Inr pool' \<Longrightarrow> set pool' \<subseteq> set pool"
proof (induction rs arbitrary: pool)
  case (Cons r rs)
  then obtain p where "deque_erase (find_if (resPtrEQ r) pool) pool = Inr p" "claim_loop rs p = Inr pool'"
    by (auto simp: bindR_eq_Inr)
  then show ?case
    using Cons.IH set_erase_at_subset by (fastforce simp: deque_erase_def split: option.splits if_splits)
qed simp

lemma service_frame:
  assumes "serviceAllocations_loop ps t s = Inr s'"
  shows "set (resPool s') \<subseteq> set (resPool s) \<and> dispatcherPortNumber s' = dispatcherPortNumber s \<and>
    dispatcherHostname s' = dispatcherHostname s"
  using assms
proof (induction ps arbitrary: s)
  case (Cons j ps)
  let ?r = "removeJobFromReadyQ j s"
  from Cons.prems obtain pool where pool: "claim_loop (snd j) (resPool ?r) = Inr pool"
    and rest: "serviceAllocations_loop ps t (addToRunQ j t (?r\<lparr>resPool := pool\<rparr>)) = Inr s'"
    by (auto simp: bindR_eq_Inr claimResources_Inr)
  have r: "resPool ?r = resPool s" "dispatcherPortNumber ?r = dispatcherPortNumber s"
    "dispatcherHostname ?r = dispatcherHostname s"
    by (simp_all add: removeJobFromReadyQ_def split: option.split)
  have a: "dispatcherPortNumber (addToRunQ j t z) = dispatcherPortNumber z"
    "dispatcherHostname (addToRunQ j t z) = dispatcherHostname z" for z
    by (simp_all add: addToRunQ_def update_job_def Let_def)
  from Cons.IH [OF rest] claim_loop_subset [OF pool] r a show ?case by auto
qed simp

lemma runQ_serviced: "serviceAllocations_loop ps t s = Inr s' \<Longrightarrow> runQ s' = rev ps @ runQ s"
proof (induction ps arbitrary: s)
  case (Cons j ps)
  have "runQ (removeJobFromReadyQ j s) = runQ s" by (simp add: removeJobFromReadyQ_def split: option.split)
  with Cons show ?case by (auto simp: bindR_eq_Inr claimResources_Inr)
qed simp

lemma set_held: "set (held ps) = (\<Union>p\<in>set ps. set (snd p))"
  by (induction ps) auto

lemma wiring_mono:
  assumes "wiring d h y"
    and "dispatcherPortNumber (sch z) = dispatcherPortNumber (sch y)"
      "dispatcherHostname (sch z) = dispatcherHostname (sch y)"
    and "set (resPool (sch z)) \<union> set (held (runQ (sch z))) \<union> set (held (threads z)) \<union> set (held (pending_pairs z))
      \<subseteq> set (resPool (sch y)) \<union> set (held (runQ (sch y))) \<union> set (held (threads y)) \<union> set (held (pending_pairs y))"
  shows "wiring d h z"
proof -
  from assms(1) have "\<forall>r\<in>set (resPool (sch y)) \<union> set (held (runQ (sch y))) \<union> set (held (threads y)) \<union>
      set (held (pending_pairs y)). wired d h r" by (simp add: wiring_def)
  with assms(4) have "\<forall>r\<in>set (resPool (sch z)) \<union> set (held (runQ (sch z))) \<union> set (held (threads z)) \<union>
      set (held (pending_pairs z)). wired d h r" by blast
  with assms(1-3) show ?thesis by (simp add: wiring_def)
qed

lemma held_remove1_subset: "set (held (remove1 e ps)) \<subseteq> set (held ps)"
  using set_remove1_subset [of e ps] by (auto simp: set_held)

lemma wiring_step:
  assumes "sys_step l y z" and inv: "sys_inv y" and w: "wiring d h y"
  shows "wiring d h z"
  using assms(1)
proof cases
  case (submit m now p s')
  then show ?thesis
    using w by (auto simp: wiring_def pending_pairs_def concurrentHandler_submit_eq)
next
  case (decide a s' t0)
  obtain pool where s': "s' = (sch y)\<lparr>resPool := pool\<rparr>" "mset pool = mset (resPool (sch y))"
    and snd: "sound_allocation (sch y) a"
    using sys_inv_decision [OF inv decide(4,5) decide(7)] .
  then have "set pool = set (resPool (sch y))" "set (held (ajobs a)) \<subseteq> set (resPool (sch y))"
    by (metis mset_eq_setD, auto simp: sound_allocation_def dest: mset_subset_eqD)
  with w s'(1) decide(2,3) show ?thesis by (auto simp: wiring_def pending_pairs_def count_jobs_def)
next
  case (resize t0 a s')
  from resize(4) show ?thesis
  proof (cases rule: updateResourcePool_cases)
    case 2
    have "dispatcherPortNumber s' = dispatcherPortNumber (sch y)" "dispatcherHostname s' = dispatcherHostname (sch y)"
      using 2 by (simp_all add: provisionResource_def addResource_new_def Let_def)
    with w resize 2 show ?thesis by (auto simp: wiring_def pending_pairs_def wired_def Resource_new_def)
  qed (use w resize in \<open>auto simp: wiring_def pending_pairs_def\<close>)
next
  case (service t0 a t1 s')
  note sv = service(4) [unfolded serviceAllocations_def]
  have "set (held (rev (ajobs a))) = set (held (ajobs a))" by (simp add: set_held)
  with w service service_frame [OF sv] runQ_serviced [OF sv] show ?thesis
    by (intro wiring_mono [OF w]) (auto simp: pending_pairs_def count_jobs_def count_schedule_def)
next
  case (dispatch pr s')
  from dispatcherLoop_iter_Inr [OF dispatch(3)] obtain p rs q where q: "runQ (sch y) = (p, rs) # q"
    and st: "if started (tinfo (jobs (sch y) p)) then pr = None \<and> s' = (sch y)\<lparr>runQ := q\<rparr>
      else pr = Some (p, rs) \<and> s' = update_info p (\<lambda>i. i\<lparr>started := True\<rparr>) ((sch y)\<lparr>runQ := q\<rparr>)"
    by blast
  show ?thesis
    using dispatch(2) q st
    by (intro wiring_mono [OF w]) (auto simp: pending_pairs_def update_info_def split: if_splits)
next
  case (complete pr rq reply start stop now)
  have eq: "sch z = update_job (fst pr) (\<lambda>j. j\<lparr>measuredExecutionTime := stop - start,
        actualExecutionTime := millis (predictedTimeMillis reply), rsp := Some reply, finishTime := now\<rparr>)
      ((sch y)\<lparr>resPool := resPool (sch y) @ snd pr, finishedQ := fst pr # finishedQ (sch y)\<rparr>)"
    using running_complete_eq [of y pr] inv complete(2,3) by (simp add: sys_inv_def)
  have "set (snd pr) \<subseteq> set (held (threads y))" using complete(3) by (auto simp: set_held)
  with eq complete(2) held_remove1_subset [of pr "threads y"] show ?thesis
    by (intro wiring_mono [OF w]) (auto simp: pending_pairs_def update_job_def)
next
  case (finish now p s')
  then show ?thesis
    by (intro wiring_mono [OF w])
      (auto simp: pending_pairs_def finishedLoop_iter_def bindR_eq_Inr update_info_def Let_def)
qed (use w in \<open>auto simp: wiring_def pending_pairs_def\<close>)

interpretation wires: preserved sys_step "\<lambda>y. wiring d h y \<and> sys_inv y" for d h
  by unfold_locales (auto dest: wiring_step sys_inv_step)

end
