(* ===== verification/Job_Exchange.thy ===== *)
theory Job_Exchange
  imports Scheduler_Loops Dispatcher_Server
begin

text \<open>
  The scheduler as a client of the dispatcher: the whole of \<open>Scheduler::runJob\<close>
  (\<open>src/scheduler/Scheduler.cpp\<close>), from the address of the first resource over the bytes
  exchanged to the bookkeeping at the end, and the path of a request through the client
  stub, the scheduler, the dispatcher and back.
\<close>

text \<open>
  Lines 136-200: connect to the first resource, send the request with the mask, read until a
  result of the expected size comes, close. What the dispatcher sends is the argument \<open>inp\<close>.
  A buffer size that is negative as an \<open>int\<close> makes \<open>calloc\<close> fail; the source then gives the
  resources back but goes on with the null buffer.
\<close>

definition runJob_exchange :: "job_res_pair \<Rightarrow> byte list \<Rightarrow> scheduler \<Rightarrow>
    (int \<times> string \<times> byte list \<times> msg) result" where
  "runJob_exchange pr inp s =
     bindR (runJob_request pr s) (\<lambda>(portNumber, name, m).
       bindR (Client_send m) (\<lambda>sent.
         let sizeBytes = (ucast (of_nat sizeof_msg + expDataSizeBytes m) :: i32)
         in if sint sizeBytes < 0 then Inl Null_Deref
            else bindR (read_until_result (nat (sint sizeBytes)) inp) (\<lambda>(rsp, rest).
              bindR Client_stop (\<lambda>bye. Inr (portNumber, name, sent @ bye, rsp)))))"

definition runJob :: "job_res_pair \<Rightarrow> byte list \<Rightarrow> rat \<Rightarrow> rat \<Rightarrow> rat \<Rightarrow> scheduler \<Rightarrow>
    (int \<times> string \<times> byte list \<times> scheduler) result" where
  "runJob pr inp start stop now s =
     bindR (runJob_exchange pr inp s) (\<lambda>(portNumber, name, sent, rsp).
       Inr (portNumber, name, sent, runJob_complete pr rsp start stop now s))"

lemma write_msg_trailing: "wf_msg m \<Longrightarrow> write_msg (m\<lparr>data := data m @ junk\<rparr>) = Inr (msg_bytes m)"
proof -
  assume wf: "wf_msg m"
  have b: "msg_bytes (m\<lparr>data := data m @ junk\<rparr>) = msg_bytes m @ junk" by (simp add: msg_bytes_def)
  have "unat (totalBytes m) = length (msg_bytes m)" using wf by (simp add: wf_msg_def length_msg_bytes)
  then show ?thesis by (simp add: write_msg_def b)
qed

text \<open>A job whose peer answers with a result of the expected size.\<close>

lemma runJob_exchange_reply:
  assumes "req (job_at s p) = m\<lparr>data := data m @ junk\<rparr>" "wf_msg m"
    and "expDataSizeBytes m = of_nat n" "n + sizeof_msg < 2 ^ 31"
    and "msgId r = MSG_RESULT" "length (data r) = n"
  shows "runJob_exchange (p, res # rs) (msg_bytes r @ inp) s =
    Inr (port res, url res, msg_bytes (m\<lparr>rids := packed_rids (res # rs)\<rparr>) @ msg_bytes msg_done, r)"
proof -
  let ?m = "m\<lparr>rids := packed_rids (res # rs)\<rparr>"
  have wf: "wf_msg ?m" using assms(2) by (simp add: wf_msg_def)
  have "runJob_request (p, res # rs) s = Inr (port res, url res, ?m\<lparr>data := data ?m @ junk\<rparr>)"
    by (simp add: runJob_request_def deque_front_def assms(1))
  moreover have "Client_send (?m\<lparr>data := data ?m @ junk\<rparr>) = Inr (msg_bytes ?m)"
    unfolding Client_send_def by (rule write_msg_trailing [OF wf])
  moreover have "read_until_result (sizeof_msg + n) (msg_bytes r @ inp) = Inr (r, inp)"
    using read_until_result_skips [of "[]" _ r inp] assms(5,6) by (simp add: length_msg_bytes)
  ultimately show ?thesis
    using reply_size(2,3) [OF assms(4,3)] by (simp add: runJob_exchange_def msg_done_bytes)
qed

lemma runJob_complete_rsp: "rsp (job_at (runJob_complete (p, rs) r start stop now s) p) = Some r"
  by (simp add: runJob_complete_def Let_def removeJobFromRunQ_def returnResources_eq split: option.splits)

text \<open>The reply of the connection handler to a response that fills the requested buffer.\<close>

lemma finish_request_exact:
  assumes "rsp (job_at s p) = Some r" "wf_msg r" "unat sz = sizeof_msg + length (data r)" "unat sz < 2 ^ 63"
  shows "\<exists>m. scheduler_finish_request sz wt p s = Inr m \<and> wf_msg m \<and> msgId m = msgId r \<and> data m = data r"
proof -
  have "calloc_msg sz = Inr (zero_msg (length (data r)))" using assms(3,4) by (simp add: calloc_msg_def)
  with assms show ?thesis
    by (simp add: scheduler_finish_request_def concurrentHandler_reply_def memcpy_at_def wf_msg_def
        zero_msg_def Let_def)
qed

text \<open>The job of a moving average, from its request to the reply of the scheduler.\<close>

lemma moving_average_job:
  assumes "4 * length xs + 77 < 2 ^ 31" "0 < unat w" "unat w < 128" "unat w \<le> length xs"
    and "wf_msg m \<and> msgId m = MSG_MOVING_AVG \<and> dataSize m = of_nat (length xs) \<and>
      expDataSizeBytes m = of_nat (4 * length xs) \<and> data m = ints_bytes xs @ word_bytes w"
    and "req (job_at s p) = m\<lparr>data := data m @ junk\<rparr>"
    and "sizeof_msg \<le> length ch" "ch @ concat cs = msg_bytes (m\<lparr>rids := packed_rids (res # rs)\<rparr>)"
    and "[] \<notin> set cs" "length ch \<le> length old"
  shows "\<exists>conn s' sz reply.
    connection_start (Suc k) (dispatcher_serve None g t)
      \<lparr>buffer = old, incoming = ch # cs @ [msg_bytes msg_done], peer_closed = pc, outgoing = [], server = ()\<rparr> =
      Inr (Some (Closed, conn)) \<and>
    runJob (p, res # rs) (outgoing conn) start stop now s =
      Inr (port res, url res, ch @ concat cs @ msg_bytes msg_done, s') \<and>
    scheduler_handle_request m = Run_Job sz True \<and> scheduler_finish_request sz True p s' = Inr reply \<and>
    wf_msg reply \<and> msgId reply = MSG_RESULT \<and> length (data reply) = 4 * length xs \<and>
    Client_getResult (replicate (4 * length xs) 0) (of_nat (4 * length xs)) (msg_bytes reply) =
      Inr (ints_bytes (last (moving_averages xs w) # butlast (moving_averages xs w)), [])"
proof -
  let ?N = "length xs" and ?out = "last (moving_averages xs w) # butlast (moving_averages xs w)"
  let ?m = "m\<lparr>rids := packed_rids (res # rs)\<rparr>" and ?sz = "of_nat sizeof_msg + expDataSizeBytes m"
  let ?r = "(zero_msg 0)\<lparr>msgId := MSG_RESULT, predictedTimeMillis := t, dataSize := of_nat ?N,
     totalBytes := of_nat (sizeof_msg + 4 * ?N), dataBytes := of_nat (4 * ?N), data := ints_bytes ?out\<rparr>"
  have wf: "wf_msg m" "wf_msg ?m" using assms(5) by (simp_all add: wf_msg_def)
  have "length (data m) = 4 * ?N + 8" using assms(5) by simp
  then have tot: "unat (totalBytes ?m) < 2 ^ 31"
    using conjunct1 [OF wf(1) [unfolded wf_msg_def]] assms(1) by (simp add: sizeof_msg_def)
  have "dispatcher_handle_request None g t ?m = Inr ?r"
    by (rule dispatcher_moving_average [OF assms(1-4)]) (simp_all add: assms(5))
  then have serve: "dispatcher_serve None g t ?m () = Inr (Some ?r, ())" by (simp add: dispatcher_serve_def)
  obtain conn where conn: "connection_start (Suc k) (dispatcher_serve None g t)
      \<lparr>buffer = old, incoming = ch # cs @ [msg_bytes msg_done], peer_closed = pc, outgoing = [], server = ()\<rparr> =
      Inr (Some (Closed, conn))" "outgoing conn = msg_bytes ?r"
    using cpu_dispatcher.session [OF wf(2) tot assms(7-10) done_bytes serve refl] by blast
  have wfr: "wf_msg ?r" using cpu_dispatcher.reply_wf [OF serve] .
  have len: "length (data ?r) = 4 * ?N" using assms(2,4) by (simp add: moving_averages_def)
  let ?s = "runJob_complete (p, res # rs) ?r start stop now s"
  have "runJob_exchange (p, res # rs) (msg_bytes ?r @ []) s =
      Inr (port res, url res, msg_bytes ?m @ msg_bytes msg_done, ?r)"
    using assms(1) len
    by (intro runJob_exchange_reply [OF assms(6) wf(1)]) (simp_all add: assms(5) sizeof_msg_def)
  then have run: "runJob (p, res # rs) (outgoing conn) start stop now s =
      Inr (port res, url res, ch @ concat cs @ msg_bytes msg_done, ?s)"
    using conn(2) assms(8) by (simp add: runJob_def flip: append_assoc)
  have "?sz = of_nat (sizeof_msg + 4 * ?N)" by (simp add: assms(5))
  then have sz: "unat ?sz = sizeof_msg + length (data ?r)"
    using unat_of_nat_small [of "sizeof_msg + 4 * ?N"] assms(1) len by (simp add: sizeof_msg_def)
  have "scheduler_handle_request m = Run_Job ?sz True"
    by (simp add: scheduler_handle_request_def assms(5) msg_ids)
  moreover have "unat ?sz < 2 ^ 63" using assms(1) len unfolding sz by (simp add: sizeof_msg_def)
  from finish_request_exact [OF runJob_complete_rsp wfr sz this, of True p "res # rs" start stop now s]
  obtain reply where reply: "scheduler_finish_request ?sz True p ?s = Inr reply" "wf_msg reply"
    "data reply = data ?r" "msgId reply = MSG_RESULT" by auto
  moreover have "Client_getResult (replicate (4 * ?N) 0) (of_nat (4 * ?N)) (msg_bytes reply @ []) = Inr (data reply, [])"
    using Client_getResult_reply [OF reply(2), of "replicate (4 * ?N) 0" "[]"] reply(3) len assms(1)
    by (simp add: sizeof_msg_def)
  ultimately show ?thesis using conn(1) run len by (intro exI [of _ conn] exI [of _ ?s]) auto
qed

section \<open>The whole path of a moving average\<close>

text \<open>
  C8. A moving average through the whole system, on the CPU: a client's request that the
  scheduler has made into a job (possibly with stale bytes of the connection buffer behind it)
  is sent by the job's thread to the first of its resources; the dispatcher, which receives
  it in any chunks, closes the connection with the averages as reply; with that reply the job
  ends, and the answer of the scheduler puts the averages into the client's array.
\<close>

theorem moving_average_through_scheduler:
  assumes "4 * length xs + 77 < 2 ^ 31" "0 < unat w" "unat w < 128" "unat w \<le> length xs"
    and "m = (moving_avg_msg w xs)\<lparr>clientId := c, predictedTimeMillis := pt\<rparr>"
    and "req (job_at s p) = m\<lparr>data := data m @ junk\<rparr>"
    and "sizeof_msg \<le> length ch" "ch @ concat cs = msg_bytes (m\<lparr>rids := packed_rids (res # rs)\<rparr>)"
    and "[] \<notin> set cs" "length ch \<le> length old"
  shows "\<exists>conn s' sz reply.
    connection_start (Suc k) (dispatcher_serve None g t)
      \<lparr>buffer = old, incoming = ch # cs @ [msg_bytes msg_done], peer_closed = pc, outgoing = [], server = ()\<rparr> =
      Inr (Some (Closed, conn)) \<and>
    runJob (p, res # rs) (outgoing conn) start stop now s =
      Inr (port res, url res, ch @ concat cs @ msg_bytes msg_done, s') \<and>
    scheduler_handle_request m = Run_Job sz True \<and> scheduler_finish_request sz True p s' = Inr reply \<and>
    Client_getResult (replicate (4 * length xs) 0) (of_nat (4 * length xs)) (msg_bytes reply) =
      Inr (ints_bytes (last (moving_averages xs w) # butlast (moving_averages xs w)), [])"
proof -
  have "wf_msg m \<and> msgId m = MSG_MOVING_AVG \<and> dataSize m = of_nat (length xs) \<and>
      expDataSizeBytes m = of_nat (4 * length xs) \<and> data m = ints_bytes xs @ word_bytes w"
    using wf_moving_avg_msg [OF assms(1), of w] by (simp add: assms(5) wf_msg_def moving_avg_msg_def)
  from moving_average_job [OF assms(1-4) this assms(6-10), of k g t pc start stop now]
  show ?thesis by blast
qed

theorem moving_average_through_scheduler_witness:
  "\<exists>m s conn s' sz reply.
    req (job_at s 0) = m \<and> msgId m = MSG_MOVING_AVG \<and>
    connection_start 1 (dispatcher_serve None 0 0)
      \<lparr>buffer = replicate 100 0,
       incoming = msg_bytes (m\<lparr>rids := 1\<rparr>) # [] @ [msg_bytes msg_done],
       peer_closed = False, outgoing = [], server = ()\<rparr> = Inr (Some (Closed, conn)) \<and>
    runJob (0, [Resource_new 1 8112 ''localhost'' ''DFE'']) (outgoing conn) 0 1 1 s =
      Inr (8112, ''localhost'', msg_bytes (m\<lparr>rids := 1\<rparr>) @ msg_bytes msg_done, s') \<and>
    scheduler_handle_request m = Run_Job sz True \<and> scheduler_finish_request sz True 0 s' = Inr reply \<and>
    Client_getResult (replicate 12 0) 12 (msg_bytes reply) =
      Inr (ints_bytes (last (moving_averages [1, 2, 3] 2) # butlast (moving_averages [1, 2, 3] 2)), [])"
proof -
  let ?xs = "[1, 2, 3] :: i32 list" and ?res = "Resource_new 1 8112 ''localhost'' ''DFE''"
  let ?m = "(moving_avg_msg 2 ?xs)\<lparr>clientId := 1, predictedTimeMillis := 5\<rparr>"
  let ?s = "snd (concurrentHandler_submit ?m 0 (scheduler_main 8112 (\<lambda>_. demo_tuple 0) 0 0))"
  have req: "req (job_at ?s 0) = ?m\<lparr>data := data ?m @ []\<rparr>"
    by (simp add: concurrentHandler_submit_def getNextId_def Job_new_def scheduler_main_def Scheduler_new_def
        addSchedAlg_def provisionResource_def addResource_new_def Let_def)
  have rids: "packed_rids [?res] = 1" by (simp add: packed_rids_def rid_bit_def Resource_new_def)
  have len: "length (msg_bytes (?m\<lparr>rids := packed_rids [?res]\<rparr>)) = 89"
    by (simp add: length_msg_bytes moving_avg_msg_def sizeof_msg_def)
  have "\<exists>conn s' sz reply.
    connection_start (Suc 0) (dispatcher_serve None 0 0)
      \<lparr>buffer = replicate 100 0, incoming = msg_bytes (?m\<lparr>rids := packed_rids [?res]\<rparr>) # [] @ [msg_bytes msg_done],
       peer_closed = False, outgoing = [], server = ()\<rparr> = Inr (Some (Closed, conn)) \<and>
    runJob (0, [?res]) (outgoing conn) 0 1 1 ?s =
      Inr (port ?res, url ?res, msg_bytes (?m\<lparr>rids := packed_rids [?res]\<rparr>) @ concat [] @ msg_bytes msg_done, s') \<and>
    scheduler_handle_request ?m = Run_Job sz True \<and> scheduler_finish_request sz True 0 s' = Inr reply \<and>
    Client_getResult (replicate (4 * length ?xs) 0) (of_nat (4 * length ?xs)) (msg_bytes reply) =
      Inr (ints_bytes (last (moving_averages ?xs 2) # butlast (moving_averages ?xs 2)), [])"
    by (rule moving_average_through_scheduler [OF _ _ _ _ refl req]) (use len in \<open>simp_all add: sizeof_msg_def\<close>)
  then have "\<exists>conn s' sz reply.
    connection_start 1 (dispatcher_serve None 0 0)
      \<lparr>buffer = replicate 100 0, incoming = msg_bytes (?m\<lparr>rids := 1\<rparr>) # [] @ [msg_bytes msg_done],
       peer_closed = False, outgoing = [], server = ()\<rparr> = Inr (Some (Closed, conn)) \<and>
    runJob (0, [?res]) (outgoing conn) 0 1 1 ?s =
      Inr (8112, ''localhost'', msg_bytes (?m\<lparr>rids := 1\<rparr>) @ msg_bytes msg_done, s') \<and>
    scheduler_handle_request ?m = Run_Job sz True \<and> scheduler_finish_request sz True 0 s' = Inr reply \<and>
    Client_getResult (replicate 12 0) 12 (msg_bytes reply) =
      Inr (ints_bytes (last (moving_averages ?xs 2) # butlast (moving_averages ?xs 2)), [])"
    unfolding rids by (simp add: Resource_new_def)
  moreover have "req (job_at ?s 0) = ?m" "msgId ?m = MSG_MOVING_AVG"
    using req by (simp_all add: moving_avg_msg_def)
  ultimately show ?thesis by (intro exI [of _ ?m] exI [of _ ?s]) blast
qed

end
