(* ===== verification/Lost_Dispatcher.thy ===== *)
theory Lost_Dispatcher
  imports Job_Exchange Scheduler_Drain
begin

text \<open>
  Job threads whose dispatcher cannot be reached or closes the connection (\<open>src/common/Client.cpp\<close>,
  \<open>Scheduler::runJob\<close>), and what becomes of the scheduler then: the scheduler as a process, in which
  every job thread talks to a peer of its own and an exception that leaves a thread ends everything.
\<close>

section \<open>A client and its connection\<close>

text \<open>
  The socket of a \<open>Client\<close>: not open, or with the bytes the server still sends and whether it closes
  afterwards. \<open>Client::start\<close> catches whatever resolving and connecting throw, so that it leaves a
  socket behind that is not open, and returns as usual.
\<close>

datatype link =
    Not_Open
  | Open "byte list" bool

definition Client_start :: "bool \<Rightarrow> bool \<Rightarrow> link \<Rightarrow> link" where
  "Client_start resolved accepted l = (if resolved \<and> accepted then l else Not_Open)"

text \<open>
  The other operations call \<open>boost::asio::write\<close> and \<open>boost::asio::read\<close> without an error code, which
  throw \<open>boost::system::system_error\<close> on a socket that is not open, and at the end of the stream.
\<close>

definition Client_send_on :: "link \<Rightarrow> msg \<Rightarrow> byte list result" where
  "Client_send_on l message = (case l of
       Not_Open \<Rightarrow> Inl System_Error
     | Open inp closes \<Rightarrow> Client_send message)"

definition Client_read_on :: "link \<Rightarrow> nat \<Rightarrow> (byte list \<times> link) result" where
  "Client_read_on l sizeBytes = (case l of
       Not_Open \<Rightarrow> Inl System_Error
     | Open inp closes \<Rightarrow>
         if sizeBytes \<le> length inp then Inr (take sizeBytes inp, Open (drop sizeBytes inp) closes)
         else Inl (if closes then System_Error else Would_Block))"

definition Client_stop_on :: "link \<Rightarrow> byte list result" where
  "Client_stop_on l = Client_send_on l msg_done"

fun to_come :: "link \<Rightarrow> nat" where
  "to_come Not_Open = 0"
| "to_come (Open inp closes) = length inp"

lemma Client_read_on_shrinks:
  assumes "Client_read_on l n = Inr (buf, l')" "bytes_msg buf = Inr m"
  shows "to_come l' < to_come l"
proof -
  have "sizeof_msg \<le> length buf" using assms(2) by (auto simp: bytes_msg_def split: if_splits)
  then show ?thesis using assms(1) by (cases l) (auto simp: Client_read_on_def sizeof_msg_def split: if_splits)
qed

text \<open>The loop of \<open>runJob\<close> that reads until a result comes.\<close>

function read_result_on :: "nat \<Rightarrow> link \<Rightarrow> (msg \<times> link) result" where
  "read_result_on sizeBytes l = (case Client_read_on l sizeBytes of
       Inl e \<Rightarrow> Inl e
     | Inr (buff, l') \<Rightarrow> (case bytes_msg buff of
           Inl e \<Rightarrow> Inl e
         | Inr reply \<Rightarrow> if msgId reply = MSG_RESULT then Inr (reply, l') else read_result_on sizeBytes l'))"
  by pat_completeness auto
termination by (relation "measure (\<lambda>(n, l). to_come l)") (auto intro: Client_read_on_shrinks)

declare read_result_on.simps [simp del]

lemma read_result_on_id: "read_result_on n l = Inr (reply, l') \<Longrightarrow> msgId reply = MSG_RESULT"
proof (induction n l rule: read_result_on.induct)
  case (1 n l)
  from "1.prems" show ?case
    by (subst (asm) read_result_on.simps) (auto split: sum.splits prod.splits if_splits dest: "1.IH")
qed

text \<open>With an open connection it is the loop of \<open>Job_Exchange\<close>.\<close>

lemma read_result_on_open:
  assumes "sizeof_msg \<le> n"
  shows "read_result_on n (Open inp False) =
    bindR (read_until_result n inp) (\<lambda>(reply, rest). Inr (reply, Open rest False))"
  using assms
proof (induction n inp rule: read_until_result.induct)
  case (1 n inp)
  show ?case
  proof (cases "length inp < n")
    case True
    then show ?thesis using "1.prems"
      by (subst read_result_on.simps, subst read_until_result.simps) (simp add: Client_read_on_def)
  next
    case False
    then have IH: "msgId reply \<noteq> MSG_RESULT \<Longrightarrow> read_result_on n (Open (drop n inp) False) =
        bindR (read_until_result n (drop n inp)) (\<lambda>(reply, rest). Inr (reply, Open rest False))" for reply :: msg
      using "1.IH" [of reply] "1.prems" by simp
    have "\<exists>reply. bytes_msg (take n inp) = Inr reply" using False "1.prems" by (simp add: bytes_msg_def)
    then obtain reply where "bytes_msg (take n inp) = Inr reply" by blast
    with False "1.prems" IH [of reply] show ?thesis
      by (subst read_result_on.simps, subst read_until_result.simps) (simp add: Client_read_on_def)
  qed
qed

section \<open>A job thread on its connection\<close>

text \<open>
  The whole of \<open>runJob\<close>: nothing in it catches an exception, so the first operation that throws ends it.
\<close>

definition runJob_on :: "link \<Rightarrow> job_res_pair \<Rightarrow> rat \<Rightarrow> rat \<Rightarrow> rat \<Rightarrow> scheduler \<Rightarrow>
    (int \<times> string \<times> byte list \<times> scheduler) result" where
  "runJob_on l pr start stop now s =
     bindR (runJob_request pr s) (\<lambda>(portNumber, name, m).
       bindR (Client_send_on l m) (\<lambda>sent.
         let sizeBytes = (ucast (of_nat sizeof_msg + expDataSizeBytes m) :: i32)
         in if sint sizeBytes < 0 then Inl Null_Deref
            else bindR (read_result_on (nat (sint sizeBytes)) l) (\<lambda>(reply, l').
              bindR (Client_stop_on l') (\<lambda>bye.
                Inr (portNumber, name, sent @ bye, runJob_complete pr reply start stop now s)))))"

text \<open>On a connection that stays open it is \<open>runJob\<close> on the bytes of the dispatcher.\<close>

lemma runJob_on_open:
  assumes "unat (expDataSizeBytes (req (job_at s p))) + sizeof_msg < 2 ^ 31"
  shows "runJob_on (Open inp False) (p, rs) start stop now s = runJob (p, rs) inp start stop now s"
proof -
  let ?m = "(req (job_at s p))\<lparr>rids := packed_rids rs\<rparr>" and ?n = "unat (expDataSizeBytes (req (job_at s p)))"
  note size = reply_size(2,3) [OF assms, of "expDataSizeBytes (req (job_at s p))"]
    and read = read_result_on_open [of "sizeof_msg + ?n" inp]
  show ?thesis
  proof (cases rs)
    case Nil
    then show ?thesis
      by (simp add: runJob_on_def runJob_def runJob_exchange_def runJob_request_def deque_front_def)
  next
    case (Cons r rs')
    then show ?thesis using size read
      by (cases "Client_send ?m"; cases "read_until_result (sizeof_msg + ?n) inp"; cases Client_stop)
        (auto simp: runJob_on_def runJob_def runJob_exchange_def runJob_request_def deque_front_def
          Client_send_on_def Client_stop_on_def Client_stop_def)
  qed
qed

lemma runJob_on_returns:
  assumes "runJob_on l pr start stop now s = Inr (portNumber, name, sent, s')"
  obtains rq reply where "runJob_request pr s = Inr rq" "msgId reply = MSG_RESULT"
    "s' = runJob_complete pr reply start stop now s"
  using assms read_result_on_id
  by (fastforce simp: runJob_on_def bindR_eq_Inr Let_def split: if_splits prod.splits)

text \<open>A peer that is gone, or goes before the reply to a request is complete.\<close>

definition lost_peer :: "link \<Rightarrow> msg \<Rightarrow> bool" where
  "lost_peer l m = (case l of
       Not_Open \<Rightarrow> True
     | Open inp closes \<Rightarrow> closes \<and> length inp < sizeof_msg + unat (expDataSizeBytes m))"

lemma runJob_on_lost:
  assumes "lost_peer l (req (job_at s p))" "wf_msg (req (job_at s p))"
    and "unat (expDataSizeBytes (req (job_at s p))) + sizeof_msg < 2 ^ 31" "rs \<noteq> []"
  shows "runJob_on l (p, rs) start stop now s = Inl System_Error"
proof -
  let ?m = "(req (job_at s p))\<lparr>rids := packed_rids rs\<rparr>" and ?n = "unat (expDataSizeBytes (req (job_at s p)))"
  obtain r rs' where rs: "rs = r # rs'" using assms(4) by (cases rs) auto
  have "write_msg ?m = Inr (msg_bytes ?m)" using assms(2) by (intro write_wf_msg) (simp add: wf_msg_def)
  moreover have "read_result_on (sizeof_msg + ?n) l = Inl System_Error"
    using assms(1) by (subst read_result_on.simps) (auto simp: lost_peer_def Client_read_on_def split: link.splits)
  ultimately show ?thesis
    using reply_size(2,3) [OF assms(3), of "expDataSizeBytes (req (job_at s p))"]
    by (cases l) (simp_all add: runJob_on_def runJob_request_def deque_front_def Client_send_on_def Client_send_def rs)
qed

section \<open>The scheduler as a process\<close>

text \<open>
  \<open>dispatcherLoop\<close> makes \<open>runJob\<close> the function of a detached thread. Such a thread ends when the function
  returns; when an exception leaves it, \<open>std::terminate\<close> ends the process with all its threads. (The
  other failures are undefined behaviour and are taken to end it as well.) \<open>peer\<close> is what the job threads
  find at the other end. The steps of the other threads are those of \<open>sys_step\<close>.
\<close>

record process =
  psys :: system
  terminated :: bool

datatype proc_label =
    Thread label
  | Job_Returns job_res_pair rat rat rat
  | Job_Throws job_res_pair failure

inductive proc_step :: "(job_res_pair \<Rightarrow> link) \<Rightarrow> proc_label \<Rightarrow> process \<Rightarrow> process \<Rightarrow> bool" for peer where
  thread: "\<not> terminated x \<Longrightarrow> \<not> is_complete l \<Longrightarrow> sys_step l (psys x) y \<Longrightarrow>
     proc_step peer (Thread l) x (x\<lparr>psys := y\<rparr>)"
| returns: "\<not> terminated x \<Longrightarrow> pr \<in> set (threads (psys x)) \<Longrightarrow>
     runJob_on (peer pr) pr start stop now (sch (psys x)) = Inr (portNumber, name, sent, s') \<Longrightarrow>
     proc_step peer (Job_Returns pr start stop now) x
       (x\<lparr>psys := (psys x)\<lparr>sch := s', threads := remove1 pr (threads (psys x))\<rparr>\<rparr>)"
| throws: "\<not> terminated x \<Longrightarrow> pr \<in> set (threads (psys x)) \<Longrightarrow>
     runJob_on (peer pr) pr start stop now (sch (psys x)) = Inl e \<Longrightarrow> e \<noteq> Would_Block \<Longrightarrow>
     proc_step peer (Job_Throws pr e) x (x\<lparr>terminated := True\<rparr>)"

text \<open>What the process does is a run of the scheduler until it ends.\<close>

lemma proc_step_sys:
  assumes "proc_step peer l x z"
  shows "psys z = psys x \<or> (\<exists>k. sys_step k (psys x) (psys z))"
  using assms
proof cases
  case (returns pr start stop now portNumber name sent s')
  obtain rq reply where "runJob_request pr (sch (psys x)) = Inr rq" "msgId reply = MSG_RESULT"
    "s' = runJob_complete pr reply start stop now (sch (psys x))"
    by (rule runJob_on_returns [OF returns(5)])
  with complete [OF returns(4), of rq reply start stop now] returns(2)
  have "sys_step (Complete pr reply start stop now) (psys x) (psys z)" by simp
  then show ?thesis by blast
qed auto

text \<open>A running job whose peer is lost.\<close>

definition doomed :: "(job_res_pair \<Rightarrow> link) \<Rightarrow> jref \<Rightarrow> resource list \<Rightarrow> process \<Rightarrow> bool" where
  "doomed peer p rs x \<longleftrightarrow> sys_inv (psys x) \<and> (p, rs) \<in> set (threads (psys x)) \<and> rs \<noteq> [] \<and>
     lost_peer (peer (p, rs)) (req (job_at (sch (psys x)) p)) \<and> wf_msg (req (job_at (sch (psys x)) p)) \<and>
     unat (expDataSizeBytes (req (job_at (sch (psys x)) p))) + sizeof_msg < 2 ^ 31"

lemma doomed_throws: "doomed peer p rs x \<Longrightarrow> runJob_on (peer (p, rs)) (p, rs) start stop now (sch (psys x)) = Inl System_Error"
  unfolding doomed_def by (intro runJob_on_lost) simp_all

interpretation doom: preserved "proc_step peer" "doomed peer p rs" for peer p rs
proof unfold_locales
  fix l x z
  assume l: "proc_step peer l x z" and x: "doomed peer p rs x"
  have inv: "sys_inv (psys x)" and p: "(p, rs) \<in> set (threads (psys x))" using x by (simp_all add: doomed_def)
  have "p \<in> set (map fst (threads (psys x)))" using p by force
  then have n: "p < nextRef (sch (psys x))" using inv by (auto simp: sys_inv_def inv_jobs_def job_places_def)
  from proc_step_sys [OF l]
  have "sys_inv (psys z) \<and> req (job_at (sch (psys z)) p) = req (job_at (sch (psys x)) p)"
  proof
    assume "\<exists>k. sys_step k (psys x) (psys z)"
    then obtain k where k: "sys_step k (psys x) (psys z)" ..
    from sys_inv_step [OF k inv] sys_step_jobs [OF k inv] n show ?thesis by (simp add: same_job_def)
  qed (use inv in simp)
  moreover from l have "(p, rs) \<in> set (threads (psys z))"
  proof cases
    case (thread k y)
    from thread(5) have "set (threads (psys x)) \<subseteq> set (threads y)"
      by cases (use thread(4) in \<open>auto split: option.splits\<close>)
    with p thread(2) show ?thesis by auto
  next
    case (returns pr start stop now portNumber name sent s')
    then have "pr \<noteq> (p, rs)" using doomed_throws [OF x] by auto
    with p returns(2) show ?thesis by (simp add: in_set_remove1)
  qed (use p in auto)
  ultimately show "doomed peer p rs z" using x by (simp add: doomed_def)
qed

lemma doomed_ends:
  assumes "doomed peer p rs x" "\<not> terminated x"
  shows "\<exists>w. proc_step peer (Job_Throws (p, rs) System_Error) x w \<and> terminated w"
proof -
  have "(p, rs) \<in> set (threads (psys x))" using assms(1) by (simp add: doomed_def)
  from throws [where pr = "(p, rs)" and peer = peer and x = x, OF assms(2) this doomed_throws [OF assms(1), of 0 0 0]]
  have "proc_step peer (Job_Throws (p, rs) System_Error) x (x\<lparr>terminated := True\<rparr>)" by simp
  then show ?thesis by (intro exI conjI) (assumption, simp)
qed

text \<open>It is never finished, and its client never answered.\<close>

lemma doomed_unanswered:
  assumes "doomed peer p rs x"
  shows "p \<notin> set (completed (psys x)) \<and> handler (psys x) p \<noteq> Returned"
proof -
  have inv: "sys_inv (psys x)" "p \<in> set (map fst (threads (psys x)))" using assms by (force simp: doomed_def)+
  then have "p \<notin> set (completed (psys x))" "p < nextRef (sch (psys x))"
    by (auto simp: sys_inv_def inv_jobs_def job_places_def)
  with inv(1) show ?thesis by (auto simp: sys_inv_def inv_flags_def)
qed

lemma terminated_stays: "terminated x \<Longrightarrow> \<not> proc_step peer l x z"
  by (auto elim: proc_step.cases)

end
