(* ===== verification/Failing_Peers.thy ===== *)
theory Failing_Peers
  imports Job_Exchange Server_Pool
begin

text \<open>
  A connection handler that is interrupted while its client waits
  (\<open>Scheduler::concurrentHandler\<close>, \<open>MultiThreadedTCPServer::handle_stop\<close>).
\<close>

section \<open>A handler that is interrupted\<close>

text \<open>
  \<open>handle_stop\<close> interrupts the worker threads. One that waits for a job, or comes to the wait
  afterwards, leaves \<open>concurrentHandler\<close> with the response as it was allocated; the job stays queued.
\<close>

definition concurrentHandler_interrupted :: "msg \<Rightarrow> msg \<Rightarrow> rat \<Rightarrow> scheduler \<Rightarrow> msg \<times> scheduler" where
  "concurrentHandler_interrupted request response now s =
     (response, snd (concurrentHandler_submit request now s))"

definition handle_request_interrupted :: "rat \<Rightarrow> msg \<Rightarrow> scheduler \<Rightarrow> (msg option \<times> scheduler) result" where
  "handle_request_interrupted now request s = (case scheduler_handle_request request of
       Stop_Server \<Rightarrow> bindR (scheduler_stop now s) (\<lambda>_. Inr (None, s))
     | Reply_Now m \<Rightarrow> Inr (Some m, s)
     | Run_Job sz with_wt \<Rightarrow> bindR (calloc_msg sz) (\<lambda>response.
         let (m, s') = concurrentHandler_interrupted request response now s
         in Inr (Some (if with_wt
                       then m\<lparr>avg_wt := of_int (duration_trunc (1000 * meanWaitTime (stats s)))\<rparr>
                       else m), s')))"

text \<open>A connection on which every iteration would block stays where it is.\<close>

lemma blocked_step:
  assumes "pool_step handle p q" "(k, bt, c) \<in> set (serving p)"
    and "\<And>s. conn_iter handle bt (c\<lparr>server := s\<rparr>) = Inl Would_Block"
  shows "(k, bt, c) \<in> set (serving q)"
  using assms(1,2)
proof (induction rule: pool_step.induct)
  case (iterates i p q)
  obtain k' bt' c' where at: "serving p ! i = (k', bt', c')" by (cases "serving p ! i")
  show ?case
  proof (cases "serving p ! i = (k, bt, c)")
    case True
    then have "q = p" if "i < length (serving p)" using iterates that assms(3) by (simp add: iterate_def split: if_splits)
    with iterates show ?thesis by (cases "i < length (serving p)") (simp_all add: iterate_def)
  next
    case False
    obtain j where j: "j < length (serving p)" "serving p ! j = (k, bt, c)"
      using iterates.prems by (auto simp: in_set_conv_nth)
    have ij: "i \<noteq> j" using False j by auto
    have upd: "(k, bt, c) \<in> set ((serving p)[i := e])" for e
      using j ij by (metis length_list_update nth_list_update_neq nth_mem)
    have "(k, bt, c) \<in> set (erase_at i (serving p))" using nth_in_erase_at [of j "serving p" i] j ij by simp
    with upd iterates show ?thesis
      by (auto simp: iterate_def split: if_splits prod.splits sum.splits option.splits)
  qed
qed (auto simp: handle_accept_def begin_read_def handle_stop_def
    split: if_splits list.splits prod.splits option.splits)

lemma blocked_run:
  assumes "pool_run handle p q" "(k, bt, c) \<in> set (serving p)"
    and "\<And>s. conn_iter handle bt (c\<lparr>server := s\<rparr>) = Inl Would_Block"
  shows "(k, bt, c) \<in> set (serving q)"
  using assms(1,2) by (induction rule: pool_run.induct) (auto intro: blocked_step assms(3))

text \<open>An interrupted handler writes nothing and waits for its client, which waits for the reply.\<close>

lemma interrupted_iter:
  assumes "incoming c = []" "\<not> peer_closed c" "bytes_msg (buffer c) = Inr m"
    and "unat (scast (ucast (totalBytes m) :: i32) :: size_t) \<le> bt"
    and "msgId m = MSG_MOVING_AVG \<or> msgId m = MSG_OPTION_PRICE"
    and "unat (expDataSizeBytes m) + sizeof_msg < 2 ^ 31"
  shows "conn_iter (handle_request_interrupted now) bt c = Inl Would_Block"
proof -
  have g: "gather_request bt c = Inr (m, c)" using assms(3,4) by (simp add: gather_request_def)
  let ?sz = "of_nat sizeof_msg + expDataSizeBytes m :: size_t"
  have "?sz = of_nat (unat (expDataSizeBytes m) + sizeof_msg)" by simp
  moreover have "unat (expDataSizeBytes m) + sizeof_msg < 2 ^ 64" using assms(6) by simp
  ultimately have "unat ?sz = unat (expDataSizeBytes m) + sizeof_msg" by (simp only: unat_of_nat_small)
  then have calloc: "calloc_msg ?sz = Inr (zero_msg (unat (expDataSizeBytes m)))"
    using assms(6) by (simp add: calloc_msg_def)
  have act: "\<exists>wt. scheduler_handle_request m = Run_Job ?sz wt"
    using assms(5) by (auto simp: scheduler_handle_request_def msg_ids)
  have "\<exists>r s'. handle_request_interrupted now m (server c) = Inr (Some r, s') \<and> totalBytes r = 0"
    using act calloc by (auto simp: handle_request_interrupted_def concurrentHandler_interrupted_def zero_msg_def)
  then obtain r s' where "handle_request_interrupted now m (server c) = Inr (Some r, s')" "write_msg r = Inr []"
    by (auto simp: write_msg_def)
  with g assms(1,2) show ?thesis
    by (simp add: conn_iter_def answer_def read_some_simps no_bytes_def Let_def)
qed

section \<open>Properties\<close>

text \<open>
  C23. Stopping the scheduler does not end while a client waits: the interrupted handler returns the
  empty response, of which no byte is written, and reads from the client again, while the client
  still reads the reply. From then on the connection is never finished, and \<open>run\<close> does not return.
\<close>

theorem interrupted_client_blocks_shutdown:
  assumes "(k, bt, c) \<in> set (serving p)" "incoming c = []" "\<not> peer_closed c" "outgoing c = []"
    and "bytes_msg (buffer c) = Inr m" "unat (scast (ucast (totalBytes m) :: i32) :: size_t) \<le> bt"
    and "msgId m = MSG_MOVING_AVG \<or> msgId m = MSG_OPTION_PRICE"
    and "unat (expDataSizeBytes m) + sizeof_msg < 2 ^ 31"
    and "pool_run (handle_request_interrupted now) p q"
  shows "(k, bt, c) \<in> set (serving q) \<and> \<not> run_returns q \<and>
    Client_getResult out (ucast (expDataSizeBytes m)) (outgoing c) = Inl Would_Block"
proof -
  let ?n = "unat (expDataSizeBytes m)"
  have "conn_iter (handle_request_interrupted now) bt (c\<lparr>server := s\<rparr>) = Inl Would_Block" for s
    by (rule interrupted_iter) (use assms(2,3,5-8) in simp_all)
  from blocked_run [OF assms(9,1) this] have stays: "(k, bt, c) \<in> set (serving q)" .
  have "(ucast (expDataSizeBytes m) :: i32) = of_nat ?n" using ucast_of_nat [of ?n] by simp
  note size = result_size [OF assms(8) this]
  have "Client_getResult out (ucast (expDataSizeBytes m)) [] = Inl Would_Block"
    unfolding Client_getResult_def size Let_def nat_int
    by (simp add: Client_read_def sizeof_msg_def del: of_nat_add)
  with stays assms(4) show ?thesis by (auto simp: run_returns_def)
qed

theorem interrupted_client_blocks_shutdown_witness:
  "\<exists>p c. (7, 69, c) \<in> set (serving p) \<and> stopped p \<and>
    (\<forall>q. pool_run (handle_request_interrupted 0) p q \<longrightarrow> \<not> run_returns q) \<and>
    Client_getResult [] 0 (outgoing c) = Inl Would_Block"
proof -
  let ?m = "(zero_msg 0)\<lparr>msgId := MSG_MOVING_AVG, totalBytes := 69\<rparr>"
  let ?s = "scheduler_main 8112 (\<lambda>_. demo_tuple 0) 0 0"
  let ?c = "\<lparr>buffer = msg_bytes ?m, incoming = [], peer_closed = False, outgoing = [], server = ?s\<rparr>"
  let ?p = "(Server_new 4 ?s)\<lparr>serving := [(7, 69, ?c)], signalled := True, stopped := True\<rparr>"
  have m: "bytes_msg (buffer ?c) = Inr ?m" by (simp add: bytes_msg_msg_bytes)
  have e: "expDataSizeBytes ?m = 0" by (simp add: zero_msg_def)
  have "\<not> run_returns q \<and> Client_getResult [] 0 (outgoing ?c) = Inl Would_Block"
    if "pool_run (handle_request_interrupted 0) ?p q" for q
    using interrupted_client_blocks_shutdown [of 7 69 ?c ?p ?m 0 q "[]"] that m e
    by (simp add: sizeof_msg_def)
  from this [OF pool_run.here] this show ?thesis
    by (intro exI [of _ ?p] exI [of _ ?c]) simp
qed

end
