(* ===== verification/Perf_Model.thy ===== *)
theory Perf_Model
  imports Complex_Main Hydrogen_Prelude
begin

text \<open>
  Performance models (\<open>src/executor/PerfModel.cpp\<close>, \<open>PerfModel.hpp\<close>) and implementations
  (\<open>src/common/Implementation.hpp\<close>). A model predicts the time of an implementation as a
  polynomial in the input size; its weights come from gradient descent on measured times.
  Doubles are rational numbers here: rounding is not modelled. Measured times are an
  argument: \<open>f i k\<close> is what the \<open>k\<close>-th call on size \<open>i\<close> returns. The text archives are Boost's and an
  argument too: \<open>ar\<close> is what \<open>ar & member\<close> does to a member and to the text of the file.
\<close>

section \<open>State\<close>

record implementation =
  libraryName :: string
  funcName :: string
  impName :: string
  impUrl :: string
  impPort :: string
  impType :: string

record perf_model =
  alpha :: rat
  iterations :: nat
  numberOfFeatures :: int
  numberOfDataPoints :: int
  polyOrder :: int
  features :: "rat list list"
  weights :: "rat list"
  milliseconds :: "rat list"
  imp :: "implementation option"

text \<open>The setters of the two classes.\<close>

definition setFuncName :: "string \<Rightarrow> implementation \<Rightarrow> implementation" where
  "setFuncName arg i = i\<lparr>funcName := arg\<rparr>"
definition setLibName :: "string \<Rightarrow> implementation \<Rightarrow> implementation" where
  "setLibName arg i = i\<lparr>libraryName := arg\<rparr>"
definition setName :: "string \<Rightarrow> implementation \<Rightarrow> implementation" where
  "setName arg i = i\<lparr>impName := arg\<rparr>"
definition setUrl :: "string \<Rightarrow> implementation \<Rightarrow> implementation" where
  "setUrl arg i = i\<lparr>impUrl := arg\<rparr>"
definition setPort :: "string \<Rightarrow> implementation \<Rightarrow> implementation" where
  "setPort arg i = i\<lparr>impPort := arg\<rparr>"
definition setType :: "string \<Rightarrow> implementation \<Rightarrow> implementation" where
  "setType arg i = i\<lparr>impType := arg\<rparr>"

definition setAlpha :: "rat \<Rightarrow> perf_model \<Rightarrow> perf_model" where
  "setAlpha a pm = pm\<lparr>alpha := a\<rparr>"
definition setIter :: "nat \<Rightarrow> perf_model \<Rightarrow> perf_model" where
  "setIter i pm = pm\<lparr>iterations := i\<rparr>"

text \<open>The constructors leave \<open>numberOfDataPoints\<close> uninitialised: \<open>junk\<close>.\<close>

definition PerfModel_default :: "implementation option \<Rightarrow> int \<Rightarrow> perf_model" where
  "PerfModel_default param junk = \<lparr>alpha = 4 / 10 ^ 18, iterations = 100, numberOfFeatures = 4,
     numberOfDataPoints = junk, polyOrder = 3, features = [], weights = [], milliseconds = [],
     imp = param\<rparr>"

definition PerfModel_new :: "implementation option \<Rightarrow> rat \<Rightarrow> nat \<Rightarrow> int \<Rightarrow> int \<Rightarrow> int \<Rightarrow> perf_model" where
  "PerfModel_new param a it feat ord junk = \<lparr>alpha = a, iterations = it, numberOfFeatures = feat,
     numberOfDataPoints = junk, polyOrder = ord, features = [], weights = [], milliseconds = [],
     imp = param\<rparr>"

section \<open>Test data\<close>

text \<open>One row: the powers of the input up to the order.\<close>

definition powers :: "int \<Rightarrow> rat \<Rightarrow> rat list" where
  "powers ord x = map (\<lambda>j. x ^ j) [0..<nat (ord + 1)]"

text \<open>
  The measuring loop. The progress dots compute \<open>i % (maxsize/100)\<close>, a division by zero for
  sizes below 100. The index is a 64-bit number and wraps around, so the loop need not end: \<open>None\<close>.
\<close>

partial_function (option) measure_loop ::
    "(size_t \<Rightarrow> nat \<Rightarrow> rat) \<Rightarrow> size_t \<Rightarrow> size_t \<Rightarrow> perf_model \<Rightarrow> perf_model result option" where
  "measure_loop f maxsize i pm =
     (if i < maxsize
      then if maxsize div 100 = 0 then Some (Inl Division_By_Zero)
           else measure_loop f maxsize (i + maxsize div 100)
                  (if 0 < i
                   then pm\<lparr>features := features pm @ [powers (polyOrder pm) (of_nat (unat i))],
                          milliseconds := milliseconds pm @ [(f i 1 + f i 2 + f i 3) / 3]\<rparr>
                   else pm)
      else Some (Inr pm))"

definition GenerateTestData :: "size_t \<Rightarrow> (size_t \<Rightarrow> nat \<Rightarrow> rat) \<Rightarrow> perf_model \<Rightarrow> perf_model result option" where
  "GenerateTestData maxsize f pm =
     measure_loop f maxsize 0
       (pm\<lparr>features := features pm @ [replicate (nat (polyOrder pm + 1)) 1],
          milliseconds := milliseconds pm @ [1]\<rparr>)"

section \<open>Linear regression\<close>

text \<open>\<open>H\<close>: the model's value on a data point; a row or weight vector that is too short is overrun.\<close>

definition hypothesis :: "nat \<Rightarrow> rat list \<Rightarrow> rat list \<Rightarrow> rat result" where
  "hypothesis n ws row =
     (if n \<le> length ws \<and> n \<le> length row then Inr (\<Sum>i\<leftarrow>[0..<n]. ws ! i * row ! i)
      else Inl Out_Of_Bounds)"

fun cost_derivative :: "nat \<Rightarrow> rat list \<Rightarrow> nat \<Rightarrow> (rat \<times> rat list) list \<Rightarrow> rat \<Rightarrow> rat result" where
  "cost_derivative n ws f [] acc = Inr acc"
| "cost_derivative n ws f ((y, row) # points) acc =
     bindR (hypothesis n ws row) (\<lambda>h.
       if f < length row then cost_derivative n ws f points (acc + (h - y) * row ! f)
       else Inl Out_Of_Bounds)"

fun new_weights :: "rat \<Rightarrow> nat \<Rightarrow> rat list \<Rightarrow> (rat \<times> rat list) list \<Rightarrow> nat list \<Rightarrow> rat list result" where
  "new_weights a n ws points [] = Inr []"
| "new_weights a n ws points (f # fs) =
     bindR (cost_derivative n ws f points 0) (\<lambda>d.
       bindR (new_weights a n ws points fs) (\<lambda>rest. Inr ((ws ! f - a * d) # rest)))"

text \<open>\<open>k\<close> more iterations; the progress dots divide by \<open>iterations / 10\<close>.\<close>

fun regression_loop :: "nat \<Rightarrow> perf_model \<Rightarrow> perf_model result" where
  "regression_loop 0 pm = Inr pm"
| "regression_loop (Suc k) pm =
     (if iterations pm div 10 = 0 then Inl Division_By_Zero
      else (let n = nat (numberOfFeatures pm) in
        bindR (new_weights (alpha pm) n (weights pm) (zip (milliseconds pm) (features pm)) [0..<n]) (\<lambda>ws.
          regression_loop k (pm\<lparr>weights := ws\<rparr>))))"

text \<open>
  \<open>LinearRegression\<close>; data points and rows come in pairs, an extra time without its row is
  read out of bounds.
\<close>

definition LinearRegression :: "perf_model \<Rightarrow> perf_model result" where
  "LinearRegression pm =
     (if length (features pm) < length (milliseconds pm) \<and> 0 < numberOfFeatures pm \<and> 0 < iterations pm
      then Inl Out_Of_Bounds
      else regression_loop (iterations pm)
        (pm\<lparr>numberOfDataPoints := int (length (milliseconds pm)),
           weights := replicate (nat (numberOfFeatures pm)) 0\<rparr>))"

text \<open>The function that is measured takes an \<open>int\<close>: \<open>CreateModel\<close> converts the sizes.\<close>

definition CreateModel :: "size_t \<Rightarrow> (i32 \<Rightarrow> nat \<Rightarrow> rat) \<Rightarrow> perf_model \<Rightarrow> perf_model result option" where
  "CreateModel maxsize f pm =
     map_option (\<lambda>r. bindR r LinearRegression) (GenerateTestData maxsize (\<lambda>i. f (ucast i)) pm)"

section \<open>Queries\<close>

definition QueryModel :: "rat \<Rightarrow> perf_model \<Rightarrow> rat result" where
  "QueryModel x pm = hypothesis (nat (numberOfFeatures pm)) (weights pm) (powers (polyOrder pm) x)"

lemma QueryModel_settings: "QueryModel x (setAlpha a (setIter n pm)) = QueryModel x pm"
  by (simp add: QueryModel_def setAlpha_def setIter_def)

text \<open>
  The output operator writes the polynomial and its value at 2, which it computes as it goes:
  \<open>print_terms\<close> is the loop, from feature \<open>i\<close> on.
\<close>

fun print_terms :: "nat list \<Rightarrow> rat list \<Rightarrow> rat list \<Rightarrow> rat \<Rightarrow> rat result" where
  "print_terms [] ws xs projectedCost = Inr projectedCost"
| "print_terms (i # is) ws xs projectedCost =
     (if i < length ws \<and> i < length xs
      then print_terms is ws xs (projectedCost + ws ! i * xs ! i) else Inl Out_Of_Bounds)"

definition print_model :: "perf_model \<Rightarrow> rat result" where
  "print_model pm =
     print_terms [0..<nat (numberOfFeatures pm)] (weights pm) (powers (polyOrder pm) 2) 0"

section \<open>Serialisation\<close>

text \<open>
  The template \<open>serialize\<close> applies \<open>ar & member\<close> to the members it names, one after the other, and is
  the same for both directions: a writing archive appends the text of the member to the file and leaves
  the member, a reading archive takes the next value off the text and puts it into the member. Either may
  throw.
\<close>

datatype member =
    Double rat
  | Unsigned nat
  | Integer int
  | Rows "rat list list"
  | Doubles "rat list"

type_synonym archive = "member \<Rightarrow> string \<Rightarrow> (member \<times> string) result"

fun visit :: "archive \<Rightarrow> member list \<Rightarrow> string \<Rightarrow> (member list \<times> string) result" where
  "visit ar [] t = Inr ([], t)"
| "visit ar (m # ms) t =
     bindR (ar m t) (\<lambda>(m', t'). bindR (visit ar ms t') (\<lambda>(ms', t''). Inr (m' # ms', t'')))"

definition members :: "perf_model \<Rightarrow> member list" where
  "members pm = [Double (alpha pm), Unsigned (iterations pm), Integer (numberOfFeatures pm),
     Integer (polyOrder pm), Rows (features pm), Doubles (weights pm), Doubles (milliseconds pm)]"

text \<open>An archive does not change the type of a member: the errors below do not arise.\<close>

fun to_double :: "member \<Rightarrow> rat result" where
  "to_double (Double a) = Inr a" | "to_double _ = Inl Invalid_Argument"
fun to_unsigned :: "member \<Rightarrow> nat result" where
  "to_unsigned (Unsigned n) = Inr n" | "to_unsigned _ = Inl Invalid_Argument"
fun to_integer :: "member \<Rightarrow> int result" where
  "to_integer (Integer n) = Inr n" | "to_integer _ = Inl Invalid_Argument"
fun to_rows :: "member \<Rightarrow> rat list list result" where
  "to_rows (Rows r) = Inr r" | "to_rows _ = Inl Invalid_Argument"
fun to_doubles :: "member \<Rightarrow> rat list result" where
  "to_doubles (Doubles d) = Inr d" | "to_doubles _ = Inl Invalid_Argument"

definition put_members :: "member list \<Rightarrow> perf_model \<Rightarrow> perf_model result" where
  "put_members ms pm =
     bindR (to_double (ms ! 0)) (\<lambda>a. bindR (to_unsigned (ms ! 1)) (\<lambda>it.
     bindR (to_integer (ms ! 2)) (\<lambda>n. bindR (to_integer (ms ! 3)) (\<lambda>ord.
     bindR (to_rows (ms ! 4)) (\<lambda>fs. bindR (to_doubles (ms ! 5)) (\<lambda>ws. bindR (to_doubles (ms ! 6)) (\<lambda>ts.
       Inr (pm\<lparr>alpha := a, iterations := it, numberOfFeatures := n, polyOrder := ord, features := fs,
         weights := ws, milliseconds := ts\<rparr>))))))))"

definition serialize :: "archive \<Rightarrow> perf_model \<Rightarrow> string \<Rightarrow> (perf_model \<times> string) result" where
  "serialize ar pm t = (case imp pm of
       None \<Rightarrow> Inl Invalid_Argument
     | Some _ \<Rightarrow> bindR (visit ar (members pm) t) (\<lambda>(ms, t').
         bindR (put_members ms pm) (\<lambda>pm'. Inr (pm', t'))))"

text \<open>A file name of \<open>SaveToDisk\<close> and \<open>LoadFromDisk\<close>, and the files of a directory.\<close>

definition SaveToDisk :: "archive \<Rightarrow> string \<Rightarrow> perf_model \<Rightarrow> (string \<rightharpoonup> string) \<Rightarrow> (string \<rightharpoonup> string) result" where
  "SaveToDisk ar name pm disk = bindR (serialize ar pm []) (\<lambda>(pm', t). Inr (disk(name @ ''.mdl'' \<mapsto> t)))"

definition default_name :: "implementation \<Rightarrow> string" where
  "default_name i = libraryName i @ ''_'' @ funcName i"

definition SaveToDisk_default :: "archive \<Rightarrow> perf_model \<Rightarrow> (string \<rightharpoonup> string) \<Rightarrow> (string \<rightharpoonup> string) result" where
  "SaveToDisk_default ar pm disk = (case imp pm of
       None \<Rightarrow> Inl Null_Deref | Some i \<Rightarrow> SaveToDisk ar (default_name i) pm disk)"

text \<open>A missing file makes the archive throw.\<close>

definition LoadFromDisk :: "archive \<Rightarrow> string \<Rightarrow> perf_model \<Rightarrow> (string \<rightharpoonup> string) \<Rightarrow> perf_model result" where
  "LoadFromDisk ar name pm disk = (case disk (name @ ''.mdl'') of
       None \<Rightarrow> Inl Invalid_Argument | Some t \<Rightarrow> bindR (serialize ar pm t) (\<lambda>(pm', t'). Inr pm'))"

definition LoadFromDisk_default :: "archive \<Rightarrow> perf_model \<Rightarrow> perf_model \<Rightarrow> (string \<rightharpoonup> string) \<Rightarrow> perf_model result" where
  "LoadFromDisk_default ar self pm disk = (case imp self of
       None \<Rightarrow> Inl Null_Deref | Some i \<Rightarrow> LoadFromDisk ar (default_name i) pm disk)"

text \<open>\<open>operator==\<close> compares every member but the implementation.\<close>

definition perf_model_eq :: "perf_model \<Rightarrow> perf_model \<Rightarrow> bool" where
  "perf_model_eq lhs rhs \<longleftrightarrow> alpha lhs = alpha rhs \<and> iterations lhs = iterations rhs \<and>
     numberOfFeatures lhs = numberOfFeatures rhs \<and> numberOfDataPoints lhs = numberOfDataPoints rhs \<and>
     polyOrder lhs = polyOrder rhs \<and> features lhs = features rhs \<and> weights lhs = weights rhs \<and>
     milliseconds lhs = milliseconds rhs"

section \<open>Facts\<close>

lemma length_powers [simp]: "length (powers ord x) = nat (ord + 1)"
  by (simp add: powers_def)

lemma nth_powers: "i < nat (ord + 1) \<Longrightarrow> powers ord x ! i = x ^ i"
  by (simp add: powers_def)

lemma QueryModel_polynomial:
  assumes "nat (numberOfFeatures pm) \<le> length (weights pm)" "nat (numberOfFeatures pm) \<le> nat (polyOrder pm + 1)"
  shows "QueryModel x pm = Inr (\<Sum>i\<leftarrow>[0..<nat (numberOfFeatures pm)]. weights pm ! i * x ^ i)"
proof -
  let ?n = "nat (numberOfFeatures pm)"
  have "map (\<lambda>i. weights pm ! i * powers (polyOrder pm) x ! i) [0..<?n] = map (\<lambda>i. weights pm ! i * x ^ i) [0..<?n]"
    using assms(2) by (intro map_cong) (auto simp: nth_powers)
  then have "(\<Sum>i\<leftarrow>[0..<?n]. weights pm ! i * powers (polyOrder pm) x ! i) = (\<Sum>i\<leftarrow>[0..<?n]. weights pm ! i * x ^ i)"
    by (rule arg_cong)
  then show ?thesis using assms unfolding QueryModel_def hypothesis_def by simp
qed

text \<open>What is printed for a model is the answer to the query at 2.\<close>

lemma print_terms_eq:
  "print_terms is ws xs z =
     (if \<forall>i\<in>set is. i < length ws \<and> i < length xs then Inr (z + (\<Sum>i\<leftarrow>is. ws ! i * xs ! i))
      else Inl Out_Of_Bounds)"
  by (induction "is" arbitrary: z) (auto simp: add.assoc)

lemma print_model_query: "print_model pm = QueryModel 2 pm"
proof -
  have bounds: "(\<forall>i\<in>{0..<n}. i < length ws \<and> i < length xs) \<longleftrightarrow> n \<le> length ws \<and> n \<le> length xs"
    for n and ws xs :: "rat list"
    by (cases n) auto
  show ?thesis
    unfolding print_model_def QueryModel_def hypothesis_def print_terms_eq set_upt bounds by simp
qed

text \<open>
  The data points of a training: one of ones, and the measurements at the multiples of a hundredth of the
  largest size.
\<close>

definition training_points :: "nat \<Rightarrow> int \<Rightarrow> (size_t \<Rightarrow> nat \<Rightarrow> rat) \<Rightarrow> (rat \<times> rat list) list" where
  "training_points maxsize ord f = (1, replicate (nat (ord + 1)) 1) #
     map (\<lambda>k. let n = k * (maxsize div 100)
               in ((f (of_nat n) 1 + f (of_nat n) 2 + f (of_nat n) 3) / 3, powers ord (of_nat n)))
       [1..<Suc ((maxsize - 1) div (maxsize div 100))]"

lemma training_points_rows: "\<forall>(y, row)\<in>set (training_points maxsize ord f). length row = nat (ord + 1)"
  by (auto simp: training_points_def Let_def)

text \<open>The loop from the \<open>k\<close>-th multiple on, as long as the index does not wrap around.\<close>

lemma hundredth:
  fixes maxsize :: size_t
  assumes "100 \<le> unat maxsize"
  shows "0 < unat maxsize div 100" "unat (maxsize div 100) = unat maxsize div 100" "maxsize div 100 \<noteq> 0"
    and "maxsize div 100 = of_nat (unat maxsize div 100)"
proof -
  show pos: "0 < unat maxsize div 100" using assms by simp
  show eq: "unat (maxsize div 100) = unat maxsize div 100" by (simp add: unat_div)
  from pos eq show "maxsize div 100 \<noteq> 0" by (metis unsigned_0 less_numeral_extra(3))
  show "maxsize div 100 = of_nat (unat maxsize div 100)" by (simp flip: eq)
qed

lemma multiple_in_range:
  fixes M :: nat
  assumes "0 < s" "0 < M"
  shows "k * s < M \<longleftrightarrow> k \<le> (M - 1) div s"
  using less_eq_div_iff_mult_less_eq [OF assms(1), of k "M - 1"] assms(2) by linarith

lemma measure_loop_multiples:
  fixes f :: "size_t \<Rightarrow> nat \<Rightarrow> rat" and maxsize :: size_t
  defines "step \<equiv> unat maxsize div 100" and "N \<equiv> Suc ((unat maxsize - 1) div (unat maxsize div 100))"
  assumes "100 \<le> unat maxsize" "unat maxsize + unat maxsize div 100 \<le> 2 ^ 64" "0 < k" "k \<le> N"
  shows "measure_loop f maxsize (of_nat (k * step)) pm = Some (Inr (pm\<lparr>
      features := features pm @ map (\<lambda>k. powers (polyOrder pm) (of_nat (k * step))) [k..<N],
      milliseconds := milliseconds pm @
        map (\<lambda>k. (f (of_nat (k * step)) 1 + f (of_nat (k * step)) 2 + f (of_nat (k * step)) 3) / 3) [k..<N]\<rparr>))"
  using assms(5,6)
proof (induction "N - k" arbitrary: k pm)
  case 0
  note h = hundredth [OF assms(3)]
  have "\<not> k * step < unat maxsize" "k = N"
    using 0 multiple_in_range [OF h(1), of "unat maxsize" k] assms(3) by (simp_all add: N_def step_def)
  moreover have "k * step < 2 ^ 64"
  proof -
    have "(k - 1) * step < unat maxsize"
      using multiple_in_range [OF h(1), of "unat maxsize" "k - 1"] assms(3) \<open>k = N\<close> by (simp add: N_def step_def)
    then have "(k - 1) * step + step < 2 ^ 64" using assms(4) by (simp add: step_def)
    moreover have "(k - 1) * step + step = k * step" using 0(2) by (cases k) simp_all
    ultimately show ?thesis by simp
  qed
  then have "unat (of_nat (k * step) :: size_t) = k * step" by (simp only: unat_of_nat) simp
  ultimately have "\<not> of_nat (k * step) < maxsize" by (simp add: word_less_nat_alt del: of_nat_mult)
  with \<open>k = N\<close> show ?case by (subst measure_loop.simps) simp
next
  case (Suc n)
  note h = hundredth [OF assms(3)]
  have k: "k * step < unat maxsize" "k < N"
    using Suc(2) multiple_in_range [OF h(1), of "unat maxsize" k] assms(3) by (simp_all add: N_def step_def)
  then have "k * step < 2 ^ 64" using assms(4) by simp
  then have u: "unat (of_nat (k * step) :: size_t) = k * step" by (simp only: unat_of_nat) simp
  have lt: "of_nat (k * step) < maxsize" using k(1) by (simp only: word_less_nat_alt u)
  have "0 < k * step" using h(1) Suc(3) by (simp add: step_def)
  then have pos: "0 < (of_nat (k * step) :: size_t)" by (simp only: word_less_nat_alt u unsigned_0)
  have "maxsize div 100 = of_nat step" unfolding step_def by (rule h(4))
  then have nx: "of_nat (k * step) + maxsize div 100 = (of_nat (Suc k * step) :: size_t)" by simp
  show ?case
    using Suc(1) [of "Suc k" "pm\<lparr>features := features pm @ [powers (polyOrder pm) (of_nat (k * step))],
        milliseconds := milliseconds pm @ [(f (of_nat (k * step)) 1 + f (of_nat (k * step)) 2 + f (of_nat (k * step)) 3) / 3]\<rparr>"]
      Suc(2) k(2) h(3) lt pos nx u
    by (subst measure_loop.simps) (simp add: upt_conv_Cons del: of_nat_mult mult_Suc)
qed
lemma GenerateTestData_points:
  assumes "100 \<le> unat maxsize" "unat maxsize + unat maxsize div 100 \<le> 2 ^ 64"
    and "features pm = []" "milliseconds pm = []"
  shows "GenerateTestData maxsize f pm =
    Some (Inr (pm\<lparr>features := map snd (training_points (unat maxsize) (polyOrder pm) f),
      milliseconds := map fst (training_points (unat maxsize) (polyOrder pm) f)\<rparr>))"
proof -
  note h = hundredth [OF assms(1)]
  have "0 < maxsize" using assms(1) by (simp add: word_less_nat_alt)
  moreover have "maxsize div 100 = of_nat (1 * (unat maxsize div 100))" using h(4) by simp
  ultimately have "measure_loop f maxsize 0 q = measure_loop f maxsize (of_nat (1 * (unat maxsize div 100))) q" for q
    using h(3) by (subst measure_loop.simps) simp
  then show ?thesis
    unfolding GenerateTestData_def using measure_loop_multiples [OF assms(1,2), of 1] assms(3,4)
    by (simp add: training_points_def Let_def comp_def)
qed

lemma GenerateTestData_small:
  assumes "0 < maxsize" "maxsize < 100"
  shows "GenerateTestData maxsize f pm = Some (Inl Division_By_Zero)"
proof -
  have "unat maxsize < 100" using assms(2) by (simp add: word_less_nat_alt)
  then have "unat (maxsize div 100) = 0" by (simp add: unat_div)
  then have "maxsize div 100 = 0" by (simp add: unsigned_eq_0_iff)
  with assms(1) show ?thesis unfolding GenerateTestData_def by (subst measure_loop.simps) simp
qed

text \<open>
  With the largest size of all the step is even and the index never gets to the one number that is not
  below it: the loop goes on for ever.
\<close>

lemma measure_loop_wraps:
  assumes "measure_loop f maxsize i pm = Some r"
  shows "maxsize = - 1 \<longrightarrow> even i \<longrightarrow> False"
proof (rule measure_loop.raw_induct [where P = "\<lambda>f maxsize i pm r. maxsize = - 1 \<longrightarrow> even i \<longrightarrow> False", OF _ assms])
  fix loop :: "(size_t \<Rightarrow> nat \<Rightarrow> rat) \<Rightarrow> size_t \<Rightarrow> size_t \<Rightarrow> perf_model \<Rightarrow> perf_model result option"
    and f :: "size_t \<Rightarrow> nat \<Rightarrow> rat" and maxsize i :: size_t and pm :: perf_model and r :: "perf_model result"
  let ?pm = "if 0 < i then pm\<lparr>features := features pm @ [powers (polyOrder pm) (of_nat (unat i))],
      milliseconds := milliseconds pm @ [(f i 1 + f i 2 + f i 3) / 3]\<rparr> else pm"
  assume IH: "\<And>f maxsize i pm r. loop f maxsize i pm = Some r \<Longrightarrow> maxsize = - 1 \<longrightarrow> even i \<longrightarrow> False"
    and eq: "(if i < maxsize then if maxsize div 100 = 0 then Some (Inl Division_By_Zero)
      else loop f maxsize (i + maxsize div 100) ?pm else Some (Inr pm)) = Some r"
  show "maxsize = - 1 \<longrightarrow> even i \<longrightarrow> False"
  proof (intro impI)
    assume m: "maxsize = - 1" and i: "even i"
    have "i \<noteq> - 1" using i by auto
    then have "i < maxsize" unfolding m by (simp only: word_order.not_eq_extremum)
    have "(- 1 :: size_t) div 100 = 184467440737095516" by simp
    then have step: "maxsize div 100 \<noteq> 0" "even (i + maxsize div 100)" using i m by simp_all
    from eq \<open>i < maxsize\<close> step(1) have "loop f maxsize (i + maxsize div 100) ?pm = Some r" by simp
    from IH [OF this] m step(2) show False by blast
  qed
qed

lemma cost_derivative_eq:
  assumes "n \<le> length ws" "\<forall>(y, row)\<in>set points. n \<le> length row" "f < n"
  shows "cost_derivative n ws f points acc =
    Inr (acc + (\<Sum>(y, row)\<leftarrow>points. ((\<Sum>i\<leftarrow>[0..<n]. ws ! i * row ! i) - y) * row ! f))"
  using assms(2)
proof (induction points arbitrary: acc)
  case (Cons p points)
  then show ?case using assms(1,3) by (cases p) (simp add: hypothesis_def)
qed simp

text \<open>One step of gradient descent on the sum of squared errors.\<close>

definition descent_step :: "rat \<Rightarrow> nat \<Rightarrow> (rat \<times> rat list) list \<Rightarrow> rat list \<Rightarrow> rat list" where
  "descent_step a n points ws = map (\<lambda>f. ws ! f - a *
     (\<Sum>(y, row)\<leftarrow>points. ((\<Sum>i\<leftarrow>[0..<n]. ws ! i * row ! i) - y) * row ! f)) [0..<n]"

lemma new_weights_eq:
  assumes "n \<le> length ws" "\<forall>(y, row)\<in>set points. n \<le> length row" "\<forall>f\<in>set fs. f < n"
  shows "new_weights a n ws points fs = Inr (map (\<lambda>f. ws ! f - a *
     (\<Sum>(y, row)\<leftarrow>points. ((\<Sum>i\<leftarrow>[0..<n]. ws ! i * row ! i) - y) * row ! f)) fs)"
  using assms(3) by (induction fs) (simp_all add: cost_derivative_eq [OF assms(1,2)])

lemma regression_loop_eq:
  assumes "10 \<le> iterations pm" "n = nat (numberOfFeatures pm)" "length (weights pm) = n"
    and "\<forall>row\<in>set (features pm). n \<le> length row"
  shows "regression_loop k pm = Inr (pm\<lparr>weights :=
    (descent_step (alpha pm) n (zip (milliseconds pm) (features pm)) ^^ k) (weights pm)\<rparr>)"
  using assms
proof (induction k arbitrary: pm)
  case (Suc k)
  let ?pts = "zip (milliseconds pm) (features pm)"
  let ?ws = "descent_step (alpha pm) n ?pts (weights pm)"
  have rows: "\<forall>(y, row)\<in>set ?pts. n \<le> length row" using Suc.prems(4) by (auto dest: set_zip_rightD)
  have "new_weights (alpha pm) n (weights pm) ?pts [0..<n] = Inr ?ws"
    using new_weights_eq [OF _ rows, of "weights pm" "[0..<n]" "alpha pm"] Suc.prems(3) by (simp add: descent_step_def)
  moreover have "length ?ws = n" by (simp add: descent_step_def)
  ultimately show ?case
    using Suc.prems Suc.IH [of "pm\<lparr>weights := ?ws\<rparr>"] by (simp add: Let_def funpow_swap1)
qed simp

section \<open>Properties\<close>

text \<open>
  C38. Training on measured data: with at least 100 sizes, as many as leave room for a step of the 64-bit
  index above the last one, at least ten iterations and no more features than powers, training a fresh
  model ends without error. The data points are the measurements at the multiples of a hundredth of the
  largest size, and the weights are those of \<open>iterations\<close> steps of gradient descent from zero on them.
\<close>

theorem CreateModel_trains:
  assumes "100 \<le> unat maxsize" "unat maxsize + unat maxsize div 100 \<le> 2 ^ 64"
    and "10 \<le> iterations pm" "nat (numberOfFeatures pm) \<le> nat (polyOrder pm + 1)"
    and "features pm = []" "milliseconds pm = []"
  shows "\<exists>pm'. CreateModel maxsize f pm = Some (Inr pm') \<and>
    zip (milliseconds pm') (features pm') = training_points (unat maxsize) (polyOrder pm) (\<lambda>i. f (ucast i)) \<and>
    numberOfDataPoints pm' = int (length (milliseconds pm')) \<and>
    weights pm' = (descent_step (alpha pm) (nat (numberOfFeatures pm))
      (training_points (unat maxsize) (polyOrder pm) (\<lambda>i. f (ucast i))) ^^ iterations pm)
        (replicate (nat (numberOfFeatures pm)) 0)"
proof -
  let ?n = "nat (numberOfFeatures pm)" and ?ps = "training_points (unat maxsize) (polyOrder pm) (\<lambda>i. f (ucast i))"
  let ?q = "pm\<lparr>features := map snd ?ps, milliseconds := map fst ?ps\<rparr>"
  let ?r = "?q\<lparr>numberOfDataPoints := int (length ?ps), weights := replicate ?n 0\<rparr>"
  have "\<forall>row\<in>set (features ?r). ?n \<le> length row"
    using training_points_rows [of "unat maxsize" "polyOrder pm" "\<lambda>i. f (ucast i)"] assms(4) by force
  then have "regression_loop (iterations ?q) ?r = Inr (?r\<lparr>weights :=
      (descent_step (alpha ?r) ?n (zip (milliseconds ?r) (features ?r)) ^^ iterations ?q) (weights ?r)\<rparr>)"
    using assms(3) by (intro regression_loop_eq) simp_all
  then show ?thesis
    using GenerateTestData_points [OF assms(1,2,5,6), of "\<lambda>i. f (ucast i)"]
    by (simp add: CreateModel_def LinearRegression_def zip_map_fst_snd)
qed

theorem CreateModel_trains_witness:
  "\<exists>pm'. CreateModel 100 (\<lambda>i k. of_int (sint i)) (PerfModel_default None 0) = Some (Inr pm') \<and>
    length (weights pm') = 4 \<and> length (zip (milliseconds pm') (features pm')) = 100"
proof -
  obtain pm' where pm': "CreateModel 100 (\<lambda>i k. of_int (sint i)) (PerfModel_default None 0) = Some (Inr pm')"
    "zip (milliseconds pm') (features pm') = training_points 100 3 (\<lambda>i k. of_int (sint (ucast i :: i32)))"
    "numberOfDataPoints pm' = int (length (milliseconds pm'))"
    "weights pm' = (descent_step (4 / 10 ^ 18) 4
      (training_points 100 3 (\<lambda>i k. of_int (sint (ucast i :: i32)))) ^^ 100) (replicate 4 0)"
    using CreateModel_trains [of 100 "PerfModel_default None 0" "\<lambda>i k. of_int (sint i)"]
    by (auto simp: PerfModel_default_def)
  have "length ((descent_step a n ps ^^ k) (replicate n 0)) = n" for a n ps k
    by (induction k) (simp_all add: descent_step_def)
  with pm'(4) have "length (weights pm') = 4" by simp
  moreover have "length (zip (milliseconds pm') (features pm')) = 100"
    unfolding pm'(2) by (simp add: training_points_def)
  ultimately show ?thesis using pm'(1) by blast
qed

text \<open>
  C39. Training with the largest 64-bit number of sizes never ends, whatever is measured: the index of the
  loop goes up in steps of a hundredth of it, wraps around at \<open>2 ^ 64\<close> and never meets the bound.
\<close>

theorem training_never_ends: "CreateModel (- 1) f pm = None"
proof -
  have "measure_loop g (- 1) 0 q \<noteq> Some r" for g q r using measure_loop_wraps [of g "- 1" 0 q r] by auto
  then have "measure_loop g (- 1) 0 q = None" for g q by (cases "measure_loop g (- 1) 0 q") auto
  then show ?thesis by (simp add: CreateModel_def GenerateTestData_def)
qed

text \<open>
  The progress output divides by a hundredth of the size and a tenth of the iterations:
  fewer than 100 sizes, or one to nine iterations, end in a division by zero.
\<close>

theorem training_division_by_zero:
  "(0 < maxsize \<and> maxsize < 100 \<longrightarrow> GenerateTestData maxsize f pm = Some (Inl Division_By_Zero)) \<and>
   (0 < iterations pm \<and> iterations pm < 10 \<and> length (milliseconds pm) \<le> length (features pm) \<longrightarrow>
      LinearRegression pm = Inl Division_By_Zero)"
proof (intro conjI impI)
  assume a: "0 < iterations pm \<and> iterations pm < 10 \<and> length (milliseconds pm) \<le> length (features pm)"
  then obtain k where k: "iterations pm = Suc k" using gr0_implies_Suc by blast
  then have "iterations pm div 10 = 0" using a by simp
  with a k show "LinearRegression pm = Inl Division_By_Zero" by (simp add: LinearRegression_def)
qed (use GenerateTestData_small in blast)

theorem training_division_by_zero_witness:
  "GenerateTestData 50 (\<lambda>i k. 0) (PerfModel_default None 0) = Some (Inl Division_By_Zero) \<and>
   LinearRegression (PerfModel_new None 1 5 2 1 0) = Inl Division_By_Zero"
  using training_division_by_zero [of 50 "\<lambda>i k. 0" "PerfModel_default None 0"]
    training_division_by_zero [of 50 "\<lambda>i k. 0" "PerfModel_new None 1 5 2 1 0"]
  by (simp add: PerfModel_new_def)

text \<open>
  Saving a model and loading it into another one restores everything a query depends on, provided that the
  archives are able to: that the text a member is written as is read back as that member. The two
  models are only equal for \<open>operator==\<close> if \<open>numberOfDataPoints\<close>, which is not saved, happens to agree.
\<close>

fun same_type :: "member \<Rightarrow> member \<Rightarrow> bool" where
  "same_type (Double a) (Double b) = True"
| "same_type (Unsigned a) (Unsigned b) = True"
| "same_type (Integer a) (Integer b) = True"
| "same_type (Rows a) (Rows b) = True"
| "same_type (Doubles a) (Doubles b) = True"
| "same_type _ _ = False"

definition restores :: "archive \<Rightarrow> archive \<Rightarrow> member \<Rightarrow> bool" where
  "restores out inp m \<longleftrightarrow> (\<exists>enc. (\<forall>t. out m t = Inr (m, t @ enc)) \<and>
     (\<forall>old rest. same_type old m \<longrightarrow> inp old (enc @ rest) = Inr (m, rest)))"

lemma visit_restores:
  assumes "\<forall>m\<in>set ms. restores out inp m" "list_all2 same_type olds ms"
  shows "\<exists>enc. (\<forall>t. visit out ms t = Inr (ms, t @ enc)) \<and> (\<forall>rest. visit inp olds (enc @ rest) = Inr (ms, rest))"
  using assms
proof (induction ms arbitrary: olds)
  case (Cons m ms)
  then obtain old olds' where o: "olds = old # olds'" "same_type old m" "list_all2 same_type olds' ms"
    by (auto simp: list_all2_Cons2)
  obtain e1 where e1: "\<forall>t. out m t = Inr (m, t @ e1)" "\<forall>rest. inp old (e1 @ rest) = Inr (m, rest)"
    using Cons.prems(1) o(2) by (auto simp: restores_def)
  obtain e2 where "\<forall>t. visit out ms t = Inr (ms, t @ e2)" "\<forall>rest. visit inp olds' (e2 @ rest) = Inr (ms, rest)"
    using Cons.IH [OF _ o(3)] Cons.prems(1) by auto
  with e1 o(1) show ?case by (intro exI [of _ "e1 @ e2"]) simp
qed simp

lemma save_load:
  assumes "imp pm \<noteq> None" "imp target \<noteq> None" "\<forall>m\<in>set (members pm). restores out inp m"
  shows "\<exists>disk' loaded. SaveToDisk out name pm disk = Inr disk' \<and> LoadFromDisk inp name target disk' = Inr loaded \<and>
    QueryModel x loaded = QueryModel x pm \<and> imp loaded = imp target \<and>
    (perf_model_eq loaded pm \<longleftrightarrow> numberOfDataPoints target = numberOfDataPoints pm)"
proof -
  have "list_all2 same_type (members target) (members pm)" by (simp add: members_def)
  from visit_restores [OF assms(3) this] obtain enc where
    out: "visit out (members pm) [] = Inr (members pm, enc)" and inp: "visit inp (members target) enc = Inr (members pm, [])"
    by (metis append_Nil append_Nil2)
  from assms(1) out have "SaveToDisk out name pm disk = Inr (disk(name @ ''.mdl'' \<mapsto> enc))"
    by (auto simp: SaveToDisk_def serialize_def members_def put_members_def)
  moreover from assms(2) inp obtain loaded where l: "LoadFromDisk inp name target (disk(name @ ''.mdl'' \<mapsto> enc)) = Inr loaded"
    "put_members (members pm) target = Inr loaded"
    by (auto simp: LoadFromDisk_def serialize_def members_def put_members_def)
  moreover from l(2) have "QueryModel x loaded = QueryModel x pm" "imp loaded = imp target"
    "perf_model_eq loaded pm \<longleftrightarrow> numberOfDataPoints target = numberOfDataPoints pm"
    by (auto simp: members_def put_members_def QueryModel_def perf_model_eq_def)
  ultimately show ?thesis by blast
qed

end
