(* ===== verification/Executor_Model.thy ===== *)
theory Executor_Model
  imports Client_Model Perf_Model
begin

text \<open>
  The executor (\<open>src/executor/Task.cpp\<close>, \<open>Executor.cpp\<close>, \<open>main.cxx\<close>): a proxy between a
  client and the scheduler that picks the implementation with the least predicted time.
  What the peer of a connection sends back is the
  argument \<open>inp\<close>; the connections opened and the bytes sent on them are part of the result.
\<close>

section \<open>Tasks\<close>

text \<open>
  The performance models of a task are a list of pointers that may be null. The lists hold
  pointers to distinct objects; a pointer to one of them is its position, so that removing
  it removes that element (and \<open>delete\<close>s the object, which is then out of use).
\<close>

record task =
  tname :: string
  Implementations :: "implementation list"
  PerformanceModels :: "perf_model option list"

definition Task_new :: "string \<Rightarrow> task" where
  "Task_new s = \<lparr>tname = s, Implementations = [], PerformanceModels = []\<rparr>"

definition task_eq :: "task \<Rightarrow> task \<Rightarrow> bool" where
  "task_eq lhs rhs = (tname lhs = tname rhs)"

definition Task_AddImp :: "implementation \<Rightarrow> task \<Rightarrow> task" where
  "Task_AddImp i t = t\<lparr>Implementations := Implementations t @ [i]\<rparr>"

definition Task_DelImp :: "nat \<Rightarrow> task \<Rightarrow> task" where
  "Task_DelImp i t = t\<lparr>Implementations := erase_at i (Implementations t)\<rparr>"

definition AddPerfModel :: "perf_model option \<Rightarrow> task \<Rightarrow> task" where
  "AddPerfModel p t = t\<lparr>PerformanceModels := PerformanceModels t @ [p]\<rparr>"

text \<open>Removing the null pointer removes every null entry.\<close>

definition DelPerfModel :: "nat option \<Rightarrow> task \<Rightarrow> task" where
  "DelPerfModel p t = t\<lparr>PerformanceModels := (case p of
       None \<Rightarrow> filter (\<lambda>m. m \<noteq> None) (PerformanceModels t)
     | Some i \<Rightarrow> erase_at i (PerformanceModels t))\<rparr>"

text \<open>The loop over the models: the values and the last predicted time. Null models are skipped.\<close>

fun predict_loop :: "nat \<Rightarrow> nat \<Rightarrow> perf_model option list \<Rightarrow> rat list \<Rightarrow> rat \<Rightarrow> (rat list \<times> rat) result" where
  "predict_loop dsize wt [] vs pt = Inr (vs, pt)"
| "predict_loop dsize wt (None # ps) vs pt = predict_loop dsize wt ps vs pt"
| "predict_loop dsize wt (Some p # ps) vs pt =
     bindR (QueryModel (of_nat dsize) p) (\<lambda>t. case imp p of
         None \<Rightarrow> Inl Null_Deref
       | Some i \<Rightarrow> (let t' = (if impType i = ''SHARED_DFE'' then t + of_nat wt else t)
                   in predict_loop dsize wt ps (vs @ [t']) t'))"

text \<open>
  \<open>SelectImplementation\<close>: the position of the least value among the values is used as a
  position among the models; the time returned is the last one computed.
\<close>

definition SelectImplementation :: "nat \<Rightarrow> nat \<Rightarrow> task \<Rightarrow> (implementation option \<times> rat) result" where
  "SelectImplementation dsize wt t =
     bindR (predict_loop dsize wt (PerformanceModels t) [] (- 1)) (\<lambda>(vs, predicted_time).
       let i = min_element (\<lambda>a b. a < b) vs
       in if i < length (PerformanceModels t)
          then (case PerformanceModels t ! i of
                  None \<Rightarrow> Inl Null_Deref
                | Some p \<Rightarrow> (case imp p of None \<Rightarrow> Inl Null_Deref
                             | Some im \<Rightarrow> Inr (Some im, predicted_time)))
          else Inl End_Deref)"

text \<open>
  The comparison operators of \<open>Task\<close>: \<open>std::string::compare\<close> is lexicographic in the characters
  as unsigned numbers, a proper prefix coming first.
\<close>

fun string_less :: "string \<Rightarrow> string \<Rightarrow> bool" where
  "string_less s [] = False"
| "string_less [] (b # bs) = True"
| "string_less (a # as) (b # bs) =
     ((of_char a :: nat) < of_char b \<or> a = b \<and> string_less as bs)"

definition task_less :: "task \<Rightarrow> task \<Rightarrow> bool" where
  "task_less lhs rhs = string_less (tname lhs) (tname rhs)"

definition task_greater :: "task \<Rightarrow> task \<Rightarrow> bool" where
  "task_greater lhs rhs = task_less rhs lhs"

definition task_le :: "task \<Rightarrow> task \<Rightarrow> bool" where
  "task_le lhs rhs = (\<not> task_greater lhs rhs)"

definition task_ge :: "task \<Rightarrow> task \<Rightarrow> bool" where
  "task_ge lhs rhs = (\<not> task_less lhs rhs)"

section \<open>The executor\<close>

record executor =
  AvailableRes :: "resource list"
  Tasks :: "task list"
  exec_avg_wt :: size_t
  cid :: string

definition Executor_new :: "string \<Rightarrow> executor" where
  "Executor_new c = \<lparr>AvailableRes = [], Tasks = [], exec_avg_wt = 0, cid = c\<rparr>"

definition GetResources :: "executor \<Rightarrow> resource list" where
  "GetResources e = AvailableRes e"

definition GetTasks :: "executor \<Rightarrow> task list" where
  "GetTasks e = Tasks e"

definition AddResource :: "resource \<Rightarrow> executor \<Rightarrow> executor" where
  "AddResource r e = e\<lparr>AvailableRes := AvailableRes e @ [r]\<rparr>"

definition SetTasks :: "task list \<Rightarrow> executor \<Rightarrow> executor" where
  "SetTasks ts e = e\<lparr>Tasks := ts\<rparr>"

definition AddTask :: "task \<Rightarrow> executor \<Rightarrow> executor" where
  "AddTask t e = e\<lparr>Tasks := Tasks e @ [t]\<rparr>"

definition DelTask :: "nat \<Rightarrow> executor \<Rightarrow> executor" where
  "DelTask i e = e\<lparr>Tasks := erase_at i (Tasks e)\<rparr>"

text \<open>\<open>FindTask\<close> gives the position of the task in the list, so that a caller can change it.\<close>

definition FindTask :: "string \<Rightarrow> executor \<Rightarrow> nat option" where
  "FindTask name e = find_if (task_eq (Task_new name)) (Tasks e)"

definition FindResource :: "string \<Rightarrow> executor \<Rightarrow> resource option" where
  "FindResource ty e = (case find_if (\<lambda>r. ty = rtype r) (AvailableRes e) of
       None \<Rightarrow> None | Some i \<Rightarrow> Some (AvailableRes e ! i))"

definition AddImp_model :: "nat option \<Rightarrow> perf_model option \<Rightarrow> executor \<Rightarrow> executor result" where
  "AddImp_model to p e = (case to of
       None \<Rightarrow> Inl Null_Deref
     | Some i \<Rightarrow> if i < length (Tasks e)
                 then Inr (e\<lparr>Tasks := (Tasks e)[i := AddPerfModel p (Tasks e ! i)]\<rparr>)
                 else Inl Null_Deref)"

text \<open>
  \<open>AddImp\<close> for a bare implementation: a model with the default parameters joins the task and
  is then loaded from the file \<open>MAV_DFE.mdl\<close>.
\<close>

definition AddImp_imp :: "nat option \<Rightarrow> implementation option \<Rightarrow> int \<Rightarrow> archive \<Rightarrow> (string \<rightharpoonup> string) \<Rightarrow>
    executor \<Rightarrow> executor result" where
  "AddImp_imp to im junk ar disk e =
     bindR (LoadFromDisk ar ''MAV_DFE'' (PerfModel_default im junk) disk) (\<lambda>p. AddImp_model to (Some p) e)"

definition GetImplementations :: "nat option \<Rightarrow> executor \<Rightarrow> implementation list result" where
  "GetImplementations to e = (case to of
       None \<Rightarrow> Inl Null_Deref
     | Some i \<Rightarrow> if i < length (Tasks e) then Inr (Implementations (Tasks e ! i)) else Inl Null_Deref)"

definition DelImp :: "nat option \<Rightarrow> nat \<Rightarrow> executor \<Rightarrow> executor result" where
  "DelImp to k e = (case to of
       None \<Rightarrow> Inl Null_Deref
     | Some i \<Rightarrow> if i < length (Tasks e)
                 then Inr (e\<lparr>Tasks := (Tasks e)[i := Task_DelImp k (Tasks e ! i)]\<rparr>)
                 else Inl Null_Deref)"

text \<open>A connection the executor opened: port, host and the bytes sent.\<close>

type_synonym connection_log = "(int \<times> string \<times> byte list) list"

definition runImp :: "implementation option \<Rightarrow> msg \<Rightarrow> byte list \<Rightarrow> executor \<Rightarrow>
    (msg \<times> connection_log) result" where
  "runImp io m inp e = (case io of
       None \<Rightarrow> Inl Null_Deref
     | Some i \<Rightarrow> (case FindResource (impType i) e of
           None \<Rightarrow> Inl Null_Deref
         | Some r \<Rightarrow> bindR (Resource_dispatch r (Some m) inp) (\<lambda>(rsp, sent). case rsp of
               None \<Rightarrow> Inl Null_Deref
             | Some x \<Rightarrow> Inr (x, [(port r, url r, sent)]))))"

text \<open>
  The proxy branch: forward to port 8121 and read replies sized by the request's \<open>dataSize\<close>,
  printing each, until a result comes.
\<close>

function print_until_result :: "nat \<Rightarrow> byte list \<Rightarrow> (msg \<times> byte list) result" where
  "print_until_result sizeBytes inp =
     (if sizeBytes < sizeof_msg then Inl Out_Of_Bounds
      else if length inp < sizeBytes then Inl Would_Block
      else bindR (bytes_msg (take sizeBytes inp)) (\<lambda>rsp.
        bindR (msg_print rsp) (\<lambda>_.
          if msgId rsp = MSG_RESULT then Inr (rsp, drop sizeBytes inp)
          else print_until_result sizeBytes (drop sizeBytes inp))))"
  by pat_completeness auto
termination
  by (relation "measure (\<lambda>(n, inp). length inp)") (auto simp: sizeof_msg_def)

declare print_until_result.simps [simp del]

definition proxy_request :: "msg \<Rightarrow> byte list \<Rightarrow> (msg \<times> connection_log) result" where
  "proxy_request request inp =
     (let sizeBytes = (ucast (of_nat sizeof_msg + 4 * dataSize request) :: i32)
      in if sint sizeBytes < 0 then Inl Null_Deref
         else bindR (Client_send (request\<lparr>predictedTimeMillis := 1\<rparr>)) (\<lambda>sent.
           bindR (print_until_result (nat (sint sizeBytes)) inp) (\<lambda>(rsp, rest).
             bindR Client_stop (\<lambda>bye. Inr (rsp, [(8121, ''localhost'', sent @ bye)])))))"

definition run_moving_average :: "msg \<Rightarrow> byte list \<Rightarrow> executor \<Rightarrow>
    (msg option \<times> connection_log \<times> executor) result" where
  "run_moving_average request inp e = (case FindTask ''MOVING_AVERAGE'' e of
       None \<Rightarrow> Inl Null_Deref
     | Some i \<Rightarrow>
         bindR (SelectImplementation (unat (dataSize request)) (unat (exec_avg_wt e)) (Tasks e ! i)) (\<lambda>(im, t).
           if rat_trunc t < - (2 ^ 31) \<or> 2 ^ 31 \<le> rat_trunc t then Inl Bad_Cast
           else bindR (runImp im (request\<lparr>predictedTimeMillis := of_int (rat_trunc t)\<rparr>) inp e) (\<lambda>(rsp, log).
             Inr (Some rsp, log, e\<lparr>exec_avg_wt := scast (avg_wt rsp)\<rparr>))))"

definition executor_handle_request :: "msg \<Rightarrow> byte list \<Rightarrow> executor \<Rightarrow>
    (msg option \<times> connection_log \<times> executor) result" where
  "executor_handle_request request inp e =
     (if sint (clientId request) \<noteq> atoi (cid e) then Inr (Some msg_ack, [], e)
      else if msgId request = MSG_CONTROL then Inr (None, [], e)
      else if msgId request = MSG_DONE then Inr (Some msg_ack, [], e)
      else if msgId request = MSG_TERM
        then bindR (Client_send request) (\<lambda>sent.
          Inr (Some msg_done, [(8121, ''localhost'', sent)], e))
      else if msgId request = MSG_ACK \<or> msgId request = MSG_MOVING_AVG
        then run_moving_average request inp e
      else bindR (proxy_request request inp) (\<lambda>(rsp, log). Inr (Some rsp, log, e)))"

text \<open>The set-up of \<open>main.cxx\<close> with the two models already loaded.\<close>

definition executor_setup :: "string \<Rightarrow> int \<Rightarrow> string \<Rightarrow> perf_model \<Rightarrow> perf_model \<Rightarrow> executor result" where
  "executor_setup c sched_port host perf_DFE perf_CPU =
     (let e0 = AddResource (Resource_new 1 sched_port host ''SHARED_DFE'') (Executor_new c);
          e1 = AddResource (Resource_new 2 8122 ''localhost'' ''CPU'') e0;
          e2 = AddTask (Task_new ''MOVING_AVERAGE'') e1
      in bindR (AddImp_model (FindTask ''MOVING_AVERAGE'' e2) (Some perf_DFE) e2) (\<lambda>e3.
           AddImp_model (FindTask ''MOVING_AVERAGE'' e3) (Some perf_CPU) e3))"

definition mav_imp :: "string \<Rightarrow> string \<Rightarrow> implementation" where
  "mav_imp func ty = \<lparr>libraryName = ''MAV'', funcName = func, impName = ''MOVING_AVERAGE'',
     impUrl = [], impPort = [], impType = ty\<rparr>"

text \<open>
  The whole of \<open>main\<close> up to \<open>start\<close>: the models are loaded from disk and printed.
\<close>

definition executor_main :: "string \<Rightarrow> int \<Rightarrow> string \<Rightarrow> int \<Rightarrow> archive \<Rightarrow> (string \<rightharpoonup> string) \<Rightarrow> executor result" where
  "executor_main c sched_port host junk ar disk =
     bindR (LoadFromDisk ar ''MAV_CPU''
         (PerfModel_new (Some (mav_imp ''mavCPU'' ''CPU'')) (4 / 10 ^ 18) 100 2 1 junk) disk) (\<lambda>perf_CPU.
       bindR (LoadFromDisk ar ''MAV_DFE''
           (PerfModel_new (Some (mav_imp ''mavDFE'' ''SHARED_DFE'')) (4 / 10 ^ 18) 100 2 1 junk) disk) (\<lambda>perf_DFE.
         bindR (print_model perf_CPU) (\<lambda>_. bindR (print_model perf_DFE) (\<lambda>_.
           executor_setup c sched_port host perf_DFE perf_CPU))))"

text \<open>The constructor listens on the port \<open>"811" + clientId\<close>, as text.\<close>

definition executor_port :: "string \<Rightarrow> string" where
  "executor_port client = ''811'' @ client"

text \<open>
  \<open>main\<close> from its options: \<open>--help\<close> or fewer than the three options ends with 1; the client id
  comes from the environment and otherwise from the command line.
\<close>

record executor_options =
  opt_help :: bool
  opt_client_id :: "string option"
  opt_scheduler_port :: "int option"
  opt_hostname :: "string option"

definition executor_process :: "executor_options \<Rightarrow> string option \<Rightarrow> int \<Rightarrow> archive \<Rightarrow> (string \<rightharpoonup> string) \<Rightarrow>
    (int + string \<times> executor) result" where
  "executor_process vm env junk ar disk =
     (case (opt_client_id vm, opt_scheduler_port vm, opt_hostname vm) of
        (Some i, Some p, Some h) \<Rightarrow>
          if opt_help vm then Inr (Inl 1)
          else (let clientIdCh = (case env of None \<Rightarrow> i | Some e \<Rightarrow> e)
                in bindR (executor_main clientIdCh p h junk ar disk) (\<lambda>e.
                  Inr (Inr (executor_port clientIdCh, e))))
      | _ \<Rightarrow> Inr (Inl 1))"

text \<open>
  The destructors count the elements first and then take as many from the front and delete them:
  a task its implementations, the executor its tasks and its resources.
\<close>

fun pop_all :: "('a \<Rightarrow> 'b result) \<Rightarrow> nat \<Rightarrow> 'a list \<Rightarrow> 'a list result" where
  "pop_all del 0 xs = Inr xs"
| "pop_all del (Suc n) [] = Inl Out_Of_Bounds"
| "pop_all del (Suc n) (x # xs) = bindR (del x) (\<lambda>_. pop_all del n xs)"

definition Task_destroy :: "task \<Rightarrow> task result" where
  "Task_destroy t =
     bindR (pop_all Inr (length (Implementations t)) (Implementations t)) (\<lambda>is. Inr (t\<lparr>Implementations := is\<rparr>))"

definition Executor_destroy :: "executor \<Rightarrow> executor result" where
  "Executor_destroy e =
     bindR (pop_all Task_destroy (length (Tasks e)) (Tasks e)) (\<lambda>ts.
       bindR (pop_all Inr (length (AvailableRes e)) (AvailableRes e)) (\<lambda>rs.
         Inr (e\<lparr>Tasks := ts, AvailableRes := rs\<rparr>)))"

section \<open>Facts\<close>

lemma pop_all_length: "\<forall>x\<in>set xs. \<exists>y. del x = Inr y \<Longrightarrow> pop_all del (length xs) xs = Inr []"
  by (induction xs) auto

text \<open>The destructors never read the front of an empty list and leave nothing behind.\<close>

lemma Task_destroy_empties: "Task_destroy t = Inr (t\<lparr>Implementations := []\<rparr>)"
  by (simp add: Task_destroy_def pop_all_length)

lemma Executor_destroy_empties:
  "\<exists>e'. Executor_destroy e = Inr e' \<and> GetTasks e' = [] \<and> GetResources e' = []"
  by (simp add: Executor_destroy_def pop_all_length Task_destroy_empties GetTasks_def GetResources_def)

text \<open>What was added is listed, in the order it was added.\<close>

lemma executor_lists:
  "GetResources (fold AddResource rs e) = GetResources e @ rs"
  "GetTasks (fold AddTask ts e) = GetTasks e @ ts"
proof -
  show "GetResources (fold AddResource rs e) = GetResources e @ rs"
    by (induction rs arbitrary: e) (simp_all add: GetResources_def AddResource_def)
  show "GetTasks (fold AddTask ts e) = GetTasks e @ ts"
    by (induction ts arbitrary: e) (simp_all add: GetTasks_def AddTask_def)
qed

text \<open>
  The operators of \<open>Task\<close> are those of a total preorder whose equivalence is \<open>operator==\<close>.
\<close>

lemma string_less_irrefl: "\<not> string_less s s"
  by (induction s) auto

lemma string_less_trans: "string_less a b \<Longrightarrow> string_less b c \<Longrightarrow> string_less a c"
proof (induction a b arbitrary: c rule: string_less.induct)
  case (2 b bs)
  then show ?case by (cases c) auto
next
  case (3 a as b bs)
  then show ?case by (cases c) auto
qed simp

lemma string_less_linear: "string_less a b \<or> a = b \<or> string_less b a"
proof (induction a b rule: string_less.induct)
  case (1 s)
  then show ?case by (cases s) auto
next
  case (3 a as b bs)
  then show ?case by (metis nat_neq_iff of_char_eq_iff string_less.simps(3))
qed simp

interpretation task_order: preordering task_le task_less
proof
  fix a b c
  show "task_le a a" by (simp add: task_le_def task_greater_def task_less_def string_less_irrefl)
  show "task_less a b \<longleftrightarrow> task_le a b \<and> \<not> task_le b a"
    using string_less_trans string_less_irrefl by (auto simp: task_le_def task_greater_def task_less_def)
  show "task_le a b \<Longrightarrow> task_le b c \<Longrightarrow> task_le a c"
    using string_less_trans string_less_linear unfolding task_le_def task_greater_def task_less_def by metis
qed

lemma task_order_total: "task_le a b \<or> task_le b a"
  using string_less_trans string_less_irrefl by (auto simp: task_le_def task_greater_def task_less_def)

lemma task_eq_le: "task_eq a b \<longleftrightarrow> task_le a b \<and> task_ge a b"
  using string_less_linear string_less_irrefl
  by (auto simp: task_eq_def task_le_def task_ge_def task_greater_def task_less_def)

text \<open>The adjusted time of a model: the prediction, plus the waiting time for shared DFEs.\<close>

definition adjusted_time :: "nat \<Rightarrow> nat \<Rightarrow> perf_model \<Rightarrow> rat" where
  "adjusted_time dsize wt p =
     (\<Sum>i\<leftarrow>[0..<nat (numberOfFeatures p)]. weights p ! i * of_nat dsize ^ i) +
     (case imp p of Some i \<Rightarrow> if impType i = ''SHARED_DFE'' then of_nat wt else 0 | None \<Rightarrow> 0)"

definition usable_model :: "perf_model \<Rightarrow> bool" where
  "usable_model p \<longleftrightarrow> imp p \<noteq> None \<and> nat (numberOfFeatures p) \<le> length (weights p) \<and>
     nat (numberOfFeatures p) \<le> nat (polyOrder p + 1)"

lemma predict_loop_eq:
  assumes "\<forall>p\<in>set ps. usable_model p"
  shows "predict_loop dsize wt (map Some ps) vs pt =
    Inr (vs @ map (adjusted_time dsize wt) ps, if ps = [] then pt else adjusted_time dsize wt (last ps))"
  using assms
proof (induction ps arbitrary: vs pt)
  case (Cons p ps)
  then obtain i where i: "imp p = Some i" by (auto simp: usable_model_def)
  have "QueryModel (of_nat dsize) p = Inr (\<Sum>i\<leftarrow>[0..<nat (numberOfFeatures p)]. weights p ! i * of_nat dsize ^ i)"
    using Cons.prems by (intro QueryModel_polynomial) (simp_all add: usable_model_def)
  then have "predict_loop dsize wt (map Some (p # ps)) vs pt =
      predict_loop dsize wt (map Some ps) (vs @ [adjusted_time dsize wt p]) (adjusted_time dsize wt p)"
    by (simp add: i adjusted_time_def Let_def)
  with Cons show ?case by simp
qed simp

lemma min_element_least:
  fixes vs :: "rat list"
  assumes "vs \<noteq> []"
  shows "\<forall>v\<in>set vs. vs ! min_element (\<lambda>a b. a < b) vs \<le> v"
  using max_element_first_max [OF assms, of _ uminus] by (simp add: min_element_def)

text \<open>The implementation chosen has the least adjusted time; the time returned is the last one's.\<close>

lemma SelectImplementation_spec:
  assumes "PerformanceModels t = map Some ps" "ps \<noteq> []" "\<forall>p\<in>set ps. usable_model p"
  obtains i where "i < length ps"
    "SelectImplementation dsize wt t = Inr (imp (ps ! i), adjusted_time dsize wt (last ps))"
    "\<forall>p\<in>set ps. adjusted_time dsize wt (ps ! i) \<le> adjusted_time dsize wt p"
proof -
  let ?vs = "map (adjusted_time dsize wt) ps" and ?i = "min_element (\<lambda>a b. a < b) (map (adjusted_time dsize wt) ps)"
  have i: "?i < length ps" using min_element_less [of ?vs "\<lambda>a b. a < b"] assms(2) by simp
  then obtain im where im: "imp (ps ! ?i) = Some im" using assms(3) nth_mem unfolding usable_model_def by blast
  have "SelectImplementation dsize wt t = Inr (imp (ps ! ?i), adjusted_time dsize wt (last ps))"
    using predict_loop_eq [OF assms(3), of dsize wt "[]" "- 1"] assms(1,2) i im
    by (simp add: SelectImplementation_def Let_def)
  with i min_element_least [of ?vs] assms(2) that show thesis by auto
qed

lemma executor_setup_spec:
  "executor_setup c p h d u = Inr e \<Longrightarrow> FindTask ''MOVING_AVERAGE'' e = Some 0 \<and>
     PerformanceModels (Tasks e ! 0) = [Some d, Some u] \<and> cid e = c \<and>
     FindResource ''SHARED_DFE'' e = Some (Resource_new 1 p h ''SHARED_DFE'') \<and>
     FindResource ''CPU'' e = Some (Resource_new 2 8122 ''localhost'' ''CPU'')"
  by (auto simp: executor_setup_def AddImp_model_def FindTask_def AddTask_def AddResource_def
      Executor_new_def Task_new_def task_eq_def AddPerfModel_def FindResource_def Resource_new_def Let_def)

lemma executor_setup_total: "\<exists>e. executor_setup c p h d u = Inr e"
  by (simp add: executor_setup_def AddImp_model_def FindTask_def AddTask_def AddResource_def
      Executor_new_def Task_new_def task_eq_def AddPerfModel_def Let_def)

text \<open>A model that was loaded and printed can be queried.\<close>

lemma loaded_model:
  assumes "LoadFromDisk ar name (PerfModel_new (Some im) al it ft od junk) disk = Inr p" "QueryModel x p = Inr v"
  shows "imp p = Some im \<and> usable_model p"
  using assms by (auto simp: LoadFromDisk_def serialize_def put_members_def bindR_eq_Inr PerfModel_new_def QueryModel_def
      hypothesis_def usable_model_def split: option.splits if_splits)

lemma executor_main_spec:
  assumes "executor_main c p h junk ar disk = Inr e"
  obtains d u where "executor_setup c p h d u = Inr e" "usable_model d" "usable_model u"
    "imp d = Some (mav_imp ''mavDFE'' ''SHARED_DFE'')" "imp u = Some (mav_imp ''mavCPU'' ''CPU'')"
  using assms unfolding executor_main_def print_model_query
  by (auto simp: bindR_eq_Inr dest: loaded_model)

text \<open>The choice of a running executor, with the time of its second model.\<close>

lemma executor_selects:
  assumes "executor_main c sport host junk ar disk = Inr e"
    and "PerformanceModels (Tasks e ! 0) = [Some dfe, Some cpu]"
  obtains im res where "SelectImplementation dsize wt (Tasks e ! 0) = Inr (Some im, adjusted_time dsize wt cpu)"
    "FindResource (impType im) e = Some res" "FindTask ''MOVING_AVERAGE'' e = Some 0" "cid e = c"
proof -
  obtain d u where du: "executor_setup c sport host d u = Inr e" "usable_model d" "usable_model u"
    "imp d = Some (mav_imp ''mavDFE'' ''SHARED_DFE'')" "imp u = Some (mav_imp ''mavCPU'' ''CPU'')"
    using executor_main_spec [OF assms(1)] .
  note main = executor_setup_spec [OF du(1)]
  have "d = dfe" "u = cpu" using main assms(2) by simp_all
  note du = du [unfolded this] and main = main [unfolded this]
  obtain i where i: "i < length [dfe, cpu]"
    "SelectImplementation dsize wt (Tasks e ! 0) = Inr (imp ([dfe, cpu] ! i), adjusted_time dsize wt cpu)"
    using SelectImplementation_spec [of "Tasks e ! 0" "[dfe, cpu]" dsize wt] main du(2,3) by auto
  then obtain im res where "imp ([dfe, cpu] ! i) = Some im" "FindResource (impType im) e = Some res"
    using du(4,5) main by (cases i) (auto simp: mav_imp_def)
  with i main that show thesis by auto
qed

text \<open>The shared devices are chosen when their model predicts no more than the one for the CPU.\<close>

lemma executor_selects_shared:
  assumes "executor_main c sport host junk ar disk = Inr e"
    and "PerformanceModels (Tasks e ! 0) = [Some dfe, Some cpu]"
    and "adjusted_time dsize wt dfe \<le> adjusted_time dsize wt cpu"
  shows "SelectImplementation dsize wt (Tasks e ! 0) =
      Inr (Some (mav_imp ''mavDFE'' ''SHARED_DFE''), adjusted_time dsize wt cpu)"
    "FindResource ''SHARED_DFE'' e = Some (Resource_new 1 sport host ''SHARED_DFE'')"
proof -
  obtain d u where du: "executor_setup c sport host d u = Inr e" "usable_model d" "usable_model u"
    "imp d = Some (mav_imp ''mavDFE'' ''SHARED_DFE'')"
    using executor_main_spec [OF assms(1)] .
  note main = executor_setup_spec [OF du(1)]
  have "d = dfe" "u = cpu" using main assms(2) by simp_all
  note du = du [unfolded this]
  show "SelectImplementation dsize wt (Tasks e ! 0) =
      Inr (Some (mav_imp ''mavDFE'' ''SHARED_DFE''), adjusted_time dsize wt cpu)"
    using predict_loop_eq [of "[dfe, cpu]" dsize wt "[]" "- 1"] du assms(2,3)
    by (simp add: SelectImplementation_def min_element_def max_element_def Let_def)
  show "FindResource ''SHARED_DFE'' e = Some (Resource_new 1 sport host ''SHARED_DFE'')" using main by simp
qed

text \<open>What the executor makes of a request: the predicted time in whole milliseconds, the type of device.\<close>

definition forwarded_request :: "resource \<Rightarrow> rat \<Rightarrow> msg \<Rightarrow> msg" where
  "forwarded_request res t m = dispatch_request res (m\<lparr>predictedTimeMillis := of_int (rat_trunc t)\<rparr>)"

lemma executor_forwards:
  assumes "FindTask ''MOVING_AVERAGE'' e = Some i"
    and "SelectImplementation (unat (dataSize m)) (unat (exec_avg_wt e)) (Tasks e ! i) = Inr (Some im, t)"
    and "FindResource (impType im) e = Some res"
    and "wf_msg m" "msgId m = MSG_MOVING_AVG" "unat (dataSize m) < 2 ^ 28"
    and "msgId r = MSG_RESULT" "length (data r) = 4 * unat (dataSize m)" "0 \<le> t" "t < 2 ^ 31"
    and "sint (clientId m) = atoi (cid e)"
  shows "executor_handle_request m (msg_bytes r @ inp) e =
    Inr (Some r, [(port res, url res, msg_bytes (forwarded_request res t m) @ msg_bytes msg_done)],
      e\<lparr>exec_avg_wt := scast (avg_wt r)\<rparr>)"
proof -
  let ?m = "m\<lparr>predictedTimeMillis := of_int (rat_trunc t)\<rparr>"
  have "wf_msg ?m" using assms(4) by (simp add: wf_msg_def)
  from Resource_dispatch_reply [OF this _ assms(7), of res inp] assms(6,8)
  have "runImp (Some im) ?m (msg_bytes r @ inp) e =
      Inr (r, [(port res, url res, msg_bytes (forwarded_request res t m) @ msg_bytes msg_done)])"
    using assms(3) by (simp add: runImp_def forwarded_request_def)
  moreover have "0 \<le> rat_trunc t" "rat_trunc t < 2 ^ 31"
    using assms(9,10) by (simp_all add: rat_trunc_def floor_less_iff)
  ultimately have "run_moving_average m (msg_bytes r @ inp) e =
      Inr (Some r, [(port res, url res, msg_bytes (forwarded_request res t m) @ msg_bytes msg_done)],
        e\<lparr>exec_avg_wt := scast (avg_wt r)\<rparr>)"
    using assms(1,2) by (simp add: run_moving_average_def)
  then show ?thesis using assms(5,11) by (simp add: executor_handle_request_def msg_ids)
qed

section \<open>Properties\<close>

text \<open>
  C40. With usable models for all its implementations, a task selects one whose predicted time,
  waiting time for shared devices included, is least. The time returned with it is not its own
  but that of the last model.
\<close>

theorem fastest_implementation_selected:
  assumes "PerformanceModels t = map Some ps" "ps \<noteq> []" "\<forall>p\<in>set ps. usable_model p"
  shows "\<exists>i<length ps. SelectImplementation dsize wt t = Inr (imp (ps ! i), adjusted_time dsize wt (last ps)) \<and>
    (\<forall>p\<in>set ps. adjusted_time dsize wt (ps ! i) \<le> adjusted_time dsize wt p)"
  using SelectImplementation_spec [OF assms] by metis

definition demo_imp :: "string \<Rightarrow> implementation" where
  "demo_imp ty = \<lparr>libraryName = ''MAV'', funcName = ''mav'', impName = ''MOVING_AVERAGE'',
     impUrl = [], impPort = [], impType = ty\<rparr>"

definition demo_model :: "string \<Rightarrow> rat \<Rightarrow> perf_model" where
  "demo_model ty c = (PerfModel_new (Some (demo_imp ty)) 1 100 1 0 0)\<lparr>weights := [c]\<rparr>"

definition demo_task :: task where
  "demo_task = (Task_new ''MOVING_AVERAGE'')\<lparr>PerformanceModels :=
     map Some [demo_model ''CPU'' 1, demo_model ''SHARED_DFE'' 5]\<rparr>"

lemma demo_usable: "usable_model (demo_model ty c)"
  by (simp add: usable_model_def demo_model_def PerfModel_new_def)

lemma demo_adjusted: "adjusted_time d w (demo_model ty c) = c + (if ty = ''SHARED_DFE'' then of_nat w else 0)"
  by (simp add: adjusted_time_def demo_model_def PerfModel_new_def demo_imp_def)

theorem fastest_implementation_selected_witness:
  "\<exists>i<2. SelectImplementation 7 3 demo_task =
      Inr (imp ([demo_model ''CPU'' 1, demo_model ''SHARED_DFE'' 5] ! i), 8) \<and>
    (\<forall>p\<in>set [demo_model ''CPU'' 1, demo_model ''SHARED_DFE'' 5].
       adjusted_time 7 3 ([demo_model ''CPU'' 1, demo_model ''SHARED_DFE'' 5] ! i) \<le> adjusted_time 7 3 p)"
  using fastest_implementation_selected [of demo_task "[demo_model ''CPU'' 1, demo_model ''SHARED_DFE'' 5]" 7 3]
  by (simp add: demo_task_def demo_usable demo_adjusted numeral_2_eq_2)

text \<open>
  The time returned with the selected implementation is the one computed last, not the
  selected one's: here the CPU is selected for its 1 ms and reported with the 8 ms of the
  shared device.
\<close>

theorem selected_time_wrong:
  "SelectImplementation 7 3 demo_task = Inr (Some (demo_imp ''CPU''), 8) \<and>
   adjusted_time 7 3 (demo_model ''CPU'' 1) = 1"
proof
  let ?ps = "[demo_model ''CPU'' 1, demo_model ''SHARED_DFE'' 5]"
  have "predict_loop 7 3 (map Some ?ps) [] (- 1) = Inr ([1, 8], 8)"
    using predict_loop_eq [of ?ps 7 3 "[]" "- 1"] by (simp add: demo_usable demo_adjusted)
  then show "SelectImplementation 7 3 demo_task = Inr (Some (demo_imp ''CPU''), 8)"
    by (simp add: SelectImplementation_def demo_task_def Task_new_def min_element_def max_element_def
        demo_model_def PerfModel_new_def)
qed (simp add: demo_adjusted)

text \<open>
  The executor answers its own client only: a request with another client id is
  acknowledged without opening a connection or changing the executor. Once \<open>main\<close> succeeded, a
  moving average of its client is sent, in one connection, to the resource whose type is that of
  the selected implementation, and the resource's reply is returned and updates the waiting time.
\<close>

theorem executor_runs_moving_average:
  assumes "executor_main c sport host junk ar disk = Inr e"
    and "PerformanceModels (Tasks e ! 0) = [Some dfe, Some cpu]"
    and "wf_msg m" "msgId m = MSG_MOVING_AVG" "unat (dataSize m) < 2 ^ 28"
    and "msgId r = MSG_RESULT" "length (data r) = 4 * unat (dataSize m)"
    and "0 \<le> adjusted_time (unat (dataSize m)) (unat (exec_avg_wt e)) cpu"
    and "adjusted_time (unat (dataSize m)) (unat (exec_avg_wt e)) cpu < 2 ^ 31"
  shows "(sint (clientId m) \<noteq> atoi c \<longrightarrow> executor_handle_request m inp e = Inr (Some msg_ack, [], e)) \<and>
    (sint (clientId m) = atoi c \<longrightarrow> (\<exists>im t res.
       SelectImplementation (unat (dataSize m)) (unat (exec_avg_wt e)) (Tasks e ! 0) = Inr (Some im, t) \<and>
       FindResource (impType im) e = Some res \<and>
       executor_handle_request m (msg_bytes r @ inp) e =
         Inr (Some r, [(port res, url res, msg_bytes (forwarded_request res t m) @ msg_bytes msg_done)],
           e\<lparr>exec_avg_wt := scast (avg_wt r)\<rparr>)))"
proof -
  let ?d = "unat (dataSize m)" and ?w = "unat (exec_avg_wt e)"
  let ?t = "adjusted_time ?d ?w cpu"
  obtain im res where sel: "SelectImplementation ?d ?w (Tasks e ! 0) = Inr (Some im, ?t)"
    "FindResource (impType im) e = Some res" "FindTask ''MOVING_AVERAGE'' e = Some 0" "cid e = c"
    by (rule executor_selects [OF assms(1,2)])
  show ?thesis using executor_forwards [OF sel(3,1,2) assms(3-9), of inp] sel
    by (auto simp: executor_handle_request_def)
qed

text \<open>An archive with one letter for each value, and a disk on which every file is a model of the constant \<open>v\<close>.\<close>

fun demo_archive :: "rat \<Rightarrow> archive" where
  "demo_archive v m [] = Inl Invalid_Argument"
| "demo_archive v m (c # t) =
     (if c = CHR ''a'' then Inr (Double 1, t) else if c = CHR ''i'' then Inr (Unsigned 100, t)
      else if c = CHR ''n'' then Inr (Integer 1, t) else if c = CHR ''o'' then Inr (Integer 0, t)
      else if c = CHR ''f'' then Inr (Rows [], t) else if c = CHR ''w'' then Inr (Doubles [v], t)
      else if c = CHR ''m'' then Inr (Doubles [], t) else Inl Invalid_Argument)"

definition demo_disk :: "string \<rightharpoonup> string" where
  "demo_disk = (\<lambda>_. Some ''ainofwm'')"

text \<open>An executor whose two models predict the same time for any size.\<close>

lemma demo_executor:
  obtains e dfe cpu where "executor_main ''1'' 8112 ''h'' 0 (demo_archive v) demo_disk = Inr e"
    "PerformanceModels (Tasks e ! 0) = [Some dfe, Some cpu]" "\<forall>n w. adjusted_time n w cpu = v"
    "\<forall>n. adjusted_time n (unat (exec_avg_wt e)) dfe = v"
proof -
  let ?p = "\<lambda>f ty. (PerfModel_new (Some (mav_imp f ty)) 1 100 1 0 0)\<lparr>weights := [v]\<rparr>"
  let ?dfe = "?p ''mavDFE'' ''SHARED_DFE''" and ?cpu = "?p ''mavCPU'' ''CPU''"
  obtain e where s: "executor_setup ''1'' 8112 ''h'' ?dfe ?cpu = Inr e" using executor_setup_total by blast
  then have e: "executor_main ''1'' 8112 ''h'' 0 (demo_archive v) demo_disk = Inr e"
    by (simp add: executor_main_def print_model_query demo_disk_def LoadFromDisk_def serialize_def members_def put_members_def
        PerfModel_new_def QueryModel_def hypothesis_def powers_def)
  have wt: "exec_avg_wt e = 0"
    using s by (auto simp: executor_setup_def AddImp_model_def FindTask_def AddTask_def AddResource_def
        Executor_new_def Task_new_def task_eq_def AddPerfModel_def Let_def)
  have t: "adjusted_time n 0 ?dfe = v" "adjusted_time n w ?cpu = v" for n w
    by (simp_all add: adjusted_time_def PerfModel_new_def mav_imp_def)
  have ps: "PerformanceModels (Tasks e ! 0) = [Some ?dfe, Some ?cpu]" using executor_setup_spec [OF s] by simp
  show thesis by (rule that [OF e ps]) (simp_all add: t wt)
qed

theorem executor_runs_moving_average_witness:
  "\<exists>e sent (res :: resource). executor_main ''1'' 8112 ''h'' 0 (demo_archive 5) demo_disk = Inr e \<and>
    executor_handle_request ((zero_msg 0)\<lparr>msgId := MSG_MOVING_AVG, clientId := 1, totalBytes := 69\<rparr>)
        (msg_bytes ((zero_msg 0)\<lparr>msgId := MSG_RESULT, avg_wt := 4\<rparr>) @ []) e =
      Inr (Some ((zero_msg 0)\<lparr>msgId := MSG_RESULT, avg_wt := 4\<rparr>), [(port res, url res, sent)],
        e\<lparr>exec_avg_wt := 4\<rparr>)"
proof -
  let ?m = "(zero_msg 0)\<lparr>msgId := MSG_MOVING_AVG, clientId := 1, totalBytes := 69\<rparr>"
  let ?r = "(zero_msg 0)\<lparr>msgId := MSG_RESULT, avg_wt := 4\<rparr>"
  obtain e dfe cpu where e: "executor_main ''1'' 8112 ''h'' 0 (demo_archive 5) demo_disk = Inr e"
    "PerformanceModels (Tasks e ! 0) = [Some dfe, Some cpu]" "\<forall>n w. adjusted_time n w cpu = 5"
    by (rule demo_executor)
  have wf: "wf_msg ?m" by (simp add: wf_msg_def zero_msg_def sizeof_msg_def)
  have c: "sint (clientId ?m) = atoi ''1''" "scast (avg_wt ?r) = (4 :: size_t)"
    by (simp, code_simp) simp
  have "sint (clientId ?m) = atoi ''1'' \<longrightarrow> (\<exists>im t res.
      SelectImplementation (unat (dataSize ?m)) (unat (exec_avg_wt e)) (Tasks e ! 0) = Inr (Some im, t) \<and>
      FindResource (impType im) e = Some res \<and>
      executor_handle_request ?m (msg_bytes ?r @ []) e =
        Inr (Some ?r, [(port res, url res, msg_bytes (forwarded_request res t ?m) @ msg_bytes msg_done)],
          e\<lparr>exec_avg_wt := scast (avg_wt ?r)\<rparr>))"
    by (rule executor_runs_moving_average [OF e(1,2) wf, THEN conjunct2]) (simp_all add: zero_msg_def e(3))
  from mp [OF this c(1)] obtain res :: resource and sent where "executor_handle_request ?m (msg_bytes ?r @ []) e =
      Inr (Some ?r, [(port res, url res, sent)], e\<lparr>exec_avg_wt := scast (avg_wt ?r)\<rparr>)"
    by blast
  then show ?thesis unfolding c(2) using e(1) by (intro exI conjI)
qed

text \<open>
  An option-pricing request through the executor: the reply of 77 bytes is read into a buffer of
  69, because the buffer is sized by the request's \<open>dataSize\<close>, which is zero. The price is cut off,
  and printing the reply, whose own \<open>dataSize\<close> is 1, reads past the buffer.
\<close>

theorem executor_drops_price:
  assumes "msg_option_pricing strike sigma timestep nm pn np T = Inr m"
    and "length (data r) = 8" "dataSize r = 1"
  shows "proxy_request m (msg_bytes r) = Inl Out_Of_Bounds"
proof -
  have m: "dataSize m = 0" "wf_msg m"
    using assms(1) by (auto simp: msg_option_pricing_eq wf_msg_def sizeof_msg_def)
  let ?h = "r\<lparr>data := []\<rparr>"
  have "take 69 (msg_bytes r) = msg_bytes ?h" by (simp add: msg_bytes_def)
  then have "bytes_msg (take 69 (msg_bytes r)) = Inr ?h" by (simp add: bytes_msg_msg_bytes)
  moreover have "msg_print ?h = Inl Out_Of_Bounds" using assms(3) by (intro msg_print_overrun) simp
  ultimately have "print_until_result 69 (msg_bytes r) = Inl Out_Of_Bounds"
    using assms(2) by (subst print_until_result.simps) (simp add: sizeof_msg_def length_msg_bytes)
  moreover have "Client_send (m\<lparr>predictedTimeMillis := 1\<rparr>) = Inr (msg_bytes (m\<lparr>predictedTimeMillis := 1\<rparr>))"
    using m(2) by (simp add: Client_send_def write_wf_msg wf_msg_def)
  ultimately show ?thesis using m(1) by (simp add: proxy_request_def sizeof_msg_def)
qed

theorem executor_drops_price_witness:
  "\<exists>m. msg_option_pricing 1 2 3 4 5 6 7 = Inr m \<and>
    proxy_request m (msg_bytes ((zero_msg 8)\<lparr>msgId := MSG_RESULT, dataSize := 1, totalBytes := 77,
      dataBytes := 8\<rparr>)) = Inl Out_Of_Bounds"
proof -
  obtain m where m: "msg_option_pricing 1 2 3 4 5 6 7 = Inr m" by (simp add: msg_option_pricing_eq)
  from executor_drops_price [OF m] m show ?thesis by (simp add: zero_msg_def)
qed

text \<open>
  The stub of client \<open>n\<close> looks up port \<open>8110 + n\<close>, the executor started for that id listens on
  the digits 811 followed by those of the id: the two agree exactly for the ids 1 to 9.
\<close>

theorem executor_port_agrees:
  assumes "0 < n" "n < 2 ^ 31"
  shows "connect_query (stub_port (Some (show_nat n))) ''localhost'' = (''localhost'', executor_port (show_nat n)) \<longleftrightarrow>
    n < 10"
proof -
  have "atoi (show_nat n) = int n" using atoi_show_int [of "int n" "[]"] assms by (simp add: show_int_def)
  then have stub: "show_int (stub_port (Some (show_nat n))) = show_nat (8110 + n)"
    using stub_port_client [of "show_nat n"] assms by (simp add: show_int_def nat_add_distrib)
  show ?thesis
  proof (cases "n < 10")
    case True
    have "(8110 + n) div 10 = 811" using True div_mult_self1 [of 10 n 811] by (simp add: add.commute)
    moreover have "(8110 + n) mod 10 = n" using True mod_mult_self1 [of n 811 10] by (simp add: add.commute)
    ultimately have "show_nat (8110 + n) = show_nat 811 @ [digit_char n]" by (subst show_nat.simps) simp
    also have "show_nat 811 = ''811''" by code_simp
    also have "[digit_char n] = show_nat n" using True by (simp add: show_nat.simps)
    finally show ?thesis using True stub by (simp add: connect_query_def executor_port_def)
  next
    case False
    have "digits_value ''811'' = 811" by code_simp
    then have "digits_value (executor_port (show_nat n)) = 811 * 10 ^ length (show_nat n) + n"
      unfolding executor_port_def digits_value_append digits_value_show by (simp only:)
    moreover have "(10 :: nat) ^ 2 \<le> 10 ^ length (show_nat n)"
      using False by (intro power_increasing length_show_nat) simp_all
    ultimately have "8110 + n < digits_value (executor_port (show_nat n))" by simp
    then have "executor_port (show_nat n) \<noteq> show_nat (8110 + n)" by (metis digits_value_show less_irrefl)
    with False stub show ?thesis by (simp add: connect_query_def)
  qed
qed

theorem executor_port_agrees_witness:
  "connect_query (stub_port (Some (show_nat 3))) ''localhost'' = (''localhost'', executor_port (show_nat 3)) \<and>
   connect_query (stub_port (Some (show_nat 12))) ''localhost'' \<noteq> (''localhost'', executor_port (show_nat 12))"
  using executor_port_agrees [of 3] executor_port_agrees [of 12] by simp

end
