(* ===== verification/Whole_Path.thy ===== *)
theory Whole_Path
  imports Executor_Model Job_Exchange
begin

text \<open>
  A request through all four processes: the client stub sends it to its executor, the executor
  adds the predicted time and forwards it to the scheduler, the scheduler makes it a job and sends it
  to the dispatcher, and the reply takes the way back. The hops are those of \<open>Client_Model\<close>,
  \<open>Executor_Model\<close> and \<open>Job_Exchange\<close>; what one sends is what the next one receives.
\<close>

lemma sint_of_int_small: "- (2 ^ 31) \<le> k \<Longrightarrow> k < 2 ^ 31 \<Longrightarrow> sint (of_int k :: i32) = k"
  by (simp add: signed_of_int signed_take_bit_int_eq_self)

text \<open>The request of the moving-average stub, and the same request behind the executor.\<close>

lemma stub_request_moving_average:
  assumes "4 * length xs + 77 < 2 ^ 31" "movingAverage (of_nat (length xs)) w xs env = Inr call"
  shows "stub_request call = (moving_avg_msg w xs)\<lparr>clientId := of_int (stub_client_id env)\<rparr>"
  using assms(2) msg_moving_avg_eq [OF assms(1), of w] by (auto simp: movingAverage_def ucast_of_nat)

lemma forwarded_moving_average:
  assumes "4 * length xs + 77 < 2 ^ 31"
  shows "wf_msg (forwarded_request res t ((moving_avg_msg w xs)\<lparr>clientId := c\<rparr>)) \<and>
    msgId (forwarded_request res t ((moving_avg_msg w xs)\<lparr>clientId := c\<rparr>)) = MSG_MOVING_AVG \<and>
    dataSize (forwarded_request res t ((moving_avg_msg w xs)\<lparr>clientId := c\<rparr>)) = of_nat (length xs) \<and>
    expDataSizeBytes (forwarded_request res t ((moving_avg_msg w xs)\<lparr>clientId := c\<rparr>)) = of_nat (4 * length xs) \<and>
    data (forwarded_request res t ((moving_avg_msg w xs)\<lparr>clientId := c\<rparr>)) = ints_bytes xs @ word_bytes w"
  using wf_moving_avg_msg [OF assms, of w]
  by (simp add: forwarded_request_def dispatch_request_def wf_msg_def moving_avg_msg_def Let_def)

lemma executor_main_shared:
  assumes "executor_main c sport host u ar disk = Inr e"
  shows "FindTask ''MOVING_AVERAGE'' e = Some 0" "cid e = c"
    "FindResource ''SHARED_DFE'' e = Some (Resource_new 1 sport host ''SHARED_DFE'')"
  using executor_main_spec [OF assms] executor_setup_spec by metis+

section \<open>Properties\<close>

text \<open>
  C9. A moving average through all processes: the request of the client's stub, forwarded by its executor to
  the scheduler because the shared devices are the best choice, made a job there and run by the
  dispatcher, comes back as the averages in the client's array. Each hop receives what the one
  before it sent, the dispatcher in any chunks, and the executor opens a single connection, to the
  scheduler it was started with.
\<close>

theorem moving_average_through_executor:
  assumes "4 * length xs + 77 < 2 ^ 31" "length xs < 2 ^ 28" "0 < unat w" "unat w < 128" "unat w \<le> length xs"
    and "executor_main c sport host u ar disk = Inr e" "0 \<le> atoi c" "atoi c < 2 ^ 31"
    and "movingAverage (of_nat (length xs)) w xs (Some c) = Inr call"
    and "SelectImplementation (length xs) (unat (exec_avg_wt e)) (Tasks e ! 0) = Inr (Some im, pt)"
    and "impType im = ''SHARED_DFE''" "0 \<le> pt" "pt < 2 ^ 31"
    and "m = forwarded_request (Resource_new 1 sport host ''SHARED_DFE'') pt (stub_request call)"
    and "req (job_at s p) = m\<lparr>data := data m @ junk\<rparr>"
    and "sizeof_msg \<le> length ch" "ch @ concat cs = msg_bytes (m\<lparr>rids := packed_rids (res # rs)\<rparr>)"
    and "[] \<notin> set cs" "length ch \<le> length old"
  shows "\<exists>conn s' sz reply.
    connection_start (Suc k) (dispatcher_serve None g t)
      \<lparr>buffer = old, incoming = ch # cs @ [msg_bytes msg_done], peer_closed = pc, outgoing = [], server = ()\<rparr> =
      Inr (Some (Closed, conn)) \<and>
    runJob (p, res # rs) (outgoing conn) start stop now s =
      Inr (port res, url res, ch @ concat cs @ msg_bytes msg_done, s') \<and>
    scheduler_handle_request m = Run_Job sz True \<and> scheduler_finish_request sz True p s' = Inr reply \<and>
    executor_handle_request (stub_request call) (msg_bytes reply) e =
      Inr (Some reply, [(sport, host, msg_bytes m @ msg_bytes msg_done)], e\<lparr>exec_avg_wt := scast (avg_wt reply)\<rparr>) \<and>
    Client_getResult (replicate (4 * length xs) 0) (of_nat (4 * length xs)) (msg_bytes reply) =
      Inr (ints_bytes (last (moving_averages xs w) # butlast (moving_averages xs w)), [])"
proof -
  let ?N = "length xs" and ?q = "stub_request call" and ?res = "Resource_new 1 sport host ''SHARED_DFE''"
  have q: "?q = (moving_avg_msg w xs)\<lparr>clientId := of_int (atoi c)\<rparr>"
    using stub_request_moving_average [OF assms(1,9)] by (simp add: stub_client_id_def)
  note main = executor_main_shared [OF assms(6)]
  have m: "wf_msg m \<and> msgId m = MSG_MOVING_AVG \<and> dataSize m = of_nat ?N \<and>
      expDataSizeBytes m = of_nat (4 * ?N) \<and> data m = ints_bytes xs @ word_bytes w"
    using forwarded_moving_average [OF assms(1)] unfolding assms(14) q .
  obtain conn s' sz reply where hop: "connection_start (Suc k) (dispatcher_serve None g t)
      \<lparr>buffer = old, incoming = ch # cs @ [msg_bytes msg_done], peer_closed = pc, outgoing = [], server = ()\<rparr> =
      Inr (Some (Closed, conn))"
    "runJob (p, res # rs) (outgoing conn) start stop now s =
      Inr (port res, url res, ch @ concat cs @ msg_bytes msg_done, s')"
    "scheduler_handle_request m = Run_Job sz True" "scheduler_finish_request sz True p s' = Inr reply"
    and reply: "msgId reply = MSG_RESULT" "length (data reply) = 4 * ?N"
    and out: "Client_getResult (replicate (4 * ?N) 0) (of_nat (4 * ?N)) (msg_bytes reply) =
      Inr (ints_bytes (last (moving_averages xs w) # butlast (moving_averages xs w)), [])"
    using moving_average_job [OF assms(1,3-5) m assms(15-19), of k g t pc start stop now] by blast
  have n: "unat (dataSize ?q) = ?N" using assms(2) by (simp add: q moving_avg_msg_def unat_of_nat_small)
  have wf: "wf_msg ?q" "msgId ?q = MSG_MOVING_AVG"
    using wf_moving_avg_msg [OF assms(1), of w] by (simp_all add: q wf_msg_def moving_avg_msg_def)
  have "sint (clientId ?q) = atoi (cid e)" using assms(7,8) main(2) by (simp add: q sint_of_int_small)
  from executor_forwards [OF main(1) _ _ wf _ reply(1) _ assms(12,13) this, of im ?res "[]"] n assms(2,10,11) main(3) reply(2)
  have "executor_handle_request ?q (msg_bytes reply) e =
      Inr (Some reply, [(sport, host, msg_bytes m @ msg_bytes msg_done)], e\<lparr>exec_avg_wt := scast (avg_wt reply)\<rparr>)"
    by (simp add: assms(14) Resource_new_def)
  with hop out show ?thesis by blast
qed

theorem moving_average_through_executor_witness:
  "\<exists>call e m s (conn :: unit conn) s' sz reply.
    movingAverage 3 2 [1, 2, 3] (Some ''1'') = Inr call \<and> predictedTimeMillis m = 5 \<and> req (job_at s 0) = m \<and>
    runJob (0, [Resource_new 1 8113 ''localhost'' ''DFE'']) (outgoing conn) 0 1 1 s =
      Inr (8113, ''localhost'', msg_bytes (m\<lparr>rids := 1\<rparr>) @ msg_bytes msg_done, s') \<and>
    scheduler_finish_request sz True 0 s' = Inr reply \<and>
    executor_handle_request (stub_request call) (msg_bytes reply) e =
      Inr (Some reply, [(8112, ''h'', msg_bytes m @ msg_bytes msg_done)], e\<lparr>exec_avg_wt := scast (avg_wt reply)\<rparr>) \<and>
    Client_getResult (replicate 12 0) 12 (msg_bytes reply) =
      Inr (ints_bytes (last (moving_averages [1, 2, 3] 2) # butlast (moving_averages [1, 2, 3] 2)), [])"
proof -
  let ?xs = "[1, 2, 3] :: i32 list" and ?r = "Resource_new 1 8113 ''localhost'' ''DFE''"
  let ?im = "mav_imp ''mavDFE'' ''SHARED_DFE''"
  obtain e dfe cpu where e: "executor_main ''1'' 8112 ''h'' 0 (demo_archive 5) demo_disk = Inr e"
    "PerformanceModels (Tasks e ! 0) = [Some dfe, Some cpu]" "\<forall>n w. adjusted_time n w cpu = 5"
    "\<forall>n. adjusted_time n (unat (exec_avg_wt e)) dfe = 5"
    by (rule demo_executor)
  have sel: "SelectImplementation (length ?xs) (unat (exec_avg_wt e)) (Tasks e ! 0) = Inr (Some ?im, 5)"
    using executor_selects_shared(1) [OF e(1,2), of "length ?xs" "unat (exec_avg_wt e)"] e(3,4) by simp
  have one: "atoi ''1'' = 1" by code_simp
  obtain call where call: "movingAverage (of_nat (length ?xs)) 2 ?xs (Some ''1'') = Inr call"
    using msg_moving_avg_eq [of ?xs 2] by (simp add: movingAverage_def)
  have q: "stub_request call = (moving_avg_msg 2 ?xs)\<lparr>clientId := of_int (stub_client_id (Some ''1''))\<rparr>"
    by (rule stub_request_moving_average [OF _ call]) simp
  let ?m = "forwarded_request (Resource_new 1 8112 ''h'' ''SHARED_DFE'') 5 (stub_request call)"
  let ?s = "snd (concurrentHandler_submit ?m 0 (scheduler_main 8113 (\<lambda>_. demo_tuple 0) 0 0))"
  have req: "req (job_at ?s 0) = ?m\<lparr>data := data ?m @ []\<rparr>"
    by (simp add: concurrentHandler_submit_def getNextId_def Job_new_def scheduler_main_def Scheduler_new_def
        addSchedAlg_def provisionResource_def addResource_new_def Let_def)
  have rids: "packed_rids [?r] = 1" by (simp add: packed_rids_def rid_bit_def Resource_new_def)
  have len: "length (msg_bytes (?m\<lparr>rids := packed_rids [?r]\<rparr>)) = 89"
    by (simp add: q length_msg_bytes sizeof_msg_def forwarded_request_def dispatch_request_def moving_avg_msg_def Let_def)
  have "\<exists>conn s' sz reply.
    connection_start (Suc 0) (dispatcher_serve None 0 0)
      \<lparr>buffer = replicate 100 0, incoming = msg_bytes (?m\<lparr>rids := packed_rids [?r]\<rparr>) # [] @ [msg_bytes msg_done],
       peer_closed = False, outgoing = [], server = ()\<rparr> = Inr (Some (Closed, conn)) \<and>
    runJob (0, [?r]) (outgoing conn) 0 1 1 ?s =
      Inr (port ?r, url ?r, msg_bytes (?m\<lparr>rids := packed_rids [?r]\<rparr>) @ concat [] @ msg_bytes msg_done, s') \<and>
    scheduler_handle_request ?m = Run_Job sz True \<and> scheduler_finish_request sz True 0 s' = Inr reply \<and>
    executor_handle_request (stub_request call) (msg_bytes reply) e =
      Inr (Some reply, [(8112, ''h'', msg_bytes ?m @ msg_bytes msg_done)], e\<lparr>exec_avg_wt := scast (avg_wt reply)\<rparr>) \<and>
    Client_getResult (replicate (4 * length ?xs) 0) (of_nat (4 * length ?xs)) (msg_bytes reply) =
      Inr (ints_bytes (last (moving_averages ?xs 2) # butlast (moving_averages ?xs 2)), [])"
    by (rule moving_average_through_executor [OF _ _ _ _ _ e(1) _ _ call sel _ _ _ refl req])
      (use len in \<open>simp_all add: sizeof_msg_def one mav_imp_def\<close>)
  then obtain conn :: "unit conn" and s' sz reply where hop:
    "runJob (0, [?r]) (outgoing conn) 0 1 1 ?s =
      Inr (port ?r, url ?r, msg_bytes (?m\<lparr>rids := packed_rids [?r]\<rparr>) @ concat [] @ msg_bytes msg_done, s')"
    "scheduler_finish_request sz True 0 s' = Inr reply"
    "executor_handle_request (stub_request call) (msg_bytes reply) e =
      Inr (Some reply, [(8112, ''h'', msg_bytes ?m @ msg_bytes msg_done)], e\<lparr>exec_avg_wt := scast (avg_wt reply)\<rparr>)"
    "Client_getResult (replicate (4 * length ?xs) 0) (of_nat (4 * length ?xs)) (msg_bytes reply) =
      Inr (ints_bytes (last (moving_averages ?xs 2) # butlast (moving_averages ?xs 2)), [])"
    by blast
  have "predictedTimeMillis ?m = 5"
    by (simp add: forwarded_request_def dispatch_request_def rat_trunc_def Let_def)
  moreover have "port ?r = 8113" "url ?r = ''localhost''" by (simp_all add: Resource_new_def)
  ultimately show ?thesis using hop call req unfolding rids
    by (intro exI [of _ call] exI [of _ e] exI [of _ ?m] exI [of _ ?s] exI [of _ conn] exI [of _ s'] exI [of _ sz]
        exI [of _ reply]) simp
qed

end
