(* ===== verification/Dyn_Lib.thy ===== *)
theory Dyn_Lib
  imports Hydrogen_Prelude
begin

text \<open>
  \<open>DynLibFunc\<close> (\<open>src/common/dynlib\<close>): a function looked up by name in a shared library. The
  dynamic linker is the record \<open>linker\<close> of the functions the class calls; \<open>dlerror\<close>, which every
  call resets first, tells whether the last call failed, so the calls return an error text or a
  value. Addresses and handles are numbers, and \<open>None\<close> is \<open>NULL\<close>: a symbol may legitimately be
  at \<open>NULL\<close>, and looking one up in the handle \<open>NULL\<close> searches the program itself.
\<close>

record linker =
  dlopen :: "string \<Rightarrow> string + nat"
  dlsym :: "nat option \<Rightarrow> string \<Rightarrow> string + nat option"
  dlclose :: "nat option \<Rightarrow> int"

text \<open>\<open>funcPtr\<close> is not set by the constructor: \<open>None\<close> stands for its indeterminate value.\<close>

record dynlib =
  dl_libraryName :: string
  dl_funcName :: string
  dl_handle :: "nat option"
  funcPtr :: "nat option option"

definition DynLibFunc :: "string \<Rightarrow> string \<Rightarrow> dynlib" where
  "DynLibFunc libname func =
     \<lparr>dl_libraryName = libname, dl_funcName = func, dl_handle = None, funcPtr = None\<rparr>"

definition getFunction :: "linker \<Rightarrow> dynlib \<Rightarrow> nat option" where
  "getFunction dl d = (case dlsym dl (dl_handle d) (dl_funcName d) of Inl err \<Rightarrow> None | Inr p \<Rightarrow> p)"

definition load :: "linker \<Rightarrow> dynlib \<Rightarrow> bool \<times> dynlib" where
  "load dl d =
     (let opened = dlopen dl (dl_libraryName d);
          d1 = d\<lparr>dl_handle := (case opened of Inl err \<Rightarrow> None | Inr h \<Rightarrow> Some h)\<rparr>;
          d2 = d1\<lparr>funcPtr := Some (getFunction dl d1)\<rparr>
      in if funcPtr d2 = Some None then (False, d2)
         else (case opened of Inl err \<Rightarrow> (False, d2) | Inr h \<Rightarrow> (True, d2)))"

definition unload :: "linker \<Rightarrow> dynlib \<Rightarrow> bool" where
  "unload dl d = (dlclose dl (dl_handle d) = 0)"

text \<open>
  \<open>run\<close> calls what is at the address, the argument \<open>code\<close>; without an address it returns
  \<open>NULL\<close>, that is zero. Reading the pointer before \<open>load\<close> is undefined.
\<close>

definition run_function :: "(nat \<Rightarrow> 'a \<Rightarrow> int result) \<Rightarrow> 'a \<Rightarrow> dynlib \<Rightarrow> int result" where
  "run_function code args d = (case funcPtr d of
       None \<Rightarrow> Inl Null_Deref
     | Some None \<Rightarrow> Inr 0
     | Some (Some a) \<Rightarrow> code a args)"

section \<open>Facts\<close>

lemma load_frame [simp]:
  "dl_libraryName (snd (load dl d)) = dl_libraryName d" "dl_funcName (snd (load dl d)) = dl_funcName d"
  by (simp_all add: load_def Let_def split: sum.split)

lemma load_pointer:
  "funcPtr (snd (load dl d)) = Some (getFunction dl (snd (load dl d)))"
  by (simp add: load_def Let_def getFunction_def split: sum.split)

text \<open>
  \<open>load\<close> reports success exactly if the library could be opened and has the function at an
  address, which is then what \<open>run\<close> calls; the pointer is set in every case, so that \<open>run\<close>
  never reads it uninitialised after a \<open>load\<close>.
\<close>

theorem load_succeeds:
  "fst (load dl d) \<longleftrightarrow>
     (\<exists>h a. dlopen dl (dl_libraryName d) = Inr h \<and> dlsym dl (Some h) (dl_funcName d) = Inr (Some a))"
  by (auto simp: load_def Let_def getFunction_def split: sum.split)

theorem load_then_run:
  assumes "dlopen dl (dl_libraryName d) = Inr h" "dlsym dl (Some h) (dl_funcName d) = Inr (Some a)"
  shows "run_function code args (snd (load dl d)) = code a args \<and> dl_handle (snd (load dl d)) = Some h"
  using assms by (simp add: load_def Let_def getFunction_def run_function_def)

theorem run_after_load: "run_function code args (snd (load dl d)) = Inl Null_Deref \<Longrightarrow>
    \<exists>a. funcPtr (snd (load dl d)) = Some (Some a) \<and> code a args = Inl Null_Deref"
  by (cases "getFunction dl (snd (load dl d))") (auto simp: run_function_def load_pointer)

text \<open>
  A library that cannot be opened does not keep \<open>run\<close> from running: \<open>dlsym\<close> is called with the
  null handle, and a function of that name in the program itself is taken instead, although
  \<open>load\<close> returned \<open>false\<close>. A second \<open>load\<close> drops the handle of the first without closing it.
\<close>

theorem failed_load_still_runs:
  assumes "dlopen dl (dl_libraryName d) = Inl err" "dlsym dl None (dl_funcName d) = Inr (Some a)"
  shows "\<not> fst (load dl d) \<and> run_function code args (snd (load dl d)) = code a args"
  using assms by (simp add: load_def Let_def getFunction_def run_function_def)

theorem load_forgets_handle: "load dl (d\<lparr>dl_handle := h, funcPtr := f\<rparr>) = load dl d"
  by (simp add: load_def Let_def getFunction_def split: sum.split)

end
