(* ===== verification/Old_Message.thy ===== *)
theory Old_Message
  imports Message
begin

text \<open>
  The message format the current one replaced (\<open>src/common/old_message\<close>) and its variant with
  control messages (\<open>src/common/protobuf\<close>): a packed header of two \<open>int\<close>s and two \<open>size_t\<close>s
  without byte counts. A message is the block of memory it was allocated as, and fields are
  read and written at their offsets, because what goes wrong here is the size of the block. The
  ids of both formats have the values of the current one. The class \<open>ControlMSG\<close> belongs to the
  protocol buffer library: its \<open>ByteSize\<close> and the bytes of \<open>SerializeToArray\<close> are arguments.
\<close>

section \<open>Blocks and fields\<close>

definition calloc_block :: "size_t \<Rightarrow> size_t \<Rightarrow> byte list result" where
  "calloc_block nmemb sz =
     (if 2 ^ 63 \<le> unat nmemb * unat sz then Inl Null_Deref
      else Inr (replicate (unat nmemb * unat sz) 0))"

definition peek :: "nat \<Rightarrow> nat \<Rightarrow> byte list \<Rightarrow> byte list result" where
  "peek off n b = (if off + n \<le> length b then Inr (take_field off n b) else Inl Out_Of_Bounds)"

text \<open>\<open>sizeof(msg_t)\<close>, packed: \<open>msgId\<close> at 0, \<open>clientId\<close> at 4, \<open>dataSize\<close> at 8, \<open>paramsSize\<close> at 16.\<close>

definition old_sizeof :: nat where "old_sizeof = 2 * 4 + 2 * 8"

definition old_msgId :: "byte list \<Rightarrow> i32 result" where
  "old_msgId b = bindR (peek 0 4 b) (\<lambda>bs. Inr (bytes_word bs))"

definition old_dataSize :: "byte list \<Rightarrow> size_t result" where
  "old_dataSize b = bindR (peek 8 8 b) (\<lambda>bs. Inr (bytes_word bs))"

definition old_paramsSize :: "byte list \<Rightarrow> size_t result" where
  "old_paramsSize b = bindR (peek 16 8 b) (\<lambda>bs. Inr (bytes_word bs))"

definition set_msgId :: "i32 \<Rightarrow> byte list \<Rightarrow> byte list result" where
  "set_msgId v = memcpy_at 0 (word_bytes v)"

definition set_dataSize :: "size_t \<Rightarrow> byte list \<Rightarrow> byte list result" where
  "set_dataSize v = memcpy_at 8 (word_bytes v)"

definition set_paramsSize :: "size_t \<Rightarrow> byte list \<Rightarrow> byte list result" where
  "set_paramsSize v = memcpy_at 16 (word_bytes v)"

section \<open>Sizes, the first parameter and printing\<close>

definition old_dataBytes :: "byte list \<Rightarrow> size_t result" where
  "old_dataBytes b = bindR (old_dataSize b) (\<lambda>d. bindR (old_paramsSize b) (\<lambda>p. Inr ((d + p) * 4)))"

definition old_sizeBytes :: "byte list \<Rightarrow> size_t result" where
  "old_sizeBytes b = bindR (old_dataBytes b) (\<lambda>n. Inr (of_nat old_sizeof + n))"

definition old_firstParam :: "byte list \<Rightarrow> i32 result" where
  "old_firstParam b = bindR (old_dataSize b) (\<lambda>d.
     bindR (peek (old_sizeof + unat (d * 4)) 1 b) (\<lambda>bs. Inr (scast (bytes_word bs :: byte))))"

definition old_print :: "byte list \<Rightarrow> string result" where
  "old_print b =
     bindR (old_msgId b) (\<lambda>i. bindR (old_dataSize b) (\<lambda>d. bindR (old_paramsSize b) (\<lambda>p.
       bindR (print_ints 0 (unat d) (drop old_sizeof b)) (\<lambda>ds.
         bindR (print_ints (unat d) (unat (d + p)) (drop old_sizeof b)) (\<lambda>ps.
           Inr (''  Id: '' @ show_int (sint i) @ ''  Data size: '' @ show_size d @ newline @
             ''  Params size: '' @ show_size p @ newline @ ''  Data: '' @ ds @ newline @
             ''  Params: '' @ ps @ newline))))))"

section \<open>Constructors\<close>

definition old_msg_empty :: "byte list result" where
  "old_msg_empty = calloc_block (of_nat old_sizeof) 1"

definition old_msg_ack :: "byte list result" where
  "old_msg_ack = bindR (calloc_block (of_nat old_sizeof) 1) (set_msgId MSG_ACK)"

definition old_msg_moving_avg :: "i32 \<Rightarrow> size_t \<Rightarrow> i32 list \<Rightarrow> byte list result" where
  "old_msg_moving_avg n width dataIn =
     (let sizeBytes = (ucast (of_nat old_sizeof + (scast n :: size_t) * 4 + 8) :: i32);
          nBytes = unat (4 * (scast n :: size_t))
      in bindR (calloc_block (scast sizeBytes) 1) (\<lambda>b.
         bindR (set_msgId MSG_MOVING_AVG b) (\<lambda>b.
         bindR (set_dataSize (scast n) b) (\<lambda>b.
         bindR (set_paramsSize 1 b) (\<lambda>b.
           if length (ints_bytes dataIn) < nBytes then Inl Out_Of_Bounds
           else bindR (memcpy_at old_sizeof (take nBytes (ints_bytes dataIn)) b)
             (memcpy_at (old_sizeof + nBytes) (word_bytes width)))))))"

section \<open>Control messages\<close>

record control_msg =
  command :: "string option"
  arg1 :: "string option"
  arg2 :: "string option"
  arg3 :: "string option"
  arg4 :: "string option"

definition ControlMSG :: control_msg where
  "ControlMSG = \<lparr>command = None, arg1 = None, arg2 = None, arg3 = None, arg4 = None\<rparr>"

text \<open>The header every constructor writes; the payload size is counted in whole \<open>int\<close>s.\<close>

definition control_header :: "i32 \<Rightarrow> byte list \<Rightarrow> byte list result" where
  "control_header sizeBytes b =
     bindR (set_msgId MSG_CONTROL b) (\<lambda>b.
       bindR (set_dataSize ((scast sizeBytes :: size_t) div 4) b) (set_paramsSize 0))"

text \<open>\<open>calloc(sizeBytes + sizeof(msg_t), 0)\<close>, as all six constructors have it.\<close>

definition control_calloc :: "i32 \<Rightarrow> byte list result" where
  "control_calloc sizeBytes = calloc_block ((scast sizeBytes :: size_t) + of_nat old_sizeof) 0"

definition msg_control_add_res ::
  "(control_msg \<Rightarrow> i32) \<Rightarrow> (control_msg \<Rightarrow> i32 \<Rightarrow> byte list) \<Rightarrow> string \<Rightarrow> string \<Rightarrow> string \<Rightarrow> byte list result" where
  "msg_control_add_res byteSize serialize type host port =
     (let c = ControlMSG\<lparr>command := Some ''ADD_RESOURCE'', arg1 := Some host, arg2 := Some port,
            arg3 := Some type\<rparr>;
          sizeBytes = byteSize c
      in bindR (control_calloc sizeBytes) (\<lambda>b.
           bindR (memcpy_at old_sizeof (serialize c sizeBytes) b) (control_header sizeBytes)))"

definition msg_control_rm_res :: "(control_msg \<Rightarrow> i32) \<Rightarrow> string \<Rightarrow> byte list result" where
  "msg_control_rm_res byteSize rid =
     (let sizeBytes = byteSize (ControlMSG\<lparr>command := Some ''RM_RESOURCE'', arg1 := Some rid\<rparr>)
      in bindR (control_calloc sizeBytes) (control_header sizeBytes))"

definition msg_control_add_imp ::
  "(control_msg \<Rightarrow> i32) \<Rightarrow> string \<Rightarrow> string \<Rightarrow> string \<Rightarrow> string \<Rightarrow> byte list result" where
  "msg_control_add_imp byteSize imp_funcName imp_libName task_name imp_type =
     (let sizeBytes = byteSize (ControlMSG\<lparr>command := Some ''ADD_IMPLEMENTATION'', arg1 := Some task_name,
            arg2 := Some imp_funcName, arg3 := Some imp_libName, arg4 := Some imp_type\<rparr>)
      in bindR (control_calloc sizeBytes) (control_header sizeBytes))"

definition msg_control_rm_imp :: "(control_msg \<Rightarrow> i32) \<Rightarrow> string \<Rightarrow> byte list result" where
  "msg_control_rm_imp byteSize imp_id =
     (let sizeBytes = byteSize (ControlMSG\<lparr>command := Some ''RM_IMPLEMENTATION'', arg1 := Some imp_id\<rparr>)
      in bindR (control_calloc sizeBytes) (control_header sizeBytes))"

definition msg_control_add_task :: "(control_msg \<Rightarrow> i32) \<Rightarrow> string \<Rightarrow> byte list result" where
  "msg_control_add_task byteSize task_name =
     (let sizeBytes = byteSize (ControlMSG\<lparr>command := Some ''ADD_TASK'', arg1 := Some task_name\<rparr>)
      in bindR (control_calloc sizeBytes) (control_header sizeBytes))"

definition msg_control_rm_task :: "(control_msg \<Rightarrow> i32) \<Rightarrow> string \<Rightarrow> byte list result" where
  "msg_control_rm_task byteSize task_name =
     (let sizeBytes = byteSize (ControlMSG\<lparr>command := Some ''RM_TASK'', arg1 := Some task_name\<rparr>)
      in bindR (control_calloc sizeBytes) (control_header sizeBytes))"

text \<open>\<open>print_control\<close> writes the payload as characters, \<open>print\<close> picks the format by the id.\<close>

definition print_control :: "byte list \<Rightarrow> string result" where
  "print_control b = bindR (old_msgId b) (\<lambda>i. bindR (old_dataSize b) (\<lambda>d.
     bindR (peek old_sizeof (unat (d * 4)) b) (\<lambda>bs.
       Inr (''ControlMSG'' @ [CHR 0x09] @ ''  Id: '' @ show_int (sint i) @
         map (\<lambda>w. char_of (unat w)) bs @ newline))))"

definition control_print :: "byte list \<Rightarrow> string result" where
  "control_print b =
     bindR (old_msgId b) (\<lambda>i. if i = MSG_CONTROL then print_control b else old_print b)"

section \<open>Reading back what was written\<close>

definition old_block :: "i32 \<Rightarrow> i32 \<Rightarrow> size_t \<Rightarrow> size_t \<Rightarrow> byte list \<Rightarrow> byte list" where
  "old_block i c d p payload = word_bytes i @ word_bytes c @ word_bytes d @ word_bytes p @ payload"

lemma length_old_block [simp]: "length (old_block i c d p bs) = old_sizeof + length bs"
  by (simp add: old_block_def old_sizeof_def)

lemma old_block_fields [simp]:
  "old_msgId (old_block i c d p bs) = Inr i"
  "old_dataSize (old_block i c d p bs) = Inr d"
  "old_paramsSize (old_block i c d p bs) = Inr p"
  "drop old_sizeof (old_block i c d p bs) = bs"
  by (simp_all add: old_msgId_def old_dataSize_def old_paramsSize_def peek_def old_block_def
      take_field_simps old_sizeof_def)

lemma set_fields [simp]:
  "set_msgId i' (old_block i c d p bs) = Inr (old_block i' c d p bs)"
  "set_dataSize d' (old_block i c d p bs) = Inr (old_block i c d' p bs)"
  "set_paramsSize p' (old_block i c d p bs) = Inr (old_block i c d p' bs)"
  by (simp_all add: set_msgId_def set_dataSize_def set_paramsSize_def memcpy_at_def old_block_def)

lemma memcpy_payload:
  "off + length src \<le> length bs \<Longrightarrow> memcpy_at (old_sizeof + off) src (old_block i c d p bs) =
     Inr (old_block i c d p (take off bs @ src @ drop (off + length src) bs))"
  by (simp add: memcpy_at_def old_block_def old_sizeof_def)

lemma word_bytes_zero: "word_bytes (0 :: 'a::len word) = replicate (LENGTH('a) div 8) 0"
proof -
  have "le_bytes n 0 = replicate n 0" for n by (induction n) simp_all
  then show ?thesis by (simp add: word_bytes_def)
qed

lemma calloc_old_block: "n < 2 ^ 62 \<Longrightarrow>
   calloc_block (of_nat (old_sizeof + n)) 1 = Inr (old_block 0 0 0 0 (replicate n 0))"
proof -
  assume n: "n < 2 ^ 62"
  have "unat (of_nat (old_sizeof + n) :: size_t) = old_sizeof + n"
    by (rule unat_of_nat_small) (use n in \<open>simp add: old_sizeof_def\<close>)
  moreover have "word_bytes (0 :: i32) = replicate 4 0" "word_bytes (0 :: size_t) = replicate 8 0"
    by (simp_all add: word_bytes_zero)
  then have "replicate (old_sizeof + n) 0 = old_block 0 0 0 0 (replicate n 0)"
    by (simp add: old_block_def old_sizeof_def flip: replicate_add append_assoc)
  ultimately show ?thesis using n by (simp add: calloc_block_def old_sizeof_def)
qed

lemma old_msg_moving_avg_eq:
  assumes "4 * length xs + 77 < 2 ^ 31"
  shows "old_msg_moving_avg (of_nat (length xs)) width xs =
    Inr (old_block MSG_MOVING_AVG 0 (of_nat (length xs)) 1 (ints_bytes xs @ word_bytes width))"
proof -
  let ?N = "length xs"
  have n64: "(scast (of_nat ?N :: i32) :: size_t) = of_nat ?N" using assms by (intro scast_of_nat_small) simp
  have "(ucast (of_nat old_sizeof + (of_nat ?N :: size_t) * 4 + 8) :: i32) = of_nat (old_sizeof + (4 * ?N + 8))"
    using ucast_of_nat [of "old_sizeof + (4 * ?N + 8)"] by (simp add: algebra_simps)
  moreover have "(scast (of_nat (old_sizeof + (4 * ?N + 8)) :: i32) :: size_t) = of_nat (old_sizeof + (4 * ?N + 8))"
    by (rule scast_of_nat_small) (use assms in \<open>simp add: old_sizeof_def\<close>)
  moreover have "unat (4 * (of_nat ?N :: size_t)) = 4 * ?N"
    using unat_of_nat_small [of "4 * ?N"] assms by simp
  moreover have "calloc_block (of_nat (old_sizeof + (4 * ?N + 8))) 1 = Inr (old_block 0 0 0 0 (replicate (4 * ?N + 8) 0))"
    using assms by (intro calloc_old_block) simp
  ultimately show ?thesis
    using memcpy_payload [of 0 "ints_bytes xs"] memcpy_payload [of "4 * ?N" "word_bytes width"]
    by (simp add: old_msg_moving_avg_def n64)
qed

lemma first_byte: "take (Suc 0) (word_bytes (w :: size_t)) = [ucast w]"
proof -
  have "word_bytes w \<noteq> []" by (simp flip: length_greater_0_conv)
  then show ?thesis using hd_word_bytes [of w] by (cases "word_bytes w") simp_all
qed

section \<open>Properties\<close>

text \<open>
  C35. The two formats carry the same moving-average request: the same payload at the end of
  the header and the same first parameter. The old format has no byte count; its \<open>sizeBytes\<close> is
  four bytes short of the block, because the width is stored as a \<open>size_t\<close> and counted as an \<open>int\<close>.
\<close>

theorem old_format_agrees:
  assumes "4 * length xs + 77 < 2 ^ 31"
    and "old_msg_moving_avg (of_nat (length xs)) width xs = Inr b"
    and "msg_moving_avg (of_nat (length xs)) width xs = Inr m"
  shows "old_msgId b = Inr (msgId m) \<and> old_dataSize b = Inr (dataSize m) \<and>
    old_paramsSize b = Inr (paramsSize m) \<and> drop old_sizeof b = data m \<and>
    old_firstParam b = firstParam m \<and> old_sizeBytes b = Inr (of_nat (length b - 4))"
proof -
  let ?N = "length xs"
  have b: "b = old_block MSG_MOVING_AVG 0 (of_nat ?N) 1 (ints_bytes xs @ word_bytes width)"
    using old_msg_moving_avg_eq [OF assms(1)] assms(2) by simp
  have m: "m = moving_avg_msg width xs" using msg_moving_avg_eq [OF assms(1)] assms(3) by simp
  have n: "unat ((of_nat ?N :: size_t) * 4) = 4 * ?N"
    using unat_of_nat_small [of "4 * ?N"] assms(1) by (simp add: mult.commute)
  have "take_field (old_sizeof + 4 * ?N) 1 b = take 1 (word_bytes width)"
  proof -
    have "drop (old_sizeof + 4 * ?N) b = drop (4 * ?N) (drop old_sizeof b)" by (simp add: add.commute)
    then show ?thesis by (simp add: take_field_def b del: drop_drop)
  qed
  also have "\<dots> = [ucast width]" using first_byte by simp
  finally have "old_firstParam b = Inr (scast (ucast width :: byte))"
    by (simp add: old_firstParam_def b n peek_def bytes_word_def)
  moreover have "old_sizeBytes b = Inr (of_nat (length b - 4))"
    by (simp add: old_sizeBytes_def old_dataBytes_def b algebra_simps)
  ultimately show ?thesis
    using firstParam_moving_avg [OF assms(1)] by (simp add: b m moving_avg_msg_def)
qed

theorem old_format_agrees_witness:
  "\<exists>b m. old_msg_moving_avg 3 2 [1, 2, 3] = Inr b \<and> msg_moving_avg 3 2 [1, 2, 3] = Inr m \<and>
     drop old_sizeof b = data m \<and> old_sizeBytes b = Inr (of_nat (length b - 4))"
proof -
  obtain b m where b: "old_msg_moving_avg (of_nat (length [1, 2, 3 :: i32])) 2 [1, 2, 3] = Inr b"
    and m: "msg_moving_avg (of_nat (length [1, 2, 3 :: i32])) 2 [1, 2, 3] = Inr m"
    using old_msg_moving_avg_eq [of "[1, 2, 3]" 2] msg_moving_avg_eq [of "[1, 2, 3]" 2] by simp
  from old_format_agrees [OF _ b m] b m show ?thesis by (intro exI [of _ b] exI [of _ m]) simp
qed

lemma control_calloc_empty [simp]: "control_calloc n = Inr []"
  by (simp add: control_calloc_def calloc_block_def)

lemma control_header_empty [simp]: "control_header n [] = Inl Out_Of_Bounds"
  by (simp add: control_header_def set_msgId_def memcpy_at_def)

text \<open>
  No control message can be built: all six constructors allocate blocks without a byte and
  write outside them, whatever the arguments and whatever size the library reports.
\<close>

theorem control_messages_overrun:
  "msg_control_add_res byteSize serialize type host port = Inl Out_Of_Bounds \<and>
   msg_control_rm_res byteSize rid = Inl Out_Of_Bounds \<and>
   msg_control_add_imp byteSize func lib task kind = Inl Out_Of_Bounds \<and>
   msg_control_rm_imp byteSize imp = Inl Out_Of_Bounds \<and>
   msg_control_add_task byteSize task = Inl Out_Of_Bounds \<and>
   msg_control_rm_task byteSize task = Inl Out_Of_Bounds"
  by (simp add: msg_control_add_res_def msg_control_rm_res_def msg_control_add_imp_def
      msg_control_rm_imp_def msg_control_add_task_def msg_control_rm_task_def memcpy_at_def
      old_sizeof_def Let_def)

text \<open>
  Even in a block of the right size the header loses up to three bytes of the payload, which
  \<open>print_control\<close> then leaves out.
\<close>

lemma control_header_rounds:
  assumes "length bs < 2 ^ 31"
  shows "control_header (of_nat (length bs)) (old_block 0 0 0 0 bs) =
      Inr (old_block MSG_CONTROL 0 (of_nat (length bs div 4)) 0 bs)"
    and "print_control (old_block MSG_CONTROL 0 (of_nat (length bs div 4)) 0 bs) =
      Inr (''ControlMSG'' @ [CHR 0x09] @ ''  Id: '' @ show_int 200 @
        map (\<lambda>w. char_of (unat w)) (take (length bs - length bs mod 4) bs) @ newline)"
proof -
  have "unat (of_nat (length bs) :: size_t) = length bs"
    by (rule unat_of_nat_small) (use assms in simp)
  then have "(of_nat (length bs) :: size_t) div 4 = of_nat (length bs div 4)"
    by (simp add: word_unat_eq_iff unat_div unat_of_nat)
  then show "control_header (of_nat (length bs)) (old_block 0 0 0 0 bs) =
      Inr (old_block MSG_CONTROL 0 (of_nat (length bs div 4)) 0 bs)"
    using assms by (simp add: control_header_def scast_of_nat_small)
  have "unat ((of_nat (length bs div 4) :: size_t) * 4) = length bs - length bs mod 4"
    using unat_of_nat_small [of "length bs div 4 * 4"] assms by (simp add: minus_mod_eq_div_mult)
  moreover have "take_field old_sizeof k (old_block i c d p bs) = take k bs" for k i c d p
    by (simp add: take_field_def)
  ultimately show "print_control (old_block MSG_CONTROL 0 (of_nat (length bs div 4)) 0 bs) =
      Inr (''ControlMSG'' @ [CHR 0x09] @ ''  Id: '' @ show_int 200 @
        map (\<lambda>w. char_of (unat w)) (take (length bs - length bs mod 4) bs) @ newline)"
    by (simp add: print_control_def peek_def MSG_CONTROL_def)
qed

end
