(* ===== verification/Utils.thy ===== *)
theory Utils
  imports Ideal_Float Number_Text
begin

text \<open>
  Helpers: the formatted numbers \<open>prd\<close>, \<open>centre\<close> and \<open>prsR\<close> of \<open>src/common/utils.cpp\<close>, \<open>parse\<close>
  of \<open>src/common/Logging.cpp\<close>, which turns a C++ function signature into a name for the log, and
  the stop watch of \<open>src/common/SimpleTimer.hpp\<close>.
\<close>

section \<open>Definitions\<close>

definition spaces :: "int \<Rightarrow> string" where
  "spaces k = replicate (nat k) CHR '' ''"

text \<open>A loop of \<open>padding / 2\<close> iterations does nothing for a negative padding.\<close>

definition centre :: "string \<Rightarrow> int \<Rightarrow> string" where
  "centre s w =
     (let padding = w - int (length s); sp = spaces (if 0 \<le> padding then padding div 2 else 0)
      in sp @ s @ sp @ (if 0 < padding \<and> padding mod 2 \<noteq> 0 then '' '' else []))"

definition prsR :: "string \<Rightarrow> int \<Rightarrow> string" where
  "prsR s w = (let padding = w - int (length s) in spaces padding @ s)"

text \<open>
  A double written with \<open>std::fixed\<close>: the exact value is rounded to the nearest decimal fraction
  with the given number of digits, ties to the even last digit; a negative precision means six.
  The sign of a negative number stays when it rounds to zero.
\<close>

definition round_even :: "rat \<Rightarrow> int" where
  "round_even q = (let f = \<lfloor>q\<rfloor>; r = q - of_int f
     in if r < 1 / 2 then f else if 1 / 2 < r then f + 1 else if even f then f else f + 1)"

definition pad_zeros :: "nat \<Rightarrow> string \<Rightarrow> string" where
  "pad_zeros d s = replicate (d - length s) CHR ''0'' @ s"

definition fixed_text :: "nat \<Rightarrow> rat \<Rightarrow> string" where
  "fixed_text d q =
     (let n = nat (round_even (\<bar>q\<bar> * 10 ^ d))
      in (if q < 0 then ''-'' else []) @ show_nat (n div 10 ^ d) @
         (if d = 0 then [] else ''.'' @ pad_zeros d (show_nat (n mod 10 ^ d))))"

fun fixed_fp :: "int \<Rightarrow> fp \<Rightarrow> string" where
  "fixed_fp precision (Fin q) = fixed_text (if precision < 0 then 6 else nat precision) q"
| "fixed_fp precision PInf = ''inf''"
| "fixed_fp precision MInf = ''-inf''"
| "fixed_fp precision NaN = ''nan''"

text \<open>\<open>ss.width(width)\<close> with \<open>std::right\<close>: blanks on the left, the text is never cut.\<close>

definition prd :: "fp \<Rightarrow> int \<Rightarrow> int \<Rightarrow> string" where
  "prd x decDigits width = (let t = fixed_fp decDigits x in spaces (width - int (length t)) @ t)"

text \<open>The overload without a precision leaves the stream's default of six digits.\<close>

definition prd_default :: "fp \<Rightarrow> int \<Rightarrow> string" where
  "prd_default x width = (let t = fixed_fp 6 x in spaces (width - int (length t)) @ t)"

text \<open>Position of the last character that satisfies \<open>P\<close>, as \<open>rfind\<close> gives it.\<close>

definition rfind_if :: "('a \<Rightarrow> bool) \<Rightarrow> 'a list \<Rightarrow> nat option" where
  "rfind_if P xs = map_option (\<lambda>i. length xs - 1 - i) (find_if P (rev xs))"

text \<open>\<open>erase(npos, ...)\<close> throws when there is no parenthesis.\<close>

definition parse_name :: "string \<Rightarrow> string result" where
  "parse_name functionName = (case find_if (\<lambda>c. c = CHR ''('') functionName of
       None \<Rightarrow> Inl Out_Of_Range
     | Some pos \<Rightarrow>
         (let name = take pos functionName
          in case rfind_if (\<lambda>c. c = CHR '' '') name of
               None \<Rightarrow> Inr name
             | Some i \<Rightarrow> Inr (drop i name)))"

text \<open>
  \<open>SimpleTimer\<close>, on clock readings in microseconds: \<open>total_milliseconds\<close> divides the ticks and
  cuts towards zero, also when the clock was set back.
\<close>

record simple_timer =
  timer_c :: int

definition timer_start :: "int \<Rightarrow> simple_timer \<Rightarrow> simple_timer" where
  "timer_start now t = t\<lparr>timer_c := now\<rparr>"

definition timer_end :: "int \<Rightarrow> simple_timer \<Rightarrow> int" where
  "timer_end now t =
     (let ticks = now - timer_c t in if 0 \<le> ticks then ticks div 1000 else - (- ticks div 1000))"

section \<open>Lemmas\<close>

lemma round_even_error: "\<bar>of_int (round_even q) - q\<bar> \<le> 1 / 2"
proof -
  let ?f = "of_int \<lfloor>q\<rfloor> :: rat"
  have "?f \<le> q" "q < ?f + 1" by linarith+
  moreover have "of_int (round_even q) = ?f \<and> q - ?f \<le> 1 / 2 \<or> of_int (round_even q) = ?f + 1 \<and> 1 / 2 \<le> q - ?f"
    by (auto simp: round_even_def Let_def)
  ultimately show ?thesis unfolding abs_le_iff by linarith
qed

lemma round_even_nonneg: "0 \<le> q \<Longrightarrow> 0 \<le> round_even q"
  by (auto simp: round_even_def Let_def)

lemma digits_value_zeros: "digits_value (replicate k CHR ''0'' @ s) = digits_value s"
  by (induction k) (simp_all add: digits_value_def)

lemma length_show_less: "n < 10 ^ Suc d \<Longrightarrow> length (show_nat n) \<le> Suc d"
proof (induction d arbitrary: n)
  case 0
  then show ?case by (subst show_nat.simps) simp
next
  case (Suc d)
  have "length (show_nat (n div 10)) \<le> Suc d"
    using Suc.prems by (intro Suc.IH) (simp add: less_mult_imp_div_less)
  then show ?case by (subst show_nat.simps) simp
qed

text \<open>The fraction has exactly the wanted number of digits, and the digits are the rounded value.\<close>

lemma length_fraction: "length (pad_zeros (Suc d) (show_nat (n mod 10 ^ Suc d))) = Suc d"
  using length_show_less [of "n mod 10 ^ Suc d" d] by (simp add: pad_zeros_def)

lemma fixed_digits:
  "digits_value (show_nat (n div 10 ^ Suc d) @ pad_zeros (Suc d) (show_nat (n mod 10 ^ Suc d))) = n"
  using length_fraction [of d n]
  by (simp only: digits_value_append) (simp only: pad_zeros_def digits_value_zeros digits_value_show
      length_append length_replicate div_mult_mod_eq)

lemma length_centre: "int (length s) \<le> w \<Longrightarrow> int (length (centre s w)) = w"
  by (auto simp: centre_def spaces_def Let_def) presburger+

lemma centre_long: "w \<le> int (length s) \<Longrightarrow> centre s w = s"
  by (auto simp: centre_def spaces_def)

lemma length_prsR: "int (length (prsR s w)) = max w (int (length s))"
  by (simp add: prsR_def spaces_def Let_def)

lemma parse_name_space:
  assumes "CHR '' '' \<notin> set name" "CHR ''('' \<notin> set name" "CHR ''('' \<notin> set typ"
  shows "parse_name (typ @ '' '' @ name @ ''('' @ args) = Inr ('' '' @ name)"
proof -
  have f: "find_if P (xs @ x # ys) = Some (length xs)" if "\<forall>y\<in>set xs. \<not> P y" "P x" for P x and xs ys :: string
    using that by (induction xs) auto
  have p: "find_if (\<lambda>c. c = CHR ''('') (typ @ '' '' @ name @ ''('' @ args) = Some (length (typ @ '' '' @ name))"
    using f [of "typ @ '' '' @ name" "\<lambda>c. c = CHR ''(''" "CHR ''(''" args] assms(2,3) by auto
  have "find_if (\<lambda>c. c = CHR '' '') (rev (typ @ '' '' @ name)) = Some (length name)"
    using f [of "rev name" "\<lambda>c. c = CHR '' ''" "CHR '' ''" "rev typ"] assms(1) by auto
  then have "rfind_if (\<lambda>c. c = CHR '' '') (typ @ '' '' @ name) = Some (length typ)"
    by (simp add: rfind_if_def)
  with p show ?thesis by (simp add: parse_name_def)
qed

section \<open>Properties\<close>

text \<open>
  Padding: a centred string has the requested width, a string that is too long is left
  alone, and right alignment gives the larger of the two widths.
\<close>

theorem padding_width:
  "int (length (centre s w)) = max w (int (length s)) \<and> int (length (prsR s w)) = max w (int (length s))"
  using length_centre [of s w] centre_long [of w s] length_prsR [of s w] by (cases "int (length s) \<le> w") auto

text \<open>
  A formatted number is right-aligned, never cut, and exact to half a unit of its last digit: the
  digits before and after the point, read as one number, are the nearest to the scaled value.
\<close>

theorem prd_accurate:
  assumes "0 \<le> q" "0 < decDigits"
  shows "\<exists>ip fr. prd (Fin q) decDigits width =
      spaces (width - int (length ip + 1 + length fr)) @ ip @ ''.'' @ fr \<and>
    int (length fr) = decDigits \<and>
    \<bar>of_nat (digits_value (ip @ fr)) - q * 10 ^ nat decDigits\<bar> \<le> 1 / 2"
proof -
  obtain d where d: "nat decDigits = Suc d" using assms(2) by (cases "nat decDigits") simp_all
  let ?r = "round_even (q * 10 ^ Suc d)"
  let ?n = "nat ?r"
  let ?ip = "show_nat (?n div 10 ^ Suc d)" and ?fr = "pad_zeros (Suc d) (show_nat (?n mod 10 ^ Suc d))"
  have t: "fixed_fp decDigits (Fin q) = ?ip @ ''.'' @ ?fr"
    using assms d by (simp add: fixed_text_def Let_def)
  have "0 \<le> ?r" using assms(1) by (intro round_even_nonneg) simp
  then have "\<bar>of_nat ?n - q * 10 ^ Suc d\<bar> \<le> 1 / 2" using round_even_error [of "q * 10 ^ Suc d"] by simp
  moreover have "int (length ?fr) = decDigits" using length_fraction [of d ?n] d assms(2) by simp
  moreover have "prd (Fin q) decDigits width = spaces (width - int (length ?ip + 1 + length ?fr)) @ ?ip @ ''.'' @ ?fr"
    unfolding prd_def t Let_def by (simp add: add.assoc)
  ultimately show ?thesis using fixed_digits [of ?n d] d by metis
qed

theorem prd_accurate_witness:
  "prd (Fin (5 / 2)) 2 6 = ''  2.50'' \<and> prd (Fin (1 / 8)) 2 0 = ''0.12'' \<and>
   (\<exists>ip fr. prd (Fin (5 / 2)) 2 6 = spaces (6 - int (length ip + 1 + length fr)) @ ip @ ''.'' @ fr \<and>
     int (length fr) = 2 \<and> \<bar>of_nat (digits_value (ip @ fr)) - 5 / 2 * 10 ^ nat 2\<bar> \<le> (1 / 2 :: rat))"
proof (intro conjI)
  show "prd (Fin (5 / 2)) 2 6 = ''  2.50''" by code_simp
  show "prd (Fin (1 / 8)) 2 0 = ''0.12''" by code_simp
qed (use prd_accurate [of "5 / 2" 2 6] in simp)

text \<open>The stop watch returns whole milliseconds, cut towards zero in both directions.\<close>

lemma timer_truncates:
  "timer_end (t0 + d) (timer_start t0 t) = (if 0 \<le> d then d div 1000 else - (- d div 1000))"
  by (simp add: timer_start_def timer_end_def Let_def)

text \<open>
  The log name of a function: for a signature with a return type, the name with the space
  before it; a signature without a parenthesis throws.
\<close>

theorem parse_signature:
  assumes "CHR '' '' \<notin> set name" "CHR ''('' \<notin> set name" "CHR ''('' \<notin> set typ"
  shows "parse_name (typ @ '' '' @ name @ ''('' @ args) = Inr ('' '' @ name) \<and> parse_name name = Inl Out_Of_Range"
proof -
  have "find_if (\<lambda>c. c = CHR ''('') name = None" using assms(2) by (auto simp: find_if_None)
  then have "parse_name name = Inl Out_Of_Range" by (simp add: parse_name_def)
  then show ?thesis using parse_name_space [OF assms] by blast
qed

theorem parse_signature_witness:
  "parse_name ''void run(int)'' = Inr '' run'' \<and> parse_name ''run'' = Inl Out_Of_Range"
  using parse_signature [of "''run''" "''void''" "''int)''"] by simp

end
