(* ===== verification/Spec2Isabelle.thy ===== *)
theory Spec2Isabelle
  imports
    Hydrogen_Prelude Ideal_Float Message Concurrent_Deque Deque_Threads Job_Model Scheduler_State Algs Managed_Mode
    Scheduler_Loops Transition_Runs Scheduler_System Scheduler_Guarantees Scheduler_Drain Scheduler_Iteration Scheduler_Load Scheduler_Shutdown Job_Lifecycle Tcp_Server Server_Pool Client_Model
    Dispatcher_Server Deployment Job_Exchange Lost_Dispatcher Failing_Peers Perf_Model Executor_Model Whole_Path Dyn_Lib Old_Message Utils
begin

text \<open>
  \<^bold>\<open>Hydrogen: a scheduler for shared compute engines.\<close>

  Hydrogen runs jobs of several clients on dataflow engines (DFEs) or CPUs. A client calls a stub
  of the client API (\<open>src/client/client_api.cpp\<close>), which sends a message to an executor or to
  the scheduler. The executor (\<open>src/executor\<close>) picks the implementation with the least predicted
  time and forwards the request. The scheduler (\<open>src/scheduler\<close>) queues requests as jobs; its
  scheduling thread runs several algorithms, keeps the best scored allocation, lets the
  elasticity manager resize the pool and moves the chosen jobs to the run queue; a dispatcher
  thread starts one thread per job, which talks to the dispatcher process
  (\<open>src/dispatcher\<close>); a third thread collects finished jobs and wakes the client's connection
  handler. All servers share \<open>MultiThreadedTCPServer\<close> (\<open>src/common\<close>).

  \<^bold>\<open>Theories.\<close>

  \<^item> \<open>Hydrogen_Prelude\<close>: integer types, the failures a C++ operation can end in (\<open>failure\<close>, results
    are \<open>failure + 'a\<close>), and the parts of the standard library the code uses (\<open>find_if\<close>,
    \<open>sort\<close>, \<open>max_element\<close>, \<open>rotate\<close>). \<open>Ideal_Float\<close>: rationals with infinities and NaN for the
    cost model. \<open>Transition_Runs\<close>: runs of labelled steps, endless behaviours and fairness, and the
    locales \<open>preserved\<close> (an invariant), \<open>descent\<close> (a measure that bounds every run), \<open>fair_descent\<close> (the
    same with steps that change nothing in between) and \<open>simulation\<close>, which the theories on the threads
    interpret. \<open>Number_Text\<close>: numbers as text, the way streams, \<open>lexical_cast\<close> and \<open>atoi\<close> write and
    read them.
  \<^item> \<open>Message\<close>: the packed struct \<open>msg_t\<close> with 32-bit, 64-bit and 8-bit fields, its constructors,
    accessors and printing, and its bytes; round trip, and the widths \<open>firstParam\<close> misreads.
    \<open>Old_Message\<close>: the format it replaced (\<open>old_message\<close>) and the control messages of \<open>protobuf\<close>, on
    blocks of memory, with the serialisation of the protocol buffer library as an argument.
  \<^item> \<open>Concurrent_Deque\<close>: \<open>concurrent_deque\<close> and \<open>concurrent_queue\<close>; the locales \<open>container\<close>,
    \<open>stack_discipline\<close> and \<open>queue_discipline\<close>, interpreted on them. \<open>Deque_Threads\<close>: the same deque
    under any number of threads, with its mutex and its condition variable, down to the test, the
    read and the removal of a pop; the atomic operations are shown to be what the threads see.
  \<^item> \<open>Job_Model\<close>: resources, jobs, allocations, and the flags of \<open>JobInfo\<close> and \<open>QInfo\<close>, each under a
    lock of its own (locales \<open>locked_flag\<close> and \<open>independent_flags\<close>). A \<open>JobTuplePtr\<close> is an address \<open>jref\<close> into the store
    \<open>jobs\<close> of the scheduler, because queues, threads and handlers share the object.
  \<^item> \<open>Scheduler_State\<close>: the members of \<open>class Scheduler\<close>, its operations on the pool and the
    queues, the statistics, construction, \<open>main\<close> and \<open>stop\<close>.
  \<^item> \<open>Algs\<close>: the five algorithms of \<open>algs.cpp\<close>, scoring, selection, \<open>ManagedMode\<close>; the locale
    \<open>sched_alg\<close> is the contract of an algorithm (resources come out of the pool, no job twice,
    only jobs of the window, nothing else changes), interpreted on all five. \<open>Managed_Mode\<close>: what
    follows for the managed mode.
  \<^item> \<open>Scheduler_Loops\<close>: the elasticity manager, one iteration of each thread, the two halves of
    \<open>runJob\<close> and of \<open>concurrentHandler\<close>, \<open>handle_request\<close>. Clock readings are arguments.
  \<^item> \<open>Scheduler_System\<close>: the threads as interleaved atomic steps \<open>sys_step\<close>, runs, reachable states
    and the invariant \<open>sys_inv\<close>. \<open>Scheduler_Guarantees\<close>: what holds of reachable states, and the runs
    that fail. \<open>Scheduler_Drain\<close>: the measures \<open>work_left\<close> and \<open>tasks_left\<close> of what the threads have still
    to do, which steps are possible, and the states where none is. \<open>Scheduler_Iteration\<close>: all outcomes of
    one iteration of the scheduling loop, with what it is meant to do (\<open>scheduled\<close>). \<open>Scheduler_Load\<close>: requests without a
    target time, and the same steps when requests are taken up by the \<open>NUM_THREADS\<close> threads of the server
    (\<open>pooled_step\<close>). \<open>Scheduler_Shutdown\<close>: the destructor,
    which interrupts and joins the loop threads while they and the job threads go on (\<open>down_step\<close>), and
    the measure \<open>chores\<close> that bounds it. \<open>Job_Lifecycle\<close>: the abstract life cycle of a job and the
    simulation of it by \<open>sys_step\<close>.
  \<^item> \<open>Tcp_Server\<close>: a connection, from the first read to its end; the locale \<open>request_server\<close> is what
    the connection needs of \<open>handle_request\<close>. \<open>Server_Pool\<close>: the acceptor, the worker threads and the
    shutdown by a signal around the connections. \<open>Client_Model\<close>: \<open>Client\<close>, \<open>Resource::dispatch\<close>, the
    stubs. \<open>Dispatcher_Server\<close>: the dispatcher's handler, with the DFE library as a parameter, an
    interpretation of \<open>request_server\<close>, and the reference functions of \<open>test/TestLib.cpp\<close>.
  \<^item> \<open>Job_Exchange\<close>: the whole of \<open>runJob\<close> as a client of the dispatcher, and a request through the
    scheduler. \<open>Deployment\<close>: where the resources point to, from the command lines of the scheduler
    and the dispatcher on. \<open>Lost_Dispatcher\<close>: job threads whose dispatcher is gone, and the scheduler as a
    process that an exception of such a thread ends (\<open>proc_step\<close>). \<open>Failing_Peers\<close>: handlers that are
    interrupted.
  \<^item> \<open>Perf_Model\<close>, \<open>Executor_Model\<close>: training, queries and files of performance models, with the archives
    of Boost.Serialization as a parameter; tasks,
    selection, the executor's handler, its process and its destructor. \<open>Whole_Path\<close>: a request through
    all four processes.
  \<^item> \<open>Dyn_Lib\<close>: \<open>DynLibFunc\<close>, with the dynamic linker as a parameter. \<open>Utils\<close>: formatted
    numbers, padding, the log name of a function and the stop watch.

  \<^bold>\<open>What is shown.\<close> The queues are linearizable, and calls on them complete. In every reachable
  state jobs and resources are conserved, a handler only returns with a result, jobs only move forward in their life cycle; the managed mode returns a sound
  allocation with the highest score and serves a job when it can; a decision is carried out unless
  the pool is shrunk in between; without new requests the threads come to an end with every job
  completed (the busy waiting of the scheduling thread on an empty pool apart, under any fair scheduling), always if no request had a target time, otherwise unless the pool has run empty or a decision has lost a
  resource; the queues never hold more jobs than the server has threads; a waiting client can be answered; every job thread connects to the
  dispatcher the processes were started with. The destructor ends after a bounded number of steps,
  busy waiting apart, and finds all loop threads done, with the same two exceptions. Requests survive any
  fragmentation, and a moving average travels from the client's array through the executor, the
  scheduler and the dispatcher and back. Models train; the executor selects the fastest
  implementation. The theorems about errors describe inputs and interleavings on which the code
  fails: the resource released between decision and execution, the lost wakeup, and four of them that
  leave the scheduler without a thread to take requests up, jobs without a
  predicted time, the newest job served first, the division by zero of \<open>stop\<close> and of training, the
  window widths and replies that are read with the wrong size, predictions below a millisecond,
  training that never ends because its index wraps around, connections that never end, requests that are cut off and take the server down, a dispatcher that
  is gone and takes the scheduler with it, the stop that waits for ever for a waiting client, the
  destructor that waits for ever for jobs nobody can schedule and leaves running jobs behind.

  \<^bold>\<open>Modelling decisions.\<close> A step of \<open>sys_step\<close> is what a thread does between two points where the
  order of threads can matter: the decision is taken with the ready queue locked; an iteration that finds the
  pool empty is a step of its own (\<open>Spin\<close>) that changes nothing and can be repeated without bound; returning the
  resources, storing the response and queueing a finished job is one step. A blocking call on an
  empty container is the failure \<open>Would_Block\<close>, which means that the thread cannot take its step. Every
  other failure of a thread ends the process, because nothing catches it: in \<open>Server_Pool\<close> that is the
  flag \<open>crashed\<close>, in \<open>proc_step\<close> the flag \<open>terminated\<close>; in \<open>sys_step\<close> such a step is left out, and the
  theorems on errors say where it arises.
  A read from a peer that has closed throws \<open>System_Error\<close>; writing to it is taken to succeed, as the
  first write after the peer's close does.
  Durations and floating-point values are rational numbers, so that infinities and NaN only occur where the
  cost model divides; the bound of \<open>scorable\<close> on the ready queue, which \<open>few_requests\<close> (at most \<open>max_requests\<close>,
  a million, requests) ensures, keeps scores below \<open>2 ^ 24\<close>, where a \<open>float\<close> holds integers exactly.
  The theorems about the scheduler that depend on scores have \<open>predicted_jobs\<close> and \<open>few_requests\<close> as hypotheses. Counters that only grow (\<open>nextJid\<close>,
  \<open>resourceId\<close>) are unbounded. The only fuel is that of \<open>handle_read\<close>, whose loop need not end: a
  session is shown to end within its first iteration, an abandoned connection for no fuel. The measuring
  loop of the training, which need not end either, is a partial function.

  An interrupted thread ends at the next wait on an empty queue, the only interruption point of the
  loops; it changes nothing there, since the elasticity manager is shown never to block.

  \<^bold>\<open>Not modelled.\<close> Boost.Asio, Boost.Thread, Boost.Program_options and Boost.Log beyond what a mutex, a
  condition variable, a socket, \<open>io_service::run\<close> and the parsed options are documented to do (name
  resolution, log sinks), log lines and progress messages on the console, the release of memory, the
  generated protocol-buffer code, \<open>operator<<\<close> of \<open>Job\<close>, which formats durations through Boost.Chrono,
  functions with empty bodies (\<open>SetResources\<close>, \<open>DelResource\<close>, \<open>CreatePerfomanceModels\<close>,
  \<open>parse_protobuf\<close>), the stub \<open>Executor::SelectImplementation\<close>, functions that are declared and never
  defined (\<open>Scheduler::realloc\<close>, \<open>returnToReadyQ\<close> and others), and the class \<open>Server\<close>, from which nothing
  derives. What else of the sources has no definition here is declarations and code in comments.
\<close>

section \<open>A sample run\<close>

text \<open>
  The concrete states the witnesses below use: a scheduler process started with the
  dispatcher port 8111 and one moving-average request with a given predicted and target
  time.
\<close>

definition demo_request :: "i32 \<Rightarrow> i32 \<Rightarrow> msg" where
  "demo_request predicted target =
     (zero_msg 0)\<lparr>msgId := MSG_MOVING_AVG, totalBytes := of_nat sizeof_msg,
       predictedTimeMillis := predicted, targetExecutionTimeMillis := target\<rparr>"

definition demo_start :: system where
  "demo_start = init_system 8111 (\<lambda>_. demo_tuple 0) 0 0"

definition demo_queue :: "i32 \<Rightarrow> i32 \<Rightarrow> scheduler" where
  "demo_queue predicted target = first_request 8111 (\<lambda>_. demo_tuple 0) 0 0 (demo_request predicted target) 0"

definition demo_submitted :: system where
  "demo_submitted = demo_start\<lparr>sch := demo_queue 1000 1500, handler := (handler demo_start)(0 := Testing)\<rparr>"

definition demo_untargeted :: system where
  "demo_untargeted = demo_start\<lparr>sch := demo_queue 1000 0, handler := (handler demo_start)(0 := Testing)\<rparr>"

abbreviation demo_resource :: resource where
  "demo_resource \<equiv> Resource_new 1 8111 ''localhost'' ''DFE''"

lemma demo_request_simps [simp]:
  "predictedTimeMillis (demo_request p t) = p" "targetExecutionTimeMillis (demo_request p t) = t"
  by (simp_all add: demo_request_def)

lemma demo_submitted_reachable: "reachable demo_submitted"
  using sys_run_reachable [OF sys_run_step [OF first_request_init]]
  unfolding demo_submitted_def demo_start_def demo_queue_def .

lemma demo_untargeted_reachable: "reachable demo_untargeted"
  using sys_run_reachable [OF sys_run_step [OF first_request_init]]
  unfolding demo_untargeted_def demo_start_def demo_queue_def .

lemma demo_untargeted_load:
  "predicted_jobs demo_untargeted" "few_requests demo_untargeted" "untargeted demo_untargeted"
  "tasks_left demo_untargeted = 32" "nextRef (sch demo_untargeted) = 1"
  by (simp_all add: modest_load_defs tasks_left_def handler_work_def work_left_def untargeted_def demo_untargeted_def
      demo_queue_def demo_start_def init_system_def start_system_def Job_new_def millis_def)

lemma demo_submitted_simps [simp]:
  "readyQ (sch demo_submitted) = [0]" "nextRef (sch demo_submitted) = 1"
  "runQ (sch demo_submitted) = []" "finishedQ (sch demo_submitted) = []"
  "threads demo_submitted = []" "completed demo_submitted = []"
  "resPool (sch demo_submitted) = [Resource_new 1 8111 ''localhost'' ''DFE'']"
  "provisionedResources (sch demo_submitted) = 1" "spc demo_submitted = Idle"
  by (simp_all add: demo_submitted_def demo_queue_def demo_start_def init_system_def start_system_def)

lemma demo_submitted_sch: "sch demo_submitted = demo_queue 1000 1500"
  by (simp add: demo_submitted_def)

lemma demo_queue_simps [simp]:
  "readyQ (demo_queue p t) = [0]" "resPool (demo_queue p t) = [demo_resource]"
  "algVec (demo_queue p t) =
     [FCFSMax_alg, FCFSMin_alg, FCFSAsManyAsPos_alg, SJTF_alg, Priority_alg, ManagedMode_alg]"
  by (simp_all add: demo_queue_def)

lemma demo_queued:
  obtains ls w where "sys_run demo_start ls w" "reachable w" "sys_inv w" "modest_load w" "nextRef (sch w) = 1"
    "runQ (sch w) = [(0, [demo_resource])]" "handler w 0 = Going_To_Wait" "notifying w = None" "spc w = Idle"
    "req (job_at (sch w) 0) = demo_request 1000 1500"
proof (rule first_request_queued [of "demo_request 1000 1500" 8111 "\<lambda>_. demo_tuple 0" 0 0])
  fix ls w
  assume w: "sys_run (init_system 8111 (\<lambda>_. demo_tuple 0) 0 0) ls w" and "sys_inv w" "modest_load w"
    "nextRef (sch w) = 1" "runQ (sch w) = [(0, [demo_resource])]" "handler w 0 = Going_To_Wait"
    "notifying w = None" "spc w = Idle" "req (job_at (sch w) 0) = demo_request 1000 1500"
  with sys_run_reachable [OF w] w show thesis unfolding demo_start_def [symmetric] by (intro that)
qed simp_all

text \<open>The same request one step further: its job thread is running.\<close>

lemma demo_running:
  obtains ls z where "sys_run demo_start ls z" "reachable z" "sys_inv z" "modest_load z"
    "(0, [demo_resource]) \<in> set (threads z)" "drained z" "req (job_at (sch z) 0) = demo_request 1000 1500"
proof -
  obtain ls w where w: "sys_run demo_start ls w" "reachable w" "sys_inv w" "modest_load w" "nextRef (sch w) = 1"
    "runQ (sch w) = [(0, [demo_resource])]" "spc w = Idle" "req (job_at (sch w) 0) = demo_request 1000 1500"
    by (rule demo_queued)
  let ?s = "update_info 0 (\<lambda>i. i\<lparr>started := True\<rparr>) ((sch w)\<lparr>runQ := []\<rparr>)"
  let ?z = "w\<lparr>sch := ?s, threads := threads w @ [(0, [demo_resource])]\<rparr>"
  have "\<not> started (tinfo (jobs (sch w) 0))"
    using w(3,5,6) by (simp add: sys_inv_def inv_flags_def)
  then have "dispatcherLoop_iter (sch w) = Inr (Some (0, [demo_resource]), ?s)"
    using w(6) by (simp add: dispatcherLoop_iter_def wait_pop_front_def)
  from dispatch [OF this] have st: "sys_step Dispatch w ?z" by simp
  have "modest_load ?z" using modest_load_kept [OF st w(3) _ w(4)] by simp
  moreover have "readyQ (sch w) = []"
  proof -
    have places: "distinct (job_places w)" "set (job_places w) = {0}"
      using w(3,5) by (auto simp: sys_inv_def inv_jobs_def)
    have "set (readyQ (sch w)) \<subseteq> set (job_places w)" by (simp add: job_places_def)
    moreover have "0 \<notin> set (readyQ (sch w))" using places(1) w(6) by (simp add: job_places_def)
    ultimately have "0 \<notin> set (readyQ (sch w))" "set (readyQ (sch w)) \<subseteq> {0}" using places(2) by simp_all
    then show ?thesis by (metis set_empty subset_singletonD insertI1)
  qed
  ultimately show thesis using w(7,8)
    by (intro that [OF sys_run_snoc [OF w(1) st] reachable_step [OF w(2) st] sys_inv_step [OF st w(3)]])
      (simp_all add: drained_def)
qed

section \<open>Safety of the running scheduler\<close>

text \<open>
  C1. In every reachable state of the scheduler no job is lost and none is duplicated: the
  jobs submitted so far are exactly those in the ready queue, the run queue, the running job
  threads, the finished queue or already completed, each in exactly one of these places.
\<close>

theorem jobs_conserved:
  assumes "reachable y"
  shows "distinct (job_places y) \<and> set (job_places y) = {..<nextRef (sch y)}"
  using reachable_sys_inv [OF assms] by (simp add: sys_inv_def inv_jobs_def)

theorem jobs_conserved_witness:
  "reachable demo_submitted \<and> job_places demo_submitted = [0] \<and>
   set (job_places demo_submitted) = {..<nextRef (sch demo_submitted)}"
  using jobs_conserved [OF demo_submitted_reachable] demo_submitted_reachable
  by (simp add: job_places_def)

text \<open>
  C2. In every reachable state no resource is lost and none is used twice: the resources in
  the pool and those held by queued or running jobs have distinct identifiers handed out
  before, and there are exactly as many of them as the provisioning counter says.
\<close>

theorem resources_conserved:
  assumes "reachable y"
  shows "distinct (rid_places y) \<and> set (rid_places y) \<subseteq> {1..<resourceId (sch y)} \<and>
    int (length (rid_places y)) = provisionedResources (sch y)"
  using reachable_sys_inv [OF assms] by (simp add: sys_inv_def inv_resources_def)

theorem resources_conserved_witness:
  "reachable demo_submitted \<and> rid_places demo_submitted = [1] \<and>
   int (length (rid_places demo_submitted)) = provisionedResources (sch demo_submitted)"
  using resources_conserved [OF demo_submitted_reachable] demo_submitted_reachable
  by (simp add: rid_places_def Resource_new_def)



text \<open>
  C14. As long as every request so far came with a predicted time of at least a millisecond, and there
  were no more than \<open>max_requests\<close> (a million) of them, a job thread never reads the front of an empty resource list: its request goes to the
  address of the first of its resources and carries the mask of all of them.
\<close>

theorem threads_have_resources:
  assumes "reachable y" "predicted_jobs y" "few_requests y" "pr \<in> set (threads y)"
  shows "\<exists>r rs. snd pr = r # rs \<and> runJob_request pr (sch y) =
    Inr (port r, url r, (req (job_at (sch y) (fst pr)))\<lparr>rids := packed_rids (snd pr)\<rparr>)"
proof -
  have "snd pr \<noteq> []"
    using reachable_all_served [OF assms(1) modest_loadI [OF assms(2,3)]] assms(4) by (simp add: all_served_def)
  then show ?thesis by (cases "snd pr") (simp_all add: runJob_request_def deque_front_def)
qed

theorem threads_have_resources_witness:
  "\<exists>y. reachable y \<and> predicted_jobs y \<and> few_requests y \<and> (0, [demo_resource]) \<in> set (threads y) \<and>
     runJob_request (0, [demo_resource]) (sch y) =
       Inr (8111, ''localhost'', (req (job_at (sch y) 0))\<lparr>rids := 1\<rparr>)"
proof -
  obtain ls z where z: "reachable z" "modest_load z" "(0, [demo_resource]) \<in> set (threads z)"
    by (rule demo_running)
  then have l: "predicted_jobs z" "few_requests z" by (simp_all add: modest_load_def)
  show ?thesis using threads_have_resources [OF z(1) l z(3)] z l
    by (intro exI [of _ z]) (simp add: Resource_new_def packed_rids_def rid_bit_def)
qed

text \<open>
  C12. The processes find each other: when the scheduler and the dispatcher are started with the same
  port argument, whatever resources the elasticity manager adds or removes, every job thread
  connects to the host and the port the dispatcher listens on.
\<close>

theorem jobs_reach_dispatcher:
  assumes "scheduler_process [prog, listen, dport] st b n = Inr (own, s)"
    and "dispatcher_process [prog', dport] = Inr (address, pool)"
    and "sys_run (start_system s) ls y" "pr \<in> set (threads y)"
    and "runJob_request pr (sch y) = Inr (portNumber, name, m)"
  shows "connect_query portNumber name = address"
proof -
  let ?d = "atoi dport"
  have s: "start_system s = init_system ?d st b n"
    using assms(1) by (auto simp: scheduler_process_def init_system_def)
  have "wiring ?d ''localhost'' y"
    using wires.along [OF assms(3) [unfolded s]] sys_inv_init wiring_init by blast
  then have w: "\<forall>r\<in>set (snd pr). wired ?d ''localhost'' r"
    using assms(4) by (auto simp: wiring_def set_held)
  from assms(5) obtain r rs where "snd pr = r # rs" "portNumber = port r" "name = url r"
    by (cases "snd pr") (auto simp: runJob_request_def deque_front_def)
  with w have "portNumber = ?d" "name = ''localhost''" by (auto simp: wired_def)
  then show ?thesis using assms(2) by (auto simp: connect_query_def dispatcher_process_def Dispatcher_new_def)
qed

theorem jobs_reach_dispatcher_witness:
  "\<exists>s address pool ls y m.
     scheduler_process [''scheduler'', ''8110'', ''8111''] (\<lambda>_. demo_tuple 0) 0 0 = Inr (''8110'', s) \<and>
     dispatcher_process [''dispatcher'', ''8111''] = Inr (address, pool) \<and>
     sys_run (start_system s) ls y \<and> runJob_request (0, [demo_resource]) (sch y) = Inr (8111, ''localhost'', m) \<and>
     connect_query 8111 ''localhost'' = address"
proof -
  have p: "atoi ''8111'' = 8111" by code_simp
  let ?s = "scheduler_main 8111 (\<lambda>_. demo_tuple 0) 0 0"
  have s: "scheduler_process [''scheduler'', ''8110'', ''8111''] (\<lambda>_. demo_tuple 0) 0 0 = Inr (''8110'', ?s)"
    by (simp add: scheduler_process_def p)
  obtain address pool where d: "dispatcher_process [''dispatcher'', ''8111''] = Inr (address, pool)"
    by (simp add: dispatcher_process_def Dispatcher_new_def)
  obtain ls z where z: "sys_run demo_start ls z" "(0, [demo_resource]) \<in> set (threads z)"
    by (rule demo_running)
  have run: "sys_run (start_system ?s) ls z" using z(1) by (simp add: demo_start_def init_system_def)
  obtain m where m: "runJob_request (0, [demo_resource]) (sch z) = Inr (8111, ''localhost'', m)"
    by (simp add: runJob_request_def deque_front_def Resource_new_def)
  from jobs_reach_dispatcher [OF s d run z(2) m] s d run m show ?thesis by blast
qed

text \<open>
  C3. The scheduler implements the life cycle of a job: every run of its threads is a run of
  the abstract machine (absent, ready, queued, running, done, completed), so no job ever goes
  back to an earlier phase, and exactly the jobs that were never submitted are absent.
\<close>

theorem scheduler_refines_lifecycle:
  assumes "reachable y" "sys_run y ls z"
  shows "life_step\<^sup>*\<^sup>* (phase_of y) (phase_of z) \<and> phase_of y p \<le> phase_of z p \<and>
    (phase_of z p = Absent \<longleftrightarrow> nextRef (sch z) \<le> p)"
proof -
  have "sys_inv y" using assms(1) by (rule reachable_sys_inv)
  then have "sys_inv z" "life_step\<^sup>*\<^sup>* (phase_of y) (phase_of z)"
    using whole.along [OF assms(2)] life.abs_run [OF assms(2)] by simp_all
  moreover from this have "phase_of z p = Absent \<longleftrightarrow> p \<notin> set (job_places z)"
    by (auto simp: phase_of_def job_places_def)
  ultimately show ?thesis using life_steps_forward by (auto simp: sys_inv_def inv_jobs_def)
qed

theorem scheduler_refines_lifecycle_witness:
  "reachable demo_start \<and> sys_run demo_start [Submit (demo_request 1000 1500) 0] demo_submitted \<and>
   phase_of demo_start 0 \<le> phase_of demo_submitted 0 \<and> phase_of demo_submitted 1 = Absent"
proof -
  have r: "reachable demo_start" unfolding demo_start_def by (rule sys_run_reachable [OF sys_run_nil])
  have run: "sys_run demo_start [Submit (demo_request 1000 1500) 0] demo_submitted"
    using sys_run_step [OF first_request_init] unfolding demo_submitted_def demo_start_def demo_queue_def .
  show ?thesis using scheduler_refines_lifecycle [OF r run, of 0] scheduler_refines_lifecycle [OF r run, of 1]
      r run by simp
qed

section \<open>Progress\<close>

text \<open>
  A client whose job reached the front of the run queue can be answered: when its
  handler sleeps on the condition variable and no notification is under way, the dispatcher
  thread, the job thread and the finished-queue thread can each take their next step, and
  after them the handler is back with the very response the job's thread received.
\<close>

theorem client_answered:
  assumes "reachable y" "modest_load y" "runQ (sch y) = (p, rs) # q" "notifying y = None"
    and "handler y p = Waiting" "msgId reply = MSG_RESULT"
  shows "\<exists>z. sys_run y [Dispatch, Complete (p, rs) reply t0 t1 t2, Finish t3, Notify, Test p] z \<and>
    handler z p = Returned \<and> rsp (job_at (sch z) p) = Some reply"
proof -
  have "rs \<noteq> []" using reachable_all_served [OF assms(1,2)] assms(3) by (simp add: all_served_def)
  then obtain z where z: "sys_run y [Dispatch, Complete (p, rs) reply t0 t1 t2, Finish t3, Notify] z"
    "rsp (job_at (sch z) p) = Some reply" "finished (tinfo (jobs (sch z) p))" "handler z p = Testing"
    using run_job_to_end [OF reachable_sys_inv [OF assms(1)] assms(3) _ assms(4,6)] assms(5) by fastforce
  have "sys_step (Test p) z (z\<lparr>handler := (handler z)(p := Returned)\<rparr>)" using test [OF z(4)] z(3) by simp
  from sys_run_snoc [OF z(1) this] z(2) show ?thesis
    by (intro exI [of _ "z\<lparr>handler := (handler z)(p := Returned)\<rparr>"]) simp
qed

theorem client_answered_witness:
  "\<exists>y z. reachable y \<and> modest_load y \<and> handler y 0 = Waiting \<and>
     sys_run y [Dispatch, Complete (0, [demo_resource]) ((zero_msg 0)\<lparr>msgId := MSG_RESULT\<rparr>) 0 1 2,
       Finish 3, Notify, Test 0] z \<and> handler z 0 = Returned"
proof -
  obtain ls w where w: "reachable w" "sys_inv w" "modest_load w"
    "runQ (sch w) = [(0, [demo_resource])]" "handler w 0 = Going_To_Wait" "notifying w = None"
    by (rule demo_queued)
  let ?y = "w\<lparr>handler := (handler w)(0 := Waiting)\<rparr>"
  have st: "sys_step (Wait 0) w ?y" using wait [OF w(5)] .
  have y: "reachable ?y" "modest_load ?y"
    using reachable_step [OF w(1) st] modest_load_kept [OF st w(2) _ w(3)] by auto
  let ?reply = "(zero_msg 0)\<lparr>msgId := MSG_RESULT\<rparr>"
  obtain z where "sys_run ?y [Dispatch, Complete (0, [demo_resource]) ?reply 0 1 2, Finish 3, Notify, Test 0] z"
    "handler z 0 = Returned"
    using client_answered [OF y, of 0 "[demo_resource]" "[]" ?reply 0 1 2 3] w(4,6) by auto
  with y show ?thesis by (intro exI [of _ ?y] exI [of _ z]) simp
qed

text \<open>
  C17. A decision of the managed mode is carried out as it was taken unless the elasticity
  manager shrinks the pool in between (slack above one): the pool update and the service of
  the allocation both succeed, the chosen jobs leave the ready queue in place, the others keep
  their order, and the chosen jobs are at the front of the run queue with their resources.
\<close>

theorem decision_executes:
  assumes "reachable y" "spc y = Chosen t0 a" "\<not> fp_less (Fin 1) (getJLOMetric (job_at (sch y)) a)"
  shows "\<exists>z w. sys_step Resize y z \<and> sys_step (Service t1) z w \<and> spc w = Idle \<and>
    readyQ (sch w) = filter (\<lambda>q. q \<notin> set (map fst (ajobs a))) (readyQ (sch y)) \<and>
    runQ (sch w) = rev (ajobs a) @ runQ (sch y)"
  using decision_carried_out [OF reachable_sys_inv [OF assms(1)] assms(2,3)] by metis

theorem decision_executes_witness:
  "\<exists>y a z w. reachable y \<and> spc y = Chosen 0 a \<and> readyQ (sch y) = [0] \<and> sys_step Resize y z \<and>
     sys_step (Service 1) z w \<and> readyQ (sch w) = [] \<and> runQ (sch w) = [(0, [demo_resource])]"
proof -
  let ?m = "demo_request 1000 1500" and ?st = "\<lambda>_. demo_tuple 0"
  have "1 \<le> sint (predictedTimeMillis ?m)" by simp
  then obtain a y where y: "sys_run (init_system 8111 ?st 0 0) [Submit ?m 0, Test 0, Decide 0] y"
    "sch y = first_request 8111 ?st 0 0 ?m 0" "spc y = Chosen 0 a" "ajobs a = [(0, [demo_resource])]"
    by (rule first_request_chosen)
  have "\<not> fp_less (Fin 1) (getJLOMetric (job_at (sch y)) a)"
    using getJLOMetric_single [OF y(4), of "job_at (sch y)"] y(2) first_request_slack [of 8111 ?st 0 0 ?m 0]
    by simp
  from decision_executes [OF sys_run_reachable [OF y(1)] y(3) this, of 1]
  obtain z w where "sys_step Resize y z" "sys_step (Service 1) z w" "readyQ (sch w) = []"
    "runQ (sch w) = [(0, [demo_resource])]" using y(2,4) by auto
  with y(2,3) sys_run_reachable [OF y(1)] show ?thesis by (metis first_request_simps(1))
qed

text \<open>
  C18. One whole iteration of the scheduling loop, between the atomic steps of the other threads, on at
  most \<open>max_requests\<close> requests that all had a predicted time. It blocks exactly on an empty ready queue.
  With an empty pool it changes nothing and the thread spins. Otherwise it succeeds and does what
  \<open>scheduled\<close> says: some of the first jobs of the ready queue, each with one to four resources that were in
  the pool and are not any more, go to the front of the run queue, the others keep their places, and the
  atomic steps \<open>Decide\<close>, \<open>Resize\<close>, \<open>Service\<close> of the thread lead to the very same state. The only
  failure is the end iterator that is erased when the slack of the decision is above one and the
  elasticity manager takes a resource away.
\<close>

theorem schedLoop_refines:
  assumes "reachable y" "predicted_jobs y" "few_requests y" "spc y = Idle"
  shows "case schedLoop_iter t0 t1 (sch y) of
      Inl e \<Rightarrow> e = Would_Block \<and> readyQ (sch y) = [] \<or>
        e = End_Deref \<and> readyQ (sch y) \<noteq> [] \<and> resPool (sch y) \<noteq> [] \<and>
        (\<exists>a s1. ManagedMode (sch y) = Inr (a, s1) \<and> fp_less (Fin 1) (getJLOMetric (job_at (sch y)) a))
    | Inr s \<Rightarrow> readyQ (sch y) \<noteq> [] \<and>
        (if resPool (sch y) = [] then s = sch y \<and> sys_run y [Spin] y
         else (\<exists>served. scheduled (sch y) served s) \<and>
           sys_run y [Decide t0, Resize, Service t1] (y\<lparr>sch := s\<rparr>))"
proof -
  consider (empty) "readyQ (sch y) = []" | (spin) "readyQ (sch y) \<noteq> []" "resPool (sch y) = []"
    | (work) "readyQ (sch y) \<noteq> []" "resPool (sch y) \<noteq> []" by blast
  then show ?thesis
  proof cases
    case empty
    then show ?thesis by (simp add: schedLoop_iter_def wait_not_empty_def)
  next
    case spin
    then show ?thesis using sys_run_step [OF sys_step.spin [OF assms(4)]]
      by (simp add: schedLoop_iter_def wait_not_empty_def deque_size_def)
  next
    case work
    from iteration [OF assms(1) modest_loadI [OF assms(2,3)] assms(4) work, of t0 t1] show ?thesis
      using work by cases auto
  qed
qed

theorem schedLoop_refines_witness:
  "\<exists>s served. schedLoop_iter 0 1 (sch demo_submitted) = Inr s \<and> scheduled (sch demo_submitted) served s \<and>
     sys_run demo_submitted [Decide 0, Resize, Service 1] (demo_submitted\<lparr>sch := s\<rparr>)"
proof -
  let ?m = "demo_request 1000 1500" and ?st = "\<lambda>_. demo_tuple 0" and ?y = demo_submitted
  have y: "predicted_jobs ?y" "few_requests ?y"
    by (simp_all add: modest_load_defs demo_submitted_def demo_queue_def Job_new_def millis_def)
  have "1 \<le> sint (predictedTimeMillis ?m)" by simp
  then obtain a where a: "ManagedMode (demo_queue 1000 1500) = Inr (a, demo_queue 1000 1500)"
    "ajobs a = [(0, [demo_resource])]"
    using first_request_managed [of ?m 8111 ?st 0 0 0] unfolding demo_queue_def by blast
  have "getJLOMetric (job_at (demo_queue 1000 1500)) a = Fin (1 / 2)"
    using getJLOMetric_single [OF a(2), of "job_at (demo_queue 1000 1500)"] first_request_slack [of 8111 ?st 0 0 ?m 0]
    unfolding demo_queue_def by simp
  then have "\<not> (\<exists>a s1. ManagedMode (sch ?y) = Inr (a, s1) \<and> fp_less (Fin 1) (getJLOMetric (job_at (sch ?y)) a))"
    using a(1) by (simp add: demo_submitted_sch)
  with schedLoop_refines [OF demo_submitted_reachable y, of 0 1] show ?thesis
    by (auto split: sum.splits)
qed

section \<open>Order, starvation and failures\<close>

text \<open>
  C27. The three FCFS algorithms do not serve requests first come, first served: in every
  reachable state a job they leave in the ready queue was submitted before every job they
  serve (references are handed out in submission order).
\<close>

theorem fcfs_serves_newest_first:
  assumes "reachable y" "g \<in> {FCFSMin_alg, FCFSMax_alg, FCFSAsManyAsPos_alg}"
    and "run_alg g (sch y) = Inr (a, s')" "p \<in> set (map fst (ajobs a))"
    and "q \<in> set (readyQ (sch y))" "q \<notin> set (map fst (ajobs a))"
  shows "q < p"
proof -
  let ?r = "readyQ (sch y)" and ?k = "min (length (ajobs a)) (window (sch y))"
  obtain mx mn where "fcfs_loop mx mn (window (sch y)) 0 (sch y) Allocations_new = Inr (a, s')"
    using assms(2,3) by (auto simp: FCFSMin_def FCFSMax_def FCFSAsManyAsPos_def)
  then have served: "map fst (ajobs a) = take ?k ?r" using fcfs_run_spec(3) by (metis take_take)
  then have "q \<in> set (drop ?k ?r)"
    using assms(5,6) by (metis UnE append_take_drop_id set_append)
  moreover have "sorted_wrt (>) (take ?k ?r @ drop ?k ?r)" using reachable_ready_sorted [OF assms(1)] by simp
  ultimately show ?thesis using assms(4) served unfolding sorted_wrt_append by metis
qed

theorem fcfs_serves_newest_first_witness:
  "\<exists>y a s'. reachable y \<and> readyQ (sch y) = [1, 0] \<and> run_alg FCFSMin_alg (sch y) = Inr (a, s') \<and>
     map fst (ajobs a) = [1] \<and> (0 :: nat) < 1"
proof -
  let ?m = "demo_request 1000 1500"
  let ?s = "snd (concurrentHandler_submit ?m 1 (demo_queue 1000 1500))"
  let ?y = "demo_submitted\<lparr>sch := ?s, handler := (handler demo_submitted)(1 := Testing)\<rparr>"
  have n: "nextRef (demo_queue 1000 1500) = 1" by (simp add: demo_queue_def)
  have "sys_step (Submit ?m 1) demo_submitted ?y"
    by (rule submit) (simp add: demo_submitted_sch concurrentHandler_submit_eq n)
  then have y: "reachable ?y" using demo_submitted_reachable reachable_step by blast
  have s: "readyQ ?s = [1, 0]" "resPool ?s = [demo_resource]" "window ?s = 5" "jmin (job_at ?s 1) = 1"
    "jmin (job_at ?s 0) = 1"
    by (simp_all add: concurrentHandler_submit_eq n Job_new_def demo_queue_def)
  obtain a s' where a: "FCFSMin ?s = Inr (a, s')" "map fst (ajobs a) = [1]"
    using s by (simp add: FCFSMin_def fcfs_loop_list allocate_eq)
  have "(0 :: nat) < 1"
    by (rule fcfs_serves_newest_first [OF y, of FCFSMin_alg a s']) (use a s(1) in simp_all)
  with y a s(1) show ?thesis by (intro exI [of _ ?y] exI [of _ a] exI [of _ s']) simp
qed

text \<open>
  C19. A scheduling iteration on the first request fails when the client leaves the job more
  than a second of slack (target execution time more than 1000 ms above the predicted time):
  the elasticity manager releases the resource the decision is about, and claiming it erases
  the end iterator of the pool.
\<close>

theorem slack_crashes_scheduler:
  fixes m :: msg
  assumes "1 \<le> sint (predictedTimeMillis m)"
    and "sint (predictedTimeMillis m) + 1000 < sint (targetExecutionTimeMillis m)"
  shows "schedLoop_iter t0 t1 (first_request d st b n m now) = Inl End_Deref"
proof -
  let ?s = "first_request d st b n m now" and ?r = "Resource_new 1 d ''localhost'' ''DFE''"
  obtain a y where y: "sys_inv y" "sch y = ?s" "spc y = Chosen 0 a" "ajobs a = [(0, [?r])]"
    "ManagedMode ?s = Inr (a, ?s)"
    using first_request_chosen [OF assms(1), of d st b n now] by metis
  have "of_int 1000 < (of_int (sint (targetExecutionTimeMillis m) - sint (predictedTimeMillis m)) :: rat)"
    using assms(2) by (subst of_int_less_iff) simp
  then have "fp_less (Fin 1) (getJLOMetric (job_at (sch y)) a)"
    using getJLOMetric_single [OF y(4), of "job_at ?s"] y(2) by (simp add: first_request_slack)
  then obtain s' where "updateResourcePool a ?s = Inr s'" "serviceAllocations a t1 s' = Inl End_Deref"
    using decision_lost_resource [OF y(1,3), of "[]" ?r t1] y(2,4) by auto
  with y(4,5) show ?thesis
    by (simp add: schedLoop_iter_def wait_not_empty_def deque_size_def MODE_MANAGED_def call_alg_def
        noJobs_eq Let_def)
qed

theorem slack_crashes_scheduler_witness: "schedLoop_iter 0 1 (demo_queue 1000 5000) = Inl End_Deref"
  unfolding demo_queue_def by (rule slack_crashes_scheduler) simp_all

text \<open>
  The wait for a job can miss its notification: there is a run of the scheduler after
  which the job of the first request is finished and notified while its handler sleeps, and
  from there no step of any thread wakes the handler, short of a spurious wakeup.
\<close>

theorem lost_wakeup:
  fixes m :: msg
  assumes "1 \<le> sint (predictedTimeMillis m)"
    and "sint (targetExecutionTimeMillis m) \<le> sint (predictedTimeMillis m) + 1000"
  shows "\<exists>ls y. sys_run (init_system d st b n) ls y \<and> finished (tinfo (jobs (sch y) 0)) \<and>
    handler y 0 = Waiting \<and>
    (\<forall>ks z. sys_run y ks z \<longrightarrow> Spurious 0 \<notin> set ks \<longrightarrow> handler z 0 = Waiting)"
proof -
  obtain ls y where y: "sys_run (init_system d st b n) ls y" "0 \<in> set (completed y)"
    "handler y 0 = Waiting" "notifying y = None"
    using sleeper_reachable [OF assms] by blast
  have inv: "sys_inv y" using reachable_sys_inv [OF sys_run_reachable [OF y(1)]] .
  then have "finished (tinfo (jobs (sch y) 0))" using y(2)
    by (auto simp: sys_inv_def inv_jobs_def inv_flags_def job_places_def)
  moreover have "handler z 0 = Waiting" if "sys_run y ks z" "Spurious 0 \<notin> set ks" for ks z
    using sleeper_stays [OF that(1) inv y(2,3) _ that(2)] y(4) by simp
  ultimately show ?thesis using y(1,3) by blast
qed

theorem lost_wakeup_witness:
  "\<exists>ls y. sys_run demo_start ls y \<and> finished (tinfo (jobs (sch y) 0)) \<and> handler y 0 = Waiting \<and>
     (\<forall>ks z. sys_run y ks z \<longrightarrow> Spurious 0 \<notin> set ks \<longrightarrow> handler z 0 = Waiting)"
  unfolding demo_start_def by (rule lost_wakeup [of "demo_request 1000 1500"]) simp_all

text \<open>Jobs without a predicted time: no algorithm of the managed mode serves them.\<close>

lemma unpredicted_iteration:
  assumes "sys_inv y" "readyQ (sch y) \<noteq> []" "resPool (sch y) \<noteq> []" "length (resPool (sch y)) \<le> 4"
    and "\<forall>p\<in>set (readyQ (sch y)). predictedTime (job_at (sch y) p) = 0"
  shows "\<exists>pool. schedLoop_iter t0 t1 (sch y) = Inr ((sch y)\<lparr>resPool := pool\<rparr>) \<and>
    mset pool = mset (resPool (sch y))"
proof -
  let ?s = "sch y"
  have alg: "algVec ?s =
      [FCFSMax_alg, FCFSMin_alg, FCFSAsManyAsPos_alg, SJTF_alg, Priority_alg, ManagedMode_alg]"
    and "strat ?s = ''Completion Time''" using assms(1) by (simp_all add: sys_inv_def inv_config_def)
  moreover have "\<forall>p\<in>set (readyQ ?s). jmin (job_at ?s p) = 1 \<and> jmax (job_at ?s p) = 4"
    using assms(1) by (auto simp: sys_inv_def inv_jobs_def job_places_def)
  ultimately have "unpredicted ?s" using assms(5) by (simp add: unpredicted_def)
  from unpredicted_starves [OF this assms(4) sys_inv_ready_to_schedule [OF assms(1-3)]] alg
  obtain a pool where "ManagedMode ?s = Inr (a, ?s\<lparr>resPool := pool\<rparr>)" "noJobs a = 0"
    "mset pool = mset (resPool ?s)" by auto
  with alg assms(2,3) show ?thesis
    by (intro exI [of _ pool]) (simp add: schedLoop_iter_def wait_not_empty_def deque_size_def
        MODE_MANAGED_def call_alg_def count_jobs_def Let_def)
qed

text \<open>
  Requests without a predicted time starve: when all ready jobs have predicted time zero
  and at most four resources are free, an iteration of the scheduling loop serves none of them
  and changes nothing but the order of the pool.
\<close>

theorem unpredicted_jobs_starve:
  assumes "reachable y" "readyQ (sch y) \<noteq> []" "resPool (sch y) \<noteq> []" "length (resPool (sch y)) \<le> 4"
    and "\<forall>p\<in>set (readyQ (sch y)). predictedTime (job_at (sch y) p) = 0"
  shows "\<exists>pool. schedLoop_iter t0 t1 (sch y) = Inr ((sch y)\<lparr>resPool := pool\<rparr>) \<and>
    mset pool = mset (resPool (sch y))"
  using unpredicted_iteration [OF reachable_sys_inv [OF assms(1)] assms(2-5)] .

theorem unpredicted_jobs_starve_witness:
  "\<exists>pool. schedLoop_iter 0 1 (demo_queue 0 1500) = Inr ((demo_queue 0 1500)\<lparr>resPool := pool\<rparr>)"
proof -
  let ?y = "demo_start\<lparr>sch := demo_queue 0 1500, handler := (handler demo_start)(0 := Testing)\<rparr>"
  have "reachable ?y"
    using sys_run_reachable [OF sys_run_step [OF first_request_init]] unfolding demo_start_def demo_queue_def .
  from unpredicted_jobs_starve [OF this, of 0 1] show ?thesis
    by (auto simp: demo_queue_def Job_new_def millis_def)
qed

text \<open>
  C26. What is fast is never run: the executor hands the time of its CPU model on to the scheduler in
  whole milliseconds. When it chooses the shared devices and that time is below one, the request it
  forwards is never served, because the scheduler reads the zero as no prediction.
\<close>

theorem fast_predictions_starve:
  assumes "executor_main c sport host u ar disk = Inr e"
    and "PerformanceModels (Tasks e ! 0) = [Some dfe, Some cpu]"
    and "adjusted_time (unat (dataSize q)) (unat (exec_avg_wt e)) dfe \<le>
      adjusted_time (unat (dataSize q)) (unat (exec_avg_wt e)) cpu"
    and "0 \<le> adjusted_time (unat (dataSize q)) (unat (exec_avg_wt e)) cpu"
    and "adjusted_time (unat (dataSize q)) (unat (exec_avg_wt e)) cpu < 1"
  shows "\<exists>im pt m pool.
    SelectImplementation (unat (dataSize q)) (unat (exec_avg_wt e)) (Tasks e ! 0) = Inr (Some im, pt) \<and>
    FindResource (impType im) e = Some (Resource_new 1 sport host ''SHARED_DFE'') \<and>
    m = forwarded_request (Resource_new 1 sport host ''SHARED_DFE'') pt q \<and>
    schedLoop_iter t0 t1 (first_request d st b n m now) =
      Inr ((first_request d st b n m now)\<lparr>resPool := pool\<rparr>)"
proof -
  let ?pt = "adjusted_time (unat (dataSize q)) (unat (exec_avg_wt e)) cpu"
    and ?res = "Resource_new 1 sport host ''SHARED_DFE''"
  note sel = executor_selects_shared [OF assms(1-3)]
  let ?m = "forwarded_request ?res ?pt q" and ?i = "init_system d st b n"
  let ?y = "?i\<lparr>sch := first_request d st b n ?m now, handler := (handler ?i)(0 := Testing)\<rparr>"
  have "rat_trunc ?pt = 0" using assms(4,5) by (simp add: rat_trunc_def floor_eq_iff)
  then have "predictedTimeMillis ?m = 0" by (simp add: forwarded_request_def dispatch_request_def Let_def)
  then have "predictedTime (job_at (sch ?y) 0) = 0" by (simp add: Job_new_def millis_def)
  moreover have "sys_inv ?y" using sys_inv_step [OF first_request_init sys_inv_init] .
  ultimately have "\<exists>pool. schedLoop_iter t0 t1 (sch ?y) = Inr ((sch ?y)\<lparr>resPool := pool\<rparr>) \<and>
      mset pool = mset (resPool (sch ?y))"
    by (intro unpredicted_iteration) simp_all
  with sel show ?thesis by (auto simp: mav_imp_def)
qed

theorem fast_predictions_starve_witness:
  "\<exists>e (m :: msg) pool. executor_main ''1'' 8112 ''h'' 0 (demo_archive (1 / 2)) demo_disk = Inr e \<and>
    schedLoop_iter 0 1 (first_request 8113 (\<lambda>_. demo_tuple 0) 0 0 m 0) =
      Inr ((first_request 8113 (\<lambda>_. demo_tuple 0) 0 0 m 0)\<lparr>resPool := pool\<rparr>)"
proof -
  obtain e dfe cpu where e: "executor_main ''1'' 8112 ''h'' 0 (demo_archive (1 / 2)) demo_disk = Inr e"
    "PerformanceModels (Tasks e ! 0) = [Some dfe, Some cpu]" "\<forall>n w. adjusted_time n w cpu = 1 / 2"
    "\<forall>n. adjusted_time n (unat (exec_avg_wt e)) dfe = 1 / 2"
    by (rule demo_executor)
  with fast_predictions_starve [OF e(1,2), of "demo_request 0 0" 0 1 8113 "\<lambda>_. demo_tuple 0" 0 0 0]
  show ?thesis by auto
qed

text \<open>
  C21. A dispatcher that is gone takes the scheduler with it: take a job thread that finds nobody to
  connect to, or whose connection ends before the reply is complete, while the other threads and job
  threads go on in any way. Its job is never completed and its client never answered. As long as the
  process runs, the exception can leave the thread at any time; and once it, or that of another job
  thread, has, no thread makes a step any more: the jobs of all other clients are lost too. (Requests
  as in the theorems before, with a reply whose size fits an \<open>int\<close>.)
\<close>

theorem lost_dispatcher_ends_scheduler:
  assumes "reachable (psys x)" "predicted_jobs (psys x)" "few_requests (psys x)" "(p, rs) \<in> set (threads (psys x))"
    and "peer (p, rs) = Client_start resolved accepted (Open inp closes)"
    and "\<not> (resolved \<and> accepted) \<or>
      closes \<and> length inp < sizeof_msg + unat (expDataSizeBytes (req (job_at (sch (psys x)) p)))"
    and "wf_msg (req (job_at (sch (psys x)) p))"
    and "unat (expDataSizeBytes (req (job_at (sch (psys x)) p))) + sizeof_msg < 2 ^ 31"
    and "runs (proc_step peer) x ls z"
  shows "p \<notin> set (completed (psys z)) \<and> handler (psys z) p \<noteq> Returned \<and>
    (if terminated z then \<forall>l w. \<not> proc_step peer l z w
     else \<exists>w. proc_step peer (Job_Throws (p, rs) System_Error) z w \<and> terminated w)"
proof -
  have "snd (p, rs) \<noteq> []"
    using reachable_all_served [OF assms(1) modest_loadI [OF assms(2,3)]] assms(4) unfolding all_served_def by blast
  moreover have "lost_peer (peer (p, rs)) (req (job_at (sch (psys x)) p))"
    using assms(5,6) by (auto simp: lost_peer_def Client_start_def)
  ultimately have "doomed peer p rs x"
    using assms(4,7,8) reachable_sys_inv [OF assms(1)] by (simp add: doomed_def)
  then have z: "doomed peer p rs z" using doom.along [OF assms(9)] by blast
  then show ?thesis using doomed_unanswered [OF z] doomed_ends [OF z] terminated_stays by simp
qed

theorem lost_dispatcher_ends_scheduler_witness:
  "\<exists>x w. reachable (psys x) \<and> (0, [demo_resource]) \<in> set (threads (psys x)) \<and>
    proc_step (\<lambda>_. Client_start True False (Open [] False)) (Job_Throws (0, [demo_resource]) System_Error) x w \<and>
    terminated w"
proof -
  obtain ls z where z: "sys_run demo_start ls z" "reachable z" "modest_load z"
    "(0, [demo_resource]) \<in> set (threads z)" "req (job_at (sch z) 0) = demo_request 1000 1500"
    by (rule demo_running)
  let ?x = "\<lparr>psys = z, terminated = False\<rparr>" and ?peer = "\<lambda>_. Client_start True False (Open [] False)"
  have m: "wf_msg (demo_request 1000 1500)" "expDataSizeBytes (demo_request 1000 1500) = 0"
    by (simp_all add: demo_request_def wf_msg_def zero_msg_def sizeof_msg_def)
  have "\<exists>w. proc_step ?peer (Job_Throws (0, [demo_resource]) System_Error) ?x w \<and> terminated w"
    using lost_dispatcher_ends_scheduler [of ?x 0 "[demo_resource]" ?peer True False "[]" False "[]" ?x] z m
    by (simp add: modest_load_def sizeof_msg_def runs.nil)
  with z show ?thesis by (metis process.select_convs(1))
qed

text \<open>
  C28. Stopping the scheduler divides by the number of schedules: after any run, \<open>stop\<close> ends
  in an integer division by zero exactly if no allocation was served in it, so a \<open>MSG_TERM\<close>
  to a scheduler that had nothing to do crashes it.
\<close>

theorem stop_needs_a_schedule:
  assumes "sys_run (init_system d st b n) ls y"
  shows "scheduler_stop now (sch y) = Inl Division_By_Zero \<longleftrightarrow> (\<forall>l\<in>set ls. \<not> is_service l)"
proof -
  have "numSchedules (stats (sch (init_system d st b n))) = 0"
    by (simp add: init_system_def start_system_def scheduler_main_unfold stats_new_def)
  with sys_run_schedules [OF assms sys_inv_init]
  have "numSchedules (stats (sch y)) = length (filter is_service ls)" by simp
  then show ?thesis by (auto simp: scheduler_stop_def Let_def filter_empty_conv)
qed

theorem stop_needs_a_schedule_witness:
  "sys_run demo_start [Submit (demo_request 1000 1500) 0] demo_submitted \<and>
   scheduler_stop 5 (sch demo_submitted) = Inl Division_By_Zero"
proof -
  have run: "sys_run demo_start [Submit (demo_request 1000 1500) 0] demo_submitted"
    using sys_run_step [OF first_request_init] unfolding demo_submitted_def demo_start_def demo_queue_def .
  show ?thesis using stop_needs_a_schedule [OF run [unfolded demo_start_def], of 5] run by simp
qed

section \<open>The scheduler gets its work done\<close>

text \<open>
  C4. Every job is completed: when all requests so far had a predicted time, there were at most
  \<open>max_requests\<close> of them and no further one arrives, the threads of the scheduler, its job threads and
  its connection handlers together make at most the given number of steps in any order; the one step of a
  job thread is the arrival of the dispatcher's reply. Not counted are
  the iterations in which the scheduling thread finds the pool empty (\<open>Spin\<close>), which change nothing and can
  be repeated for as long as it stays empty; spurious wakeups are left out. Where no other step is
  left every job has been completed with a result, provided that no request had a target time, as those of the
  moving-average and option-pricing stubs have none. With target times, jobs may also be left waiting because
  the elasticity manager has given the last resource away, or has taken one that was promised. Each
  handler has then returned with its result or sleeps through it.
\<close>

theorem jobs_complete:
  assumes "reachable y" "predicted_jobs y" "few_requests y" "sys_run y ls z" "\<forall>l\<in>set ls. own_step l"
  shows "length (filter (\<lambda>l. l \<noteq> Spin) ls) \<le> tasks_left y \<and>
    ((\<forall>l w. own_step l \<and> l \<noteq> Spin \<longrightarrow> \<not> sys_step l z w) \<longrightarrow>
      (\<forall>p. handler z p = Returned \<or> handler z p = Waiting) \<and>
      (set (completed z) = {..<nextRef (sch y)} \<or>
       \<not> untargeted y \<and> (out_of_resources z \<or> lost_resource z)) \<and>
      (\<forall>p\<in>set (completed z). \<exists>r. rsp (job_at (sch z) p) = Some r \<and> msgId r = MSG_RESULT))"
  using own_run_ends(1) [OF assms(1) modest_loadI [OF assms(2,3)] assms(4,5)]
    at_rest [OF assms(1) modest_loadI [OF assms(2,3)] assms(4,5)] by (simp add: progress_step_def)

theorem jobs_complete_witness:
  "\<exists>ls z. sys_run demo_untargeted ls z \<and> (\<forall>l\<in>set ls. own_step l) \<and> length ls \<le> 32 \<and>
     set (completed z) = {0}"
proof -
  let ?y = demo_untargeted
  obtain ls z where run: "runs (\<lambda>l y z. progress_step l \<and> sys_step l y z) ?y ls z"
    and stop: "\<forall>l w. \<not> (progress_step l \<and> sys_step l z w)"
    using drain.halts [of ?y] demo_untargeted_load reachable_sys_inv [OF demo_untargeted_reachable]
      reachable_known_handlers [OF demo_untargeted_reachable] by (auto simp: modest_load_def)
  then have ls: "sys_run ?y ls z" "\<forall>l\<in>set ls. progress_step l"
    using runs_mono [OF run, of sys_step] runs_labels [OF run, of progress_step] by blast+
  then have "\<forall>l\<in>set ls. own_step l" "filter (\<lambda>l. l \<noteq> Spin) ls = ls"
    by (auto simp: progress_step_def intro: filter_True)
  with jobs_complete [OF demo_untargeted_reachable demo_untargeted_load(1,2) ls(1)] ls(1) stop demo_untargeted_load
  show ?thesis by (intro exI [of _ ls] exI [of _ z]) (auto simp: lessThan_Suc progress_step_def)
qed

text \<open>
  C5. Under a fair scheduling of the threads every job is completed, busy waiting or not: take any endless
  behaviour of the scheduler without new requests and spurious wakeups in which, whenever a thread has a
  step other than \<open>Spin\<close>, such a step is taken then or later (so that the dispatcher answers). After finitely many steps nothing changes
  any more, and then all jobs are completed with a result, with the two exceptions there are for requests
  with target times. The hypotheses on the requests are those of the previous theorem.
\<close>

theorem jobs_eventually_complete:
  assumes "reachable (st 0)" "predicted_jobs (st 0)" "few_requests (st 0)"
    and "behaviour (\<lambda>l y z. own_step l \<and> sys_step l y z) lab st"
    and "fair (\<lambda>l. l \<noteq> Spin) (\<lambda>l y z. own_step l \<and> sys_step l y z) lab st"
  shows "\<exists>n. \<forall>i\<ge>n. st i = st n \<and>
    (set (completed (st i)) = {..<nextRef (sch (st 0))} \<or>
     \<not> untargeted (st 0) \<and> (out_of_resources (st i) \<or> lost_resource (st i))) \<and>
    (\<forall>p\<in>set (completed (st i)). \<exists>r. rsp (job_at (sch (st i)) p) = Some r \<and> msgId r = MSG_RESULT)"
proof -
  note load = modest_loadI [OF assms(2,3)]
  have "fair progress_step (\<lambda>l y z. own_step l \<and> sys_step l y z) lab st"
    unfolding fair_def
  proof (intro allI impI)
    fix i
    assume "\<exists>l z. progress_step l \<and> own_step l \<and> sys_step l (st i) z"
    then obtain j l where j: "i \<le> j" "lab j = Some l" "l \<noteq> Spin"
      using assms(5) unfolding fair_def progress_step_def by blast
    with behaviour_at(2) [OF assms(4)] show "\<exists>j\<ge>i. \<exists>l. lab j = Some l \<and> progress_step l"
      unfolding progress_step_def by blast
  qed
  then obtain n where n: "\<forall>i\<ge>n. st i = st n" "\<forall>l z. progress_step l \<longrightarrow> \<not> (own_step l \<and> sys_step l (st n) z)"
    using fair_drain.settles [OF assms(4)] load reachable_sys_inv [OF assms(1)] reachable_known_handlers [OF assms(1)]
    by blast
  obtain ls where run: "runs (\<lambda>l y z. own_step l \<and> sys_step l y z) (st 0) ls (st n)"
    using behaviour_run [OF assms(4)] by blast
  have "sys_run (st 0) ls (st n)" "\<forall>l\<in>set ls. own_step l"
    using runs_mono [OF run, of sys_step] runs_labels [OF run, of own_step] by blast+
  from at_rest [OF assms(1) load this] n show ?thesis by (metis progress_step_def)
qed

theorem jobs_eventually_complete_witness:
  "\<exists>lab st n. st 0 = demo_untargeted \<and> behaviour (\<lambda>l y z. own_step l \<and> sys_step l y z) lab st \<and>
     (\<forall>i\<ge>n. set (completed (st i)) = {0})"
proof -
  let ?y = demo_untargeted and ?step = "\<lambda>l y z. own_step l \<and> sys_step l y z"
  have "\<exists>ls z. runs (\<lambda>l y z. progress_step l \<and> ?step l y z) ?y ls z \<and> (\<forall>l w. \<not> (progress_step l \<and> ?step l z w))"
    using fair_drain.halts [of ?y] demo_untargeted_load reachable_sys_inv [OF demo_untargeted_reachable]
      reachable_known_handlers [OF demo_untargeted_reachable] by (auto simp: modest_load_def)
  then obtain ls z where run: "runs (\<lambda>l y z. progress_step l \<and> ?step l y z) ?y ls z"
    and stop: "\<forall>l w. \<not> (progress_step l \<and> ?step l z w)" by blast
  obtain lab st where b: "behaviour ?step lab st" "fair progress_step ?step lab st" "st 0 = ?y"
    using run_fair [OF run stop] by blast
  have "fair (\<lambda>l. l \<noteq> Spin) ?step lab st"
    using b(2) unfolding fair_def progress_step_def by blast
  from jobs_eventually_complete [OF _ _ _ b(1) this] b(3) demo_untargeted_reachable demo_untargeted_load
  obtain n where "\<forall>i\<ge>n. set (completed (st i)) = {..<1}" by auto
  with b(1,3) show ?thesis by (intro exI [of _ lab] exI [of _ st] exI [of _ n]) (simp add: lessThan_Suc)
qed

text \<open>
  C6. The scheduler is never asked to hold more work than its server has threads: while requests are
  taken up by \<open>NUM_THREADS\<close> threads, each of which stays with its request until it is answered, the
  ready queue, the run queue, the job threads and the finished queue together never hold more than
  that many jobs.
\<close>

theorem scheduler_load_bounded:
  assumes "runs pooled_step (init_system d st b n) ls y"
  shows "length (readyQ (sch y)) + length (runQ (sch y)) + length (threads y) + length (finishedQ (sch y)) \<le> NUM_THREADS"
proof -
  let ?i = "init_system d st b n"
  have "known_handlers ?i" "length (active_handlers ?i) \<le> NUM_THREADS"
    by (simp_all add: known_handlers_def active_handlers_def init_system_def start_system_def scheduler_main_unfold)
  with load.along [OF assms] sys_inv_init
  have "sys_inv y" "known_handlers y" "length (active_handlers y) \<le> NUM_THREADS" by blast+
  then show ?thesis using load_bounded [of y] by simp
qed

theorem scheduler_load_bounded_witness:
  "runs pooled_step demo_start [Submit (demo_request 1000 0) 0] demo_untargeted \<and>
   length (readyQ (sch demo_untargeted)) = 1 \<and> NUM_THREADS = 4 \<and> length (threads demo_untargeted) \<le> 3"
proof -
  let ?l = "Submit (demo_request 1000 0) 0"
  have "sys_step ?l demo_start demo_untargeted"
    using first_request_init unfolding demo_untargeted_def demo_start_def demo_queue_def .
  moreover have "admitted ?l demo_start"
    by (simp add: active_handlers_def NUM_THREADS_def demo_start_def init_system_def start_system_def scheduler_main_unfold)
  ultimately have run: "runs pooled_step demo_start [?l] demo_untargeted"
    using runs_step [of pooled_step] by (simp add: pooled_step_def)
  have "length (readyQ (sch demo_untargeted)) = 1" by (simp add: demo_untargeted_def)
  with scheduler_load_bounded [OF run [unfolded demo_start_def]] run show ?thesis by (simp add: NUM_THREADS_def)
qed

text \<open>
  C20. Lost wakeups make the scheduler deaf: \<open>NUM_THREADS\<close> requests can be answered by the dispatcher
  and yet leave all threads of the server asleep, each in a handler that tested its flag before and
  waited after the notification. From then on no request is taken up any more in any run,
  short of a spurious wakeup.
\<close>

theorem lost_wakeups_deafen_scheduler:
  fixes m :: msg
  assumes "1 \<le> sint (predictedTimeMillis m)" "sint (targetExecutionTimeMillis m) \<le> 0"
  shows "\<exists>ls y. runs pooled_step (init_system d st b n) ls y \<and>
    set (completed y) = {..<NUM_THREADS} \<and> (\<forall>p<NUM_THREADS. handler y p = Waiting) \<and>
    (\<forall>ks z. runs pooled_step y ks z \<longrightarrow> (\<forall>p. Spurious p \<notin> set ks) \<longrightarrow>
      (\<forall>m' t. Submit m' t \<notin> set ks \<and> \<not> admitted (Submit m' t) z))"
proof -
  obtain ls y where run: "runs pooled_step (init_system d st b n) ls y" and y: "asleep y" "nextRef (sch y) = NUM_THREADS"
    using lose_all [OF assms order_refl] by metis
  have inv: "sys_inv y" using reachable_sys_inv [OF pooled_reachable [OF run]] .
  with y have deaf: "deaf y" by (simp add: deaf_def asleep_def)
  have "set (completed y) = {..<NUM_THREADS}"
    using y inv by (auto simp: asleep_def sys_inv_def inv_jobs_def job_places_def)
  moreover have "Submit m' t \<notin> set ks \<and> \<not> admitted (Submit m' t) z"
    if ks: "runs pooled_step y ks z" and no: "\<forall>p. Spurious p \<notin> set ks" for ks z m' t
  proof -
    have own: "runs (\<lambda>l y z. pooled_step l y z \<and> (\<forall>p. l \<noteq> Spurious p)) y ks z"
      by (rule runs_mono [OF ks]) (use no in auto)
    have "\<forall>l\<in>set ks. l \<noteq> Submit m' t"
      using deafness.labels [OF _ own deaf, of "\<lambda>l. l \<noteq> Submit m' t"] deaf_not_admitted pooled_step_def by metis
    moreover have "deaf z" using deafness.along [OF own deaf] .
    ultimately show ?thesis using deaf_not_admitted by blast
  qed
  ultimately show ?thesis using run y unfolding asleep_def by metis
qed

theorem lost_wakeups_deafen_scheduler_witness:
  "\<exists>ls y. runs pooled_step demo_start ls y \<and> set (completed y) = {..<NUM_THREADS} \<and>
     (\<forall>p<NUM_THREADS. handler y p = Waiting)"
  using lost_wakeups_deafen_scheduler [of "demo_request 1000 0" 8111 "\<lambda>_. demo_tuple 0" 0 0]
  unfolding demo_start_def by auto

section \<open>Shutting the scheduler down\<close>

lemma shutdown_reachable:
  "reachable y \<Longrightarrow> down_run (Scheduler_destroy (y, loop_threads)) ls d \<Longrightarrow> reachable (sys d)"
  using down_run_sys reachable_run by (fastforce simp: Scheduler_destroy_def)

text \<open>
  C13. The destructor of the scheduler ends: when all requests had a predicted time and there were at
  most \<open>max_requests\<close> of them, the destructor, the loop threads and the job threads together make at most
  the given number of steps in any order, not counting the busy waiting of the scheduling thread while
  the pool is empty. Where no other step is left the destructor has joined all three loop threads,
  unless jobs are left and the elasticity manager has given the last resource away, so that the
  scheduling thread spins for ever, or has taken one that was promised. With no job waiting to be
  scheduled, it always ends with all threads joined.
\<close>

theorem shutdown_ends:
  assumes "reachable y" "predicted_jobs y" "few_requests y"
    and "down_run (Scheduler_destroy (y, loop_threads)) ls d"
  shows "length (filter (\<lambda>l. l \<noteq> Work Spin) ls) \<le> work_left y + 9 \<and>
    ((\<forall>l e. l \<noteq> Work Spin \<longrightarrow> \<not> down_step l d e) \<longrightarrow>
      destroyed d \<or> \<not> drained y \<and> (out_of_resources (sys d) \<or> lost_resource (sys d)))"
proof -
  let ?d = "Scheduler_destroy (y, loop_threads)"
  have start: "sys ?d = y" "chores ?d = work_left y + 9" "down_inv ?d"
    using down_inv_start [OF reachable_sys_inv [OF assms(1)]]
    by (simp_all add: Scheduler_destroy_def chores_def loop_threads_def)
  note load = modest_loadI [OF assms(2,3)] and run = down_unspun [OF assms(4)]
  have d: "down_inv d" "modest_load (sys d)"
    and len: "length (filter (\<lambda>l. l \<noteq> Work Spin) ls) + chores d \<le> work_left y + 9"
    using down_predicted.along [OF run] down_predicted.bounded [OF run] start load by auto
  have "drained (sys d)" if "drained y" using down_drained.along [OF assms(4)] start that by simp
  then have "drained y \<Longrightarrow> \<not> destroyed d \<Longrightarrow> \<exists>l e. l \<noteq> Work Spin \<and> down_step l d e"
    using down_progress [OF d(1)] drained_not_stuck by blast
  moreover have "all_served (sys d)"
    using reachable_all_served [OF shutdown_reachable [OF assms(1,4)] d(2)] .
  ultimately show ?thesis using len stuck_cause [OF d] by auto
qed

theorem shutdown_ends_witness:
  "\<exists>ls d. down_run (Scheduler_destroy (demo_start, loop_threads)) ls d \<and> destroyed d \<and>
     length (filter (\<lambda>l. l \<noteq> Work Spin) ls) \<le> 11"
proof -
  let ?d = "Scheduler_destroy (demo_start, loop_threads)"
  have r: "reachable demo_start" unfolding demo_start_def by (rule sys_run_reachable [OF sys_run_nil])
  have dr: "drained demo_start" and "work_left demo_start = 2" and pr: "predicted_jobs demo_start" "few_requests demo_start"
    by (simp_all add: demo_start_def init_system_def start_system_def scheduler_main_unfold drained_def
        work_left_def modest_load_defs)
  obtain ls d where "down_run ?d ls d" "destroyed d"
    using destroyed_without_jobs [OF down_inv_start [OF reachable_sys_inv [OF r]]] dr
    by (auto simp: Scheduler_destroy_def)
  moreover from this have "length (filter (\<lambda>l. l \<noteq> Work Spin) ls) \<le> work_left demo_start + 9"
    using shutdown_ends [OF r pr] by blast
  ultimately show ?thesis using \<open>work_left demo_start = 2\<close> by (intro exI conjI) auto
qed



text \<open>
  C25. The destructor does not wait for the job threads: a scheduler with no job left to schedule can
  be destroyed while every job that was queued or running still is, and whatever those threads do
  afterwards, no further job is ever completed and no client is ever told.
\<close>

theorem destructor_abandons_jobs:
  assumes "reachable y" "drained y"
  shows "\<exists>ls d. down_run (Scheduler_destroy (y, loop_threads)) ls d \<and> destroyed d \<and>
    unfinished y \<subseteq> unfinished (sys d) \<and>
    (\<forall>ks e. down_run d ks e \<longrightarrow> completed (sys e) = completed (sys d) \<and> handler (sys e) = handler (sys d))"
proof -
  have "down_inv (Scheduler_destroy (y, loop_threads))"
    using down_inv_start [OF reachable_sys_inv [OF assms(1)]] .
  then obtain ls d where "down_run (Scheduler_destroy (y, loop_threads)) ls d" "destroyed d" "down_inv d"
    "unfinished y \<subseteq> unfinished (sys d)"
    using destroyed_without_jobs assms(2) by (fastforce simp: Scheduler_destroy_def)
  then show ?thesis using silent.along by blast
qed

theorem destructor_abandons_jobs_witness:
  "\<exists>y ls d. reachable y \<and> down_run (Scheduler_destroy (y, loop_threads)) ls d \<and> destroyed d \<and>
    0 \<in> unfinished (sys d)"
proof -
  obtain ls z where z: "reachable z" "(0, [demo_resource]) \<in> set (threads z)" "drained z"
    by (rule demo_running)
  have "0 \<in> unfinished z" using z(2) by (force simp: unfinished_def)
  with destructor_abandons_jobs [OF z(1,3)] z(1) show ?thesis by blast
qed

end
